(* ===== verification/PP_Prelude.thy ===== *)
theory PP_Prelude
  imports Main "HOL-Library.Word" "HOL-Library.Char_ord" "HOL-Library.List_Lexorder"
begin

text \<open>
  Shared vocabulary of the development: the machine-integer types of the sources, the outcome
  of a C++ call (a value, a thrown exception, or a loop that does not end), the few C library
  routines the sources rely on (\<^verbatim>\<open>strtoul\<close>, \<^verbatim>\<open>std::stoll\<close>, \<^verbatim>\<open>isspace\<close>), decimal numerals,
  and the generic list lemmas the components share.
\<close>

section \<open>Types of the sources\<close>

type_synonym u32 = "32 word"
type_synonym u64 = "64 word"
type_synonym i64 = "64 word"
type_synonym bytes = string
type_synonym node_id = int

text \<open>
  The exception classes the sources throw or let pass.  \<open>Logic_error\<close> and \<open>Runtime_error\<close> are
  the two exception classes of the bundled JSON library; every one of the four derives from
  \<^verbatim>\<open>std::exception\<close>, which is what the C entry points catch.
\<close>

datatype cpp_exn = Out_of_range | Invalid_argument | Logic_error | Runtime_error

text \<open>The outcome of a call: a value, an exception, or a loop that never ends.\<close>

datatype 'a outcome = Ret 'a | Exn cpp_exn | Diverge

text \<open>
  A call with side effects on a state \<open>'s\<close>: the value it returns or the exception it throws, and
  the state afterwards.  An exception keeps the effects made before it was thrown.
\<close>

type_synonym ('s, 'a) proc = "'s \<Rightarrow> (cpp_exn + 'a) \<times> 's"

definition returnP :: "'a \<Rightarrow> ('s, 'a) proc" where
  "returnP x s = (Inr x, s)"

definition throwP :: "cpp_exn \<Rightarrow> ('s, 'a) proc" where
  "throwP e s = (Inl e, s)"

definition bindP :: "('s, 'a) proc \<Rightarrow> ('a \<Rightarrow> ('s, 'b) proc) \<Rightarrow> ('s, 'b) proc" where
  "bindP m f s = (case m s of (Inl e, s') \<Rightarrow> (Inl e, s') | (Inr x, s') \<Rightarrow> f x s')"

definition modifyP :: "('s \<Rightarrow> 's) \<Rightarrow> ('s, unit) proc" where
  "modifyP f s = (Inr (), f s)"

definition getP :: "('s \<Rightarrow> 'a) \<Rightarrow> ('s, 'a) proc" where
  "getP f s = (Inr (f s), s)"

text \<open>Whatever \<open>m\<close> does, the destructor \<open>d\<close> runs when its scope is left.\<close>

definition finallyP :: "('s, 'a) proc \<Rightarrow> ('s \<Rightarrow> 's) \<Rightarrow> ('s, 'a) proc" where
  "finallyP m d s = (let (r, s') = m s in (r, d s'))"

lemmas proc_simps [simp] = returnP_def throwP_def modifyP_def getP_def

lemma bindP_assoc: "bindP (bindP m f) g = bindP m (\<lambda>x. bindP (f x) g)"
  by (rule ext) (simp add: bindP_def split: prod.splits sum.splits)

lemma bindP_cases:
  assumes "bindP m f s = (r, s')"
  obtains e where "m s = (Inl e, s')" "r = Inl e" | x s1 where "m s = (Inr x, s1)" "f x s1 = (r, s')"
  using assms by (auto simp: bindP_def split: prod.splits sum.splits)

section \<open>Collections of facts\<close>

named_theorems pool_simps \<open>reads and writes of the node pool\<close>
named_theorems node_simps \<open>what the trace-node operations do to each field\<close>
named_theorems consumed \<open>how much input a reader step takes\<close>

section \<open>Characters\<close>

definition isspace :: "char \<Rightarrow> bool" where
  "isspace c \<longleftrightarrow> c = CHR 0x20 \<or> (CHR 0x09 \<le> c \<and> c \<le> CHR 0x0D)"

definition isdigit :: "char \<Rightarrow> bool" where
  "isdigit c \<longleftrightarrow> CHR ''0'' \<le> c \<and> c \<le> CHR ''9''"

definition digit_of :: "char \<Rightarrow> nat" where
  "digit_of c = of_char c - 48"

definition digit_char :: "nat \<Rightarrow> char" where
  "digit_char d = char_of (48 + d)"

lemma isdigit_iff: "isdigit c \<longleftrightarrow> 48 \<le> (of_char c :: nat) \<and> (of_char c :: nat) \<le> 57"
  by (simp add: isdigit_def less_eq_char_def)

lemma digit_char_isdigit [simp]: "d < 10 \<Longrightarrow> isdigit (digit_char d)"
  by (simp add: isdigit_iff digit_char_def)

lemma digit_of_digit_char [simp]: "d < 10 \<Longrightarrow> digit_of (digit_char d) = d"
  by (simp add: digit_of_def digit_char_def)

lemma digit_of_less: "isdigit c \<Longrightarrow> digit_of c < 10"
  unfolding isdigit_iff digit_of_def by linarith

text \<open>A \<^verbatim>\<open>std::string\<close> handed on through \<^verbatim>\<open>c_str()\<close> is read up to its first NUL.\<close>

definition c_str :: "string \<Rightarrow> string" where
  "c_str s = takeWhile (\<lambda>c. c \<noteq> CHR 0x00) s"

lemma c_str_id: "CHR 0x00 \<notin> set s \<Longrightarrow> c_str s = s"
  by (auto simp: c_str_def takeWhile_eq_all_conv)

lemma c_str_idem [simp]: "c_str (c_str s) = c_str s"
  by (simp add: c_str_def)

section \<open>Decimal numerals\<close>

fun digits_val :: "nat \<Rightarrow> string \<Rightarrow> nat" where
  "digits_val n [] = n"
| "digits_val n (c # cs) = digits_val (n * 10 + digit_of c) cs"

lemma digits_val_append [simp]: "digits_val n (xs @ ys) = digits_val (digits_val n xs) ys"
  by (induction xs arbitrary: n) auto

lemma digits_val_mono: "n \<le> digits_val n cs"
proof (induction cs arbitrary: n)
  case (Cons c cs)
  have "n \<le> n * 10 + digit_of c" by simp
  also have "\<dots> \<le> digits_val (n * 10 + digit_of c) cs" by (rule Cons.IH)
  finally show ?case by simp
qed simp

fun decimal :: "nat \<Rightarrow> string" where
  "decimal n = (if n < 10 then [digit_char n] else decimal (n div 10) @ [digit_char (n mod 10)])"

declare decimal.simps [simp del]

lemma decimal_nonempty [simp]: "decimal n \<noteq> []"
  by (subst decimal.simps) simp

lemma decimal_isdigit: "c \<in> set (decimal n) \<Longrightarrow> isdigit c"
proof (induction n rule: decimal.induct)
  case (1 n)
  then show ?case by (cases "n < 10") (auto simp: decimal.simps [of n])
qed

lemma list_all_isdigit_decimal [simp]: "list_all isdigit (decimal n)"
  by (auto simp: list_all_iff decimal_isdigit)

lemma digits_val_decimal [simp]: "digits_val 0 (decimal n) = n"
proof (induction n rule: decimal.induct)
  case (1 n)
  then show ?case by (cases "n < 10") (auto simp: decimal.simps [of n])
qed

lemma takeWhile_all_append:
  "list_all P xs \<Longrightarrow> (case ys of [] \<Rightarrow> True | y # _ \<Rightarrow> \<not> P y) \<Longrightarrow>
   takeWhile P (xs @ ys) = xs \<and> dropWhile P (xs @ ys) = ys"
  by (induction xs) (auto split: list.splits)

section \<open>C library conversions\<close>

text \<open>
  \<^verbatim>\<open>strtoul (s, &end, 10)\<close>: white space, an optional sign, digits.  Without digits the value is
  0 and \<^verbatim>\<open>end\<close> is the start of the string; the magnitude saturates at \<^verbatim>\<open>ULONG_MAX\<close>, and a
  minus sign negates the value in the unsigned type.
\<close>

definition sign_split :: "string \<Rightarrow> bool \<times> string" where
  "sign_split s =
     (case s of
        c # cs \<Rightarrow> if c = CHR ''-'' then (True, cs) else if c = CHR ''+'' then (False, cs)
                  else (False, s)
      | [] \<Rightarrow> (False, []))"

definition strtoul :: "string \<Rightarrow> u64 \<times> string" where
  "strtoul s =
     (let (neg, t) = sign_split (dropWhile isspace s);
          ds = takeWhile isdigit t; n = digits_val 0 ds
      in if ds = [] then (0, s)
         else ((if 2 ^ 64 \<le> n then - 1
                else if neg then - word_of_nat n else word_of_nat n),
               dropWhile isdigit t))"

text \<open>
  \<^verbatim>\<open>std::stoll\<close>: \<^verbatim>\<open>strtoll\<close> that throws \<^verbatim>\<open>invalid_argument\<close> without digits and
  \<^verbatim>\<open>out_of_range\<close> outside the 64-bit signed range.
\<close>

definition stoll :: "string \<Rightarrow> cpp_exn + int" where
  "stoll s =
     (let (neg, t) = sign_split (dropWhile isspace s);
          ds = takeWhile isdigit t; n = int (digits_val 0 ds);
          v = (if neg then - n else n)
      in if ds = [] then Inl Invalid_argument
         else if v < - (2 ^ 63) \<or> 2 ^ 63 \<le> v then Inl Out_of_range
         else Inr v)"

lemma strtoul_length: "length (snd (strtoul s)) \<le> length s"
proof -
  have "length (snd (sign_split t)) \<le> length t" for t
    by (auto simp: sign_split_def split: list.splits)
  then have "length (dropWhile isdigit (snd (sign_split (dropWhile isspace s)))) \<le> length s"
    by (meson length_dropWhile_le order_trans)
  then show ?thesis
    by (auto simp: strtoul_def Let_def split: prod.splits)
qed

lemma isdigit_not_special:
  assumes "isdigit c"
  shows "\<not> isspace c" and "c \<noteq> CHR ''-''" and "c \<noteq> CHR ''+''" and "c \<noteq> CHR ''.''"
  using assms by (auto simp: isdigit_def isspace_def less_eq_char_def)

lemma sign_split_decimal:
  "sign_split (dropWhile isspace (decimal n @ rest)) = (False, decimal n @ rest)"
proof -
  obtain c cs where "decimal n = c # cs" by (cases "decimal n") auto
  moreover from this have "isdigit c" using decimal_isdigit [of c n] by simp
  ultimately show ?thesis
    by (simp add: sign_split_def isdigit_not_special)
qed

lemma strtoul_decimal:
  assumes "n < 2 ^ 64" and "case rest of [] \<Rightarrow> True | c # _ \<Rightarrow> \<not> isdigit c"
  shows "strtoul (decimal n @ rest) = (word_of_nat n, rest)"
  using assms takeWhile_all_append [of isdigit "decimal n" rest]
  by (simp add: strtoul_def sign_split_decimal)

section \<open>Words\<close>

lemma unat_less_32: "unat (w :: u32) < 2 ^ 32"
proof -
  have "unat w < 2 ^ LENGTH(32)" by (rule unsigned_less)
  then show ?thesis by simp
qed

lemma unat_less_64: "unat (w :: u64) < 2 ^ 64"
proof -
  have "unat w < 2 ^ LENGTH(64)" by (rule unsigned_less)
  then show ?thesis by simp
qed

lemma sint_small_32:
  assumes "unat (w :: u32) < 2 ^ 31"
  shows "sint w = int (unat w)"
proof -
  have "int (unat w) < int (2 ^ 31)" using assms by (simp only: of_nat_less_iff)
  then have "uint w < 2 ^ 31" "0 \<le> uint w" by simp_all
  then have "signed_take_bit 31 (uint w) = uint w" 
    by (intro signed_take_bit_int_eq_self) linarith+
  then show ?thesis by (simp add: sint_uint)
qed

section \<open>Lists\<close>

fun join :: "'a list \<Rightarrow> 'a list list \<Rightarrow> 'a list" where
  "join sep [] = []"
| "join sep [x] = x"
| "join sep (x # y # zs) = x @ sep @ join sep (y # zs)"

lemma join_Cons: "join sep (x # xs) = x @ (if xs = [] then [] else sep @ join sep xs)"
  by (cases xs) auto

lemma nth_concat_equal_length:
  assumes "\<forall>xs \<in> set xss. length xs = k" and "0 < k" and "i < length xss * k"
  shows "concat xss ! i = xss ! (i div k) ! (i mod k)"
  using assms
proof (induction xss arbitrary: i)
  case (Cons xs xss)
  show ?case
  proof (cases "i < k")
    case True
    with Cons.prems show ?thesis by (simp add: nth_append)
  next
    case False
    then have "i div k = Suc ((i - k) div k)" and "i mod k = (i - k) mod k"
      using Cons.prems(2) by (auto simp: le_div_geq le_mod_geq)
    with False Cons show ?thesis by (simp add: nth_append)
  qed
qed simp

end
