(* ===== verification/Json_Value.thy ===== *)
theory Json_Value
  imports PP_Prelude
begin

text \<open>
  The JSON values of the bundled library, \<^verbatim>\<open>common/jsoncpp/lib_json/json_value.cpp\<close>.  A value is a
  datatype with the library's eight value types; floating-point numbers are a type parameter
  \<open>'d\<close>.  The \<^verbatim>\<open>std::map\<close> of an object is a list of members in the order of
  \<^verbatim>\<open>CZString::operator<\<close>; the map of an array, whose keys are 0, 1, 2, ..., is a list.  Strings are
  shorter than \<^verbatim>\<open>2^30\<close> bytes, the width of the library's length field.
\<close>

section \<open>Values\<close>

datatype 'd jvalue =
    NullValue
  | IntValue i64
  | UIntValue u64
  | RealValue 'd
  | StringValue string
  | BooleanValue bool
  | ArrayValue "'d jvalue list"
  | ObjectValue "(string \<times> 'd jvalue) list"

section \<open>The order of member names\<close>

text \<open>\<^verbatim>\<open>memcmp\<close> over the first \<open>n\<close> characters: the sign of the first difference.\<close>

fun memcmp :: "string \<Rightarrow> string \<Rightarrow> nat \<Rightarrow> int" where
  "memcmp (x # xs) (y # ys) (Suc n) =
     (if of_char x < (of_char y :: nat) then - 1 else if of_char y < (of_char x :: nat) then 1
      else memcmp xs ys n)"
| "memcmp _ _ _ = 0"

definition CZString_less :: "string \<Rightarrow> string \<Rightarrow> bool" where
  "CZString_less a b =
     (let comp = memcmp a b (min (length a) (length b)) in
      if comp < 0 then True else if 0 < comp then False else length a < length b)"

definition CZString_eq :: "string \<Rightarrow> string \<Rightarrow> bool" where
  "CZString_eq a b = (if length a \<noteq> length b then False else memcmp a b (length a) = 0)"

lemma memcmp_Cons:
  "memcmp (x # xs) (y # ys) (Suc n) = (if x < y then - 1 else if y < x then 1 else memcmp xs ys n)"
  by (simp add: less_char_def)

lemma CZString_less_Cons:
  "CZString_less (x # xs) (y # ys) \<longleftrightarrow> x < y \<or> x = y \<and> CZString_less xs ys"
  by (cases x y rule: linorder_cases)
    (auto simp: CZString_less_def memcmp_Cons order.asym simp del: memcmp.simps)

lemma CZString_less_Nil [simp]: "CZString_less [] b \<longleftrightarrow> b \<noteq> []" "\<not> CZString_less a []"
  by (cases b; simp add: CZString_less_def) (cases a; simp add: CZString_less_def)

lemma CZString_less_eq_lex: "CZString_less a b \<longleftrightarrow> a < b"
proof (induction a arbitrary: b)
  case Nil
  then show ?case by (cases b) simp_all
next
  case (Cons x xs)
  then show ?case by (cases b) (simp_all add: CZString_less_Cons)
qed

lemma CZString_eq_iff: "CZString_eq a b \<longleftrightarrow> a = b"
proof (induction a arbitrary: b)
  case Nil
  then show ?case by (cases b) (simp_all add: CZString_eq_def)
next
  case (Cons x xs)
  show ?case
  proof (cases b)
    case b: (Cons y ys)
    have "CZString_eq (x # xs) (y # ys) \<longleftrightarrow> x = y \<and> CZString_eq xs ys"
      by (cases x y rule: linorder_cases) 
        (auto simp: CZString_eq_def memcmp_Cons order.asym simp del: memcmp.simps)
    then show ?thesis by (simp add: b Cons.IH)
  qed (simp add: CZString_eq_def)
qed

section \<open>Members of an object\<close>

text \<open>The members from \<^verbatim>\<open>lower_bound(key)\<close> on, and the ones before.\<close>

definition lower_bound :: "string \<Rightarrow> (string \<times> 'v) list \<Rightarrow> (string \<times> 'v) list" where
  "lower_bound key ms = dropWhile (\<lambda>(k, _). CZString_less k key) ms"

definition before_bound :: "string \<Rightarrow> (string \<times> 'v) list \<Rightarrow> (string \<times> 'v) list" where
  "before_bound key ms = takeWhile (\<lambda>(k, _). CZString_less k key) ms"

definition find_member :: "string \<Rightarrow> (string \<times> 'v) list \<Rightarrow> 'v option" where
  "find_member key ms =
     (case lower_bound key ms of
        [] \<Rightarrow> None
      | (k, v) # _ \<Rightarrow> if CZString_eq k key then Some v else None)"

text \<open>The map after the member \<open>key\<close>, found or inserted at the hint, has received the value \<open>v\<close>.\<close>

definition put_member :: "string \<Rightarrow> 'v \<Rightarrow> (string \<times> 'v) list \<Rightarrow> (string \<times> 'v) list" where
  "put_member key v ms =
     before_bound key ms @ (key, v) #
       (case lower_bound key ms of
          [] \<Rightarrow> []
        | (k, w) # rest \<Rightarrow> if CZString_eq k key then rest else (k, w) # rest)"

definition erase_member :: "string \<Rightarrow> (string \<times> 'v) list \<Rightarrow> (string \<times> 'v) list" where
  "erase_member key ms =
     before_bound key ms @
       (case lower_bound key ms of
          [] \<Rightarrow> []
        | (k, w) # rest \<Rightarrow> if CZString_eq k key then rest else (k, w) # rest)"

abbreviation keys_sorted :: "(string \<times> 'v) list \<Rightarrow> bool" where
  "keys_sorted ms \<equiv> sorted_wrt (<) (map fst ms)"

text \<open>The interface of the member map, as the value operations use it.\<close>

locale member_map =
  fixes lookup :: "'k \<Rightarrow> 'm \<Rightarrow> 'v option"
    and put :: "'k \<Rightarrow> 'v \<Rightarrow> 'm \<Rightarrow> 'm"
    and erase :: "'k \<Rightarrow> 'm \<Rightarrow> 'm"
    and inv :: "'m \<Rightarrow> bool"
  assumes lookup_put: "inv m \<Longrightarrow> lookup k (put k' v m) = (if k = k' then Some v else lookup k m)"
    and lookup_erase: "inv m \<Longrightarrow> lookup k (erase k' m) = (if k = k' then None else lookup k m)"
    and inv_put: "inv m \<Longrightarrow> inv (put k v m)"
    and inv_erase: "inv m \<Longrightarrow> inv (erase k m)"
begin

lemma lookup_put_same [simp]: "inv m \<Longrightarrow> lookup k (put k v m) = Some v"
  by (simp add: lookup_put)

lemma lookup_fold_put:
  "inv m \<Longrightarrow> lookup k (fold (\<lambda>(k, v). put k v) kvs m) =
     (case map_of (rev kvs) k of None \<Rightarrow> lookup k m | Some v \<Rightarrow> Some v)"
  by (induction kvs arbitrary: m) (auto simp: lookup_put inv_put map_add_def split: option.splits)

lemma inv_fold_put: "inv m \<Longrightarrow> inv (fold (\<lambda>(k, v). put k v) kvs m)"
  by (induction kvs arbitrary: m) (auto simp: inv_put)

end

lemma find_member_simps [simp]:
  "find_member key [] = None"
  "find_member key ((k, v) # ms) =
     (if k < key then find_member key ms else if k = key then Some v else None)"
  by (simp_all add: find_member_def lower_bound_def CZString_less_eq_lex CZString_eq_iff)

lemma put_member_simps [simp]:
  "put_member key v [] = [(key, v)]"
  "put_member key v ((k, w) # ms) =
     (if k < key then (k, w) # put_member key v ms
      else if k = key then (key, v) # ms else (key, v) # (k, w) # ms)"
  by (simp_all add: put_member_def before_bound_def lower_bound_def CZString_less_eq_lex CZString_eq_iff)

lemma erase_member_simps [simp]:
  "erase_member key [] = []"
  "erase_member key ((k, w) # ms) =
     (if k < key then (k, w) # erase_member key ms else if k = key then ms else (k, w) # ms)"
  by (simp_all add: erase_member_def before_bound_def lower_bound_def CZString_less_eq_lex CZString_eq_iff)

lemma set_put_member: "fst ` set (put_member key v ms) = insert key (fst ` set ms)"
proof (induction ms)
  case (Cons kv ms)
  then show ?case by (cases kv) (simp add: insert_commute)
qed simp

lemma set_erase_member: "fst ` set (erase_member key ms) \<subseteq> fst ` set ms"
proof (induction ms)
  case (Cons kv ms)
  then show ?case by (cases kv) (simp, blast)
qed simp

lemma find_member_before:
  assumes "\<forall>x \<in> set ms. a < fst x" and "\<not> a < key"
  shows "find_member key ms = None"
proof (cases ms)
  case (Cons kv ms')
  then have "key < fst kv" using assms by (auto intro: le_less_trans simp: not_less)
  then show ?thesis using Cons by (cases kv) auto
qed simp

lemma find_put_member:
  "keys_sorted ms \<Longrightarrow> find_member key (put_member key' v ms) = (if key = key' then Some v else find_member key ms)"
  by (induction ms) (auto simp: find_member_before)

lemma find_erase_member:
  "keys_sorted ms \<Longrightarrow> find_member key (erase_member key' ms) = (if key = key' then None else find_member key ms)"
  by (induction ms) (auto simp: find_member_before)

lemma keys_sorted_put: "keys_sorted ms \<Longrightarrow> keys_sorted (put_member key v ms)"
proof (induction ms)
  case (Cons kv ms)
  then show ?case using set_put_member [of key v ms] by (cases kv) (auto intro: less_trans)
qed simp

lemma keys_sorted_erase: "keys_sorted ms \<Longrightarrow> keys_sorted (erase_member key ms)"
proof (induction ms)
  case (Cons kv ms)
  then show ?case using set_erase_member [of key ms] by (cases kv) fastforce
qed simp

interpretation mm: member_map find_member put_member erase_member keys_sorted
  by unfold_locales (auto simp: find_put_member find_erase_member keys_sorted_put keys_sorted_erase)

lemma find_member_map_of: "keys_sorted ms \<Longrightarrow> find_member key ms = map_of ms key"
proof (induction ms)
  case (Cons kv ms)
  then show ?case
    using find_member_before [of ms "fst kv" key] by (cases kv) (auto split: if_splits)
qed simp

lemma put_member_twice: "keys_sorted ms \<Longrightarrow> put_member k v (put_member k w ms) = put_member k v ms"
  by (induction ms) auto

section \<open>Operations on values\<close>

text \<open>
  An operation on a value in place: its result (or the \<^verbatim>\<open>AliasJson::LogicError\<close> it throws) and the
  value afterwards.
\<close>

type_synonym ('d, 'a) jop = "'d jvalue \<Rightarrow> (cpp_exn + 'a) \<times> 'd jvalue"

text \<open>
  \<^verbatim>\<open>resolveReference(key, end)\<close> hands out a reference to the member; \<open>f\<close> is what the caller does with it.
  A missing member is created as null first, and stays even if the caller's action throws.
\<close>

definition resolveReference :: "string \<Rightarrow> ('d, 'a) jop \<Rightarrow> ('d, 'a) jop" where
  "resolveReference key f v =
     (case v of
        NullValue \<Rightarrow> (let (r, x) = f NullValue in (r, ObjectValue [(key, x)]))
      | ObjectValue ms \<Rightarrow>
          (let (r, x) = f (case find_member key ms of Some y \<Rightarrow> y | None \<Rightarrow> NullValue)
           in (r, ObjectValue (put_member key x ms)))
      | _ \<Rightarrow> (Inl Logic_error, v))"

definition assign :: "'d jvalue \<Rightarrow> ('d, unit) jop" where
  "assign x v = (Inr (), x)"

definition append_val :: "'d jvalue \<Rightarrow> ('d, unit) jop" where
  "append_val x v =
     (case v of
        NullValue \<Rightarrow> (Inr (), ArrayValue [x])
      | ArrayValue xs \<Rightarrow> (Inr (), ArrayValue (xs @ [x]))
      | _ \<Rightarrow> (Inl Logic_error, v))"

text \<open>\<^verbatim>\<open>v[key] = x\<close> and \<^verbatim>\<open>v[key].append(x)\<close>.\<close>

definition set_key :: "string \<Rightarrow> 'd jvalue \<Rightarrow> ('d, unit) jop" where
  "set_key key x = resolveReference key (assign x)"

definition append_key :: "string \<Rightarrow> 'd jvalue \<Rightarrow> ('d, unit) jop" where
  "append_key key x = resolveReference key (append_val x)"

text \<open>\<^verbatim>\<open>find\<close>: the member, \<open>None\<close> when there is none.\<close>

definition find_val :: "string \<Rightarrow> 'd jvalue \<Rightarrow> cpp_exn + 'd jvalue option" where
  "find_val key v =
     (case v of
        NullValue \<Rightarrow> Inr None
      | ObjectValue ms \<Rightarrow> Inr (find_member key ms)
      | _ \<Rightarrow> Inl Logic_error)"

definition at_key :: "string \<Rightarrow> 'd jvalue \<Rightarrow> cpp_exn + 'd jvalue" where
  "at_key key v =
     (case find_val key v of
        Inl e \<Rightarrow> Inl e | Inr None \<Rightarrow> Inr NullValue | Inr (Some x) \<Rightarrow> Inr x)"

definition get_val :: "string \<Rightarrow> 'd jvalue \<Rightarrow> 'd jvalue \<Rightarrow> cpp_exn + 'd jvalue" where
  "get_val key dflt v =
     (case find_val key v of
        Inl e \<Rightarrow> Inl e | Inr None \<Rightarrow> Inr dflt | Inr (Some x) \<Rightarrow> Inr x)"

definition isMember :: "string \<Rightarrow> 'd jvalue \<Rightarrow> cpp_exn + bool" where
  "isMember key v = (case find_val key v of Inl e \<Rightarrow> Inl e | Inr m \<Rightarrow> Inr (m \<noteq> None))"

definition removeMember :: "string \<Rightarrow> 'd jvalue \<Rightarrow> bool \<times> 'd jvalue" where
  "removeMember key v =
     (case v of
        ObjectValue ms \<Rightarrow>
          if find_member key ms = None then (False, v) else (True, ObjectValue (erase_member key ms))
      | _ \<Rightarrow> (False, v))"

definition getMemberNames :: "'d jvalue \<Rightarrow> cpp_exn + string list" where
  "getMemberNames v =
     (case v of
        NullValue \<Rightarrow> Inr [] | ObjectValue ms \<Rightarrow> Inr (map fst ms) | _ \<Rightarrow> Inl Logic_error)"

definition size_of :: "'d jvalue \<Rightarrow> nat" where
  "size_of v = (case v of ArrayValue xs \<Rightarrow> length xs | ObjectValue ms \<Rightarrow> length ms | _ \<Rightarrow> 0)"

definition isNull :: "'d jvalue \<Rightarrow> bool" where
  "isNull v = (case v of NullValue \<Rightarrow> True | _ \<Rightarrow> False)"

lemma isNull_NullValue [simp]: "isNull NullValue"
  by (simp add: isNull_def)

definition isString :: "'d jvalue \<Rightarrow> bool" where
  "isString v = (case v of StringValue _ \<Rightarrow> True | _ \<Rightarrow> False)"

definition isArray :: "'d jvalue \<Rightarrow> bool" where
  "isArray v = (case v of ArrayValue _ \<Rightarrow> True | _ \<Rightarrow> False)"

definition isObject :: "'d jvalue \<Rightarrow> bool" where
  "isObject v = (case v of ObjectValue _ \<Rightarrow> True | _ \<Rightarrow> False)"

definition empty_val :: "'d jvalue \<Rightarrow> bool" where
  "empty_val v = (if isNull v \<or> isArray v \<or> isObject v then size_of v = 0 else False)"

definition operator_bool :: "'d jvalue \<Rightarrow> bool" where
  "operator_bool v = (\<not> isNull v)"

definition clear_val :: "('d, unit) jop" where
  "clear_val v =
     (case v of
        NullValue \<Rightarrow> (Inr (), NullValue)
      | ArrayValue _ \<Rightarrow> (Inr (), ArrayValue [])
      | ObjectValue _ \<Rightarrow> (Inr (), ObjectValue [])
      | _ \<Rightarrow> (Inl Logic_error, v))"

section \<open>Well-formed values\<close>

fun jv_ok :: "'d jvalue \<Rightarrow> bool" where
  "jv_ok (ArrayValue xs) = list_all jv_ok xs"
| "jv_ok (ObjectValue ms) = (keys_sorted ms \<and> list_all (\<lambda>(_, x). jv_ok x) ms)"
| "jv_ok _ = True"

lemma set_put_member_subset: "set (put_member key v ms) \<subseteq> insert (key, v) (set ms)"
proof (induction ms)
  case (Cons kv ms)
  then show ?case by (cases kv) (simp, blast)
qed simp

lemma find_member_in: "find_member key ms = Some v \<Longrightarrow> (key, v) \<in> set ms"
  by (induction ms) (auto split: if_splits)

lemma resolveReference_ok:
  assumes "jv_ok v" and "\<And>x. jv_ok x \<Longrightarrow> jv_ok (snd (f x))"
  shows "jv_ok (snd (resolveReference key f v))"
proof (cases v)
  case (ObjectValue ms)
  have "jv_ok (case find_member key ms of Some y \<Rightarrow> y | None \<Rightarrow> NullValue)"
    using assms(1) ObjectValue by (auto simp: list_all_iff split: option.splits dest: find_member_in)
  then show ?thesis
    using assms ObjectValue set_put_member_subset [of key _ ms]
    by (fastforce simp: resolveReference_def keys_sorted_put list_all_iff split: prod.splits)
next
  case NullValue
  have "jv_ok (snd (f NullValue))" by (simp add: assms(2))
  then show ?thesis using NullValue by (cases "f NullValue") (simp add: resolveReference_def)
qed (use assms(1) in \<open>simp_all add: resolveReference_def\<close>)

lemma set_key_ok [simp]: "jv_ok v \<Longrightarrow> jv_ok x \<Longrightarrow> jv_ok (snd (set_key key x v))"
  by (simp add: set_key_def resolveReference_ok assign_def)

lemma append_key_ok [simp]: "jv_ok v \<Longrightarrow> jv_ok x \<Longrightarrow> jv_ok (snd (append_key key x v))"
  unfolding append_key_def
  by (rule resolveReference_ok) (auto simp: append_val_def split: jvalue.splits)

text \<open>Reading a member back after a write through \<^verbatim>\<open>operator[]\<close>.\<close>

definition container :: "'d jvalue \<Rightarrow> bool" where
  "container v \<longleftrightarrow> isNull v \<or> isObject v"

lemma container_simps [simp]: "container NullValue" "container (ObjectValue ms)"
  by (simp_all add: container_def isObject_def)

lemma resolveReference_at:
  assumes "jv_ok v" and "container v"
  shows "at_key k (snd (resolveReference key f v)) =
           (if k = key then Inr (snd (f (case at_key key v of Inr x \<Rightarrow> x | Inl _ \<Rightarrow> NullValue)))
            else at_key k v)"
    and "fst (resolveReference key f v) = fst (f (case at_key key v of Inr x \<Rightarrow> x | Inl _ \<Rightarrow> NullValue))"
  using assms
  by (cases v; auto simp: resolveReference_def at_key_def find_val_def container_def isNull_def isObject_def
      find_put_member split: prod.splits option.splits)+

lemma set_key_at:
  assumes "jv_ok v" and "container v"
  shows "at_key k (snd (set_key key x v)) = (if k = key then Inr x else at_key k v)"
    and "fst (set_key key x v) = Inr ()"
  using assms by (simp_all add: set_key_def resolveReference_at assign_def)

lemma container_resolve [simp]:
  "container v \<Longrightarrow> container (snd (resolveReference key f v))"
  by (cases v) (auto simp: resolveReference_def container_def isNull_def isObject_def split: prod.splits)

lemma container_set_key [simp]: "container v \<Longrightarrow> container (snd (set_key key x v))"
  unfolding set_key_def by (rule container_resolve)

lemma container_append_key [simp]: "container v \<Longrightarrow> container (snd (append_key key x v))"
  unfolding append_key_def by (rule container_resolve)

lemma non_container_resolve:
  "\<not> container v \<Longrightarrow> resolveReference key f v = (Inl Logic_error, v)"
  by (cases v) (auto simp: resolveReference_def container_def isNull_def isObject_def)

lemma append_key_at:
  assumes "jv_ok v" and "container v" and "at_key key v = Inr y"
  shows "fst (append_key key x v) = (if isNull y \<or> isArray y then Inr () else Inl Logic_error)"
    and "at_key k (snd (append_key key x v)) =
           (if k = key then Inr (snd (append_val x y)) else at_key k v)"
  using assms
  by (auto simp: append_key_def resolveReference_at append_val_def isNull_def isArray_def split: jvalue.splits)

end
