(* ===== verification/Trace_Node.thy ===== *)
theory Trace_Node
  imports Json_Value
begin

text \<open>
  A trace node, \<^verbatim>\<open>common/src/NodePool/TraceNode.h\<close> and \<^verbatim>\<open>TraceNode.cpp\<close>, with the context values
  of \<^verbatim>\<open>common/src/Context/ContextType.h\<close>.  Every clock reading (\<^verbatim>\<open>get_unix_time_ms\<close>) is an argument
  \<open>now\<close>.  The lambdas a user option installs are the values of a datatype, run by
  \<open>run_option\<close>.
\<close>

section \<open>State\<close>

abbreviation E_INVALID_NODE :: node_id where "E_INVALID_NODE \<equiv> - 1"

abbreviation E_ROOT_NODE :: node_id where "E_ROOT_NODE \<equiv> 0"

abbreviation E_TRACE_PASS :: int where "E_TRACE_PASS \<equiv> 2"

abbreviation E_TRACE_BLOCK :: int where "E_TRACE_BLOCK \<equiv> 4"

datatype context_type = StringContext string | LongContext int

definition asStringValue :: "context_type \<Rightarrow> cpp_exn + string" where
  "asStringValue c = (case c of StringContext s \<Rightarrow> Inr s | LongContext _ \<Rightarrow> Inl Logic_error)"

definition asLongValue :: "context_type \<Rightarrow> cpp_exn + int" where
  "asLongValue c = (case c of LongContext l \<Rightarrow> Inr l | StringContext _ \<Rightarrow> Inl Logic_error)"

datatype user_option = TraceMinTimeMs int | TraceOnlyException

record root_extra =
  re_last :: node_id
  re_next :: node_id
  re_status :: int
  re_sequence :: int

definition RootTraceNodeExtra :: root_extra where
  "RootTraceNodeExtra =
     \<lparr>re_last = E_INVALID_NODE, re_next = E_INVALID_NODE, re_status = E_TRACE_PASS, re_sequence = 0\<rparr>"

record 'd trace_node =
  tn_extra :: "root_extra option"
  tn_root_id :: node_id
  tn_parent_id :: node_id
  tn_id :: node_id
  tn_next :: node_id
  tn_depth :: int
  tn_sequence :: int
  tn_start_time :: u64
  tn_pre_time :: u64
  tn_expired :: i64
  tn_set_exp :: bool
  tn_refs :: int
  tn_value :: "'d jvalue"
  tn_context :: "string \<rightharpoonup> context_type"
  tn_options :: "user_option list"
  tn_skipped :: bool

text \<open>A node as \<^verbatim>\<open>new TraceNode[]\<close> makes it (the reference count is set before its first use).\<close>

definition new_TraceNode :: "'d trace_node" where
  "new_TraceNode =
     \<lparr>tn_extra = None, tn_root_id = E_INVALID_NODE, tn_parent_id = E_INVALID_NODE,
      tn_id = E_INVALID_NODE, tn_next = E_INVALID_NODE, tn_depth = 1, tn_sequence = - 1,
      tn_start_time = 0, tn_pre_time = 0, tn_expired = - 1, tn_set_exp = False, tn_refs = 0,
      tn_value = NullValue, tn_context = Map.empty, tn_options = [], tn_skipped = False\<rparr>"

section \<open>Operations\<close>

text \<open>\<^verbatim>\<open>value_[key] = v\<close> and \<^verbatim>\<open>value_[key].append(v)\<close>.\<close>

definition AddAnnotation :: "string \<Rightarrow> 'd jvalue \<Rightarrow> ('d trace_node, unit) proc" where
  "AddAnnotation key v n = (let (r, x) = set_key key v (tn_value n) in (r, n\<lparr>tn_value := x\<rparr>))"

definition AppendAnnotation :: "string \<Rightarrow> 'd jvalue \<Rightarrow> ('d trace_node, unit) proc" where
  "AppendAnnotation key v n = (let (r, x) = append_key key v (tn_value n) in (r, n\<lparr>tn_value := x\<rparr>))"

definition UpgradeToRootNode :: "int \<Rightarrow> ('d trace_node, unit) proc" where
  "UpgradeToRootNode agent_type n =
     AddAnnotation '':FT'' (IntValue (word_of_int agent_type))
       (n\<lparr>tn_extra := Some RootTraceNodeExtra, tn_root_id := tn_id n, tn_parent_id := tn_id n,
          tn_next := E_INVALID_NODE, tn_depth := 0, tn_sequence := 0\<rparr>)"

text \<open>
  The accessors of the root's extra part.  The sources dereference its pointer without a test, so
  they are only called on root nodes; on another node the model leaves the node alone.
\<close>

definition CreateNewSequence :: "'d trace_node \<Rightarrow> int \<times> 'd trace_node" where
  "CreateNewSequence n =
     (case tn_extra n of
        Some x \<Rightarrow> (re_sequence x, n\<lparr>tn_extra := Some (x\<lparr>re_sequence := re_sequence x + 1\<rparr>)\<rparr>)
      | None \<Rightarrow> (0, n))"

definition GetLastNode :: "'d trace_node \<Rightarrow> node_id" where
  "GetLastNode n = (case tn_extra n of Some x \<Rightarrow> re_last x | None \<Rightarrow> E_INVALID_NODE)"

definition SetLastNode :: "node_id \<Rightarrow> 'd trace_node \<Rightarrow> 'd trace_node" where
  "SetLastNode l n = n\<lparr>tn_extra := map_option (\<lambda>x. x\<lparr>re_last := l\<rparr>) (tn_extra n)\<rparr>"

definition SetStatus :: "int \<Rightarrow> 'd trace_node \<Rightarrow> 'd trace_node" where
  "SetStatus status n = n\<lparr>tn_extra := map_option (\<lambda>x. x\<lparr>re_status := status\<rparr>) (tn_extra n)\<rparr>"

definition GetStatus :: "'d trace_node \<Rightarrow> int" where
  "GetStatus n = (case tn_extra n of Some x \<Rightarrow> re_status x | None \<Rightarrow> 0)"

definition IsRootNode :: "'d trace_node \<Rightarrow> bool" where
  "IsRootNode n \<longleftrightarrow> tn_root_id n = tn_id n"

definition getContext :: "string \<Rightarrow> 'd trace_node \<Rightarrow> cpp_exn + string" where
  "getContext key n =
     (case tn_context n key of None \<Rightarrow> Inl Out_of_range | Some c \<Rightarrow> asStringValue c)"

definition setContext :: "string \<Rightarrow> string \<Rightarrow> 'd trace_node \<Rightarrow> 'd trace_node" where
  "setContext key buf n = n\<lparr>tn_context := (tn_context n)(key \<mapsto> StringContext buf)\<rparr>"

definition getContext_long :: "string \<Rightarrow> 'd trace_node \<Rightarrow> cpp_exn + int" where
  "getContext_long key n =
     (case tn_context n key of None \<Rightarrow> Inl Out_of_range | Some c \<Rightarrow> asLongValue c)"

definition setContext_long :: "string \<Rightarrow> int \<Rightarrow> 'd trace_node \<Rightarrow> 'd trace_node" where
  "setContext_long key l n = n\<lparr>tn_context := (tn_context n)(key \<mapsto> LongContext l)\<rparr>"

definition addReference :: "'d trace_node \<Rightarrow> 'd trace_node" where
  "addReference n = n\<lparr>tn_refs := tn_refs n + 1\<rparr>"

definition decReference :: "'d trace_node \<Rightarrow> 'd trace_node" where
  "decReference n = n\<lparr>tn_refs := tn_refs n - 1\<rparr>"

definition IsNotReference :: "'d trace_node \<Rightarrow> bool" where
  "IsNotReference n \<longleftrightarrow> tn_refs n = 0"

definition ShouldSkip :: "'d trace_node \<Rightarrow> bool" where
  "ShouldSkip n = tn_skipped n"

definition SkipByParent :: "'d trace_node \<Rightarrow> 'd trace_node" where
  "SkipByParent n = n\<lparr>tn_skipped := True\<rparr>"

text \<open>\<^verbatim>\<open>Reset\<close>: depth, sequence and the skip flag keep their values.\<close>

definition Reset :: "node_id \<Rightarrow> 'd trace_node \<Rightarrow> 'd trace_node" where
  "Reset nid n =
     n\<lparr>tn_id := nid, tn_root_id := E_INVALID_NODE, tn_parent_id := E_INVALID_NODE, tn_next := E_INVALID_NODE,
       tn_pre_time := 0, tn_start_time := 0, tn_expired := - 1, tn_refs := 0, tn_extra := None,
       tn_options := [], tn_value := snd (clear_val (tn_value n)), tn_context := Map.empty,
       tn_set_exp := False\<rparr>"

definition StartTrace_node :: "u64 \<Rightarrow> 'd trace_node \<Rightarrow> 'd trace_node" where
  "StartTrace_node now n = n\<lparr>tn_start_time := now\<rparr>"

definition EndTrace_node :: "u64 \<Rightarrow> ('d trace_node, unit) proc" where
  "EndTrace_node now =
     bindP (modifyP (\<lambda>n. n\<lparr>tn_expired := now - tn_start_time n\<rparr>)) (\<lambda>_.
     bindP (\<lambda>n. AddAnnotation '':E'' (IntValue (tn_expired n)) n) (\<lambda>_.
     bindP (\<lambda>n. AddAnnotation '':S'' (UIntValue (tn_start_time n - tn_pre_time n)) n) (\<lambda>_.
     bindP (\<lambda>n. if tn_set_exp n then AddAnnotation ''EA'' (IntValue 1) n else (Inr (), n)) (\<lambda>_.
     (\<lambda>n. if tn_extra n = None then
            bindP (\<lambda>n. AddAnnotation '':seq'' (IntValue (word_of_int (tn_sequence n))) n) (\<lambda>_.
            (\<lambda>n. AddAnnotation '':depth'' (IntValue (word_of_int (tn_depth n))) n)) n
          else (Inr (), n))))))"

definition BindParentTrace :: "'d trace_node \<Rightarrow> 'd trace_node \<Rightarrow> 'd trace_node" where
  "BindParentTrace parent n = n\<lparr>tn_parent_id := tn_id parent, tn_depth := tn_depth parent + 1\<rparr>"

definition parseUserOption :: "string \<Rightarrow> string \<Rightarrow> ('d trace_node, unit) proc" where
  "parseUserOption key val n =
     (if key = ''TraceMinTimeMs'' then
        (case stoll val of
           Inl e \<Rightarrow> (Inl e, n)
         | Inr m \<Rightarrow> (Inr (), n\<lparr>tn_options := tn_options n @ [TraceMinTimeMs m]\<rparr>))
      else if key = ''TraceOnlyException'' then
        (Inr (), n\<lparr>tn_options := tn_options n @ [TraceOnlyException]\<rparr>)
      else (Inr (), n))"

definition run_option :: "user_option \<Rightarrow> 'd trace_node \<Rightarrow> bool \<times> 'd trace_node" where
  "run_option opt n =
     (case opt of
        TraceMinTimeMs m \<Rightarrow> if m \<le> sint (tn_expired n) then (True, n) else (False, n\<lparr>tn_skipped := True\<rparr>)
      | TraceOnlyException \<Rightarrow> (tn_set_exp n, n\<lparr>tn_skipped := \<not> tn_set_exp n\<rparr>))"

fun run_options :: "user_option list \<Rightarrow> 'd trace_node \<Rightarrow> bool \<times> 'd trace_node" where
  "run_options [] n = (True, n)"
| "run_options [opt] n = run_option opt n"
| "run_options (opt # opt' # opts) n =
     (let (r, n') = run_option opt n in if r then (True, n') else run_options (opt' # opts) n')"

definition runUserOptionFunc :: "'d trace_node \<Rightarrow> bool \<times> 'd trace_node" where
  "runUserOptionFunc n = run_options (tn_options n) n"

text \<open>The variadic options, up to the terminating null pointer, as a list.\<close>

fun setNodeUserOption :: "string list \<Rightarrow> ('d trace_node, unit) proc" where
  "setNodeUserOption [] n = (Inr (), n)"
| "setNodeUserOption (var # args) n =
     (let key = takeWhile (\<lambda>c. c \<noteq> CHR '':'') var; rest = dropWhile (\<lambda>c. c \<noteq> CHR '':'') var
      in bindP (parseUserOption key (if rest = [] then [] else tl rest)) (\<lambda>_. setNodeUserOption args) n)"

section \<open>What a node operation touches\<close>

text \<open>
  The place of a node in its trace, apart from what has been recorded in it; of a root's extra part
  the last node and the next sequence number, not the status.
\<close>

definition place :: "'d trace_node \<Rightarrow>
    (node_id \<times> int) option \<times> node_id \<times> node_id \<times> node_id \<times> node_id \<times> int \<times> int" where
  "place n = (map_option (\<lambda>x. (re_last x, re_sequence x)) (tn_extra n), tn_root_id n,
     tn_parent_id n, tn_id n, tn_next n, tn_depth n, tn_sequence n)"

definition skel :: "'d trace_node \<Rightarrow>
    ((node_id \<times> int) option \<times> node_id \<times> node_id \<times> node_id \<times> node_id \<times> int \<times> int) \<times> int" where
  "skel n = (place n, tn_refs n)"

text \<open>The recorded value is a well-formed JSON object (or null, when nothing was recorded).\<close>

definition node_ok :: "'d trace_node \<Rightarrow> bool" where
  "node_ok n \<longleftrightarrow> jv_ok (tn_value n) \<and> container (tn_value n)"

lemma AddAnnotation_eq:
  "AddAnnotation key v n = (fst (set_key key v (tn_value n)), n\<lparr>tn_value := snd (set_key key v (tn_value n))\<rparr>)"
  by (simp add: AddAnnotation_def split: prod.splits)

lemma AppendAnnotation_eq:
  "AppendAnnotation key v n =
     (fst (append_key key v (tn_value n)), n\<lparr>tn_value := snd (append_key key v (tn_value n))\<rparr>)"
  by (simp add: AppendAnnotation_def split: prod.splits)

lemma skel_value [simp]: "skel (n\<lparr>tn_value := v\<rparr>) = skel n" "skel (n\<lparr>tn_expired := e\<rparr>) = skel n"
  "skel (n\<lparr>tn_set_exp := b\<rparr>) = skel n" "skel (n\<lparr>tn_context := c\<rparr>) = skel n" "skel (n\<lparr>tn_skipped := b\<rparr>) = skel n"
  "skel (n\<lparr>tn_options := os\<rparr>) = skel n" "skel (n\<lparr>tn_start_time := t\<rparr>) = skel n" "skel (n\<lparr>tn_pre_time := t\<rparr>) = skel n"
  by (simp_all add: skel_def place_def)

lemma node_ok_fields [simp]: "node_ok (n\<lparr>tn_expired := e\<rparr>) = node_ok n" "node_ok (n\<lparr>tn_set_exp := b\<rparr>) = node_ok n"
  "node_ok (n\<lparr>tn_context := c\<rparr>) = node_ok n" "node_ok (n\<lparr>tn_skipped := b\<rparr>) = node_ok n"
  "node_ok (n\<lparr>tn_options := os\<rparr>) = node_ok n" "node_ok (n\<lparr>tn_refs := k\<rparr>) = node_ok n"
  "node_ok (n\<lparr>tn_next := j\<rparr>) = node_ok n" "node_ok (n\<lparr>tn_root_id := j\<rparr>) = node_ok n"
  "node_ok (n\<lparr>tn_sequence := k\<rparr>) = node_ok n" "node_ok (n\<lparr>tn_pre_time := t\<rparr>) = node_ok n"
  "node_ok (n\<lparr>tn_start_time := t\<rparr>) = node_ok n" "node_ok (n\<lparr>tn_extra := x\<rparr>) = node_ok n"
  "node_ok (n\<lparr>tn_parent_id := j, tn_depth := k\<rparr>) = node_ok n"
  by (simp_all add: node_ok_def)

lemma AddAnnotation_ok:
  assumes "node_ok n" and "jv_ok v"
  shows "fst (AddAnnotation key v n) = Inr ()" and "node_ok (snd (AddAnnotation key v n))"
    and "skel (snd (AddAnnotation key v n)) = skel n"
  using assms by (simp_all add: AddAnnotation_eq node_ok_def set_key_at)

lemma AppendAnnotation_ok:
  assumes "node_ok n" and "jv_ok v"
  shows "node_ok (snd (AppendAnnotation key v n))" and "skel (snd (AppendAnnotation key v n)) = skel n"
  using assms by (simp_all add: AppendAnnotation_eq node_ok_def)

text \<open>What is recorded at the end of a trace.\<close>

definition recorded :: "string \<Rightarrow> 'd trace_node \<Rightarrow> 'd jvalue" where
  "recorded key n = (case at_key key (tn_value n) of Inr v \<Rightarrow> v | Inl _ \<Rightarrow> NullValue)"

lemma recorded_AddAnnotation:
  assumes "node_ok n"
  shows "recorded k (snd (AddAnnotation key v n)) = (if k = key then v else recorded k n)"
  using assms by (simp add: recorded_def AddAnnotation_eq node_ok_def set_key_at)

definition end_value :: "u64 \<Rightarrow> 'd trace_node \<Rightarrow> 'd jvalue" where
  "end_value now n =
     (let v = snd (set_key '':E'' (IntValue (now - tn_start_time n)) (tn_value n));
          v = snd (set_key '':S'' (UIntValue (tn_start_time n - tn_pre_time n)) v);
          v = (if tn_set_exp n then snd (set_key ''EA'' (IntValue 1) v) else v)
      in if tn_extra n = None then
           snd (set_key '':depth'' (IntValue (word_of_int (tn_depth n)))
             (snd (set_key '':seq'' (IntValue (word_of_int (tn_sequence n))) v)))
         else v)"

lemma AddAnnotation_step:
  assumes "node_ok n" and "jv_ok v"
  shows "AddAnnotation key v n = (Inr (), n\<lparr>tn_value := snd (set_key key v (tn_value n))\<rparr>)"
    and "node_ok (n\<lparr>tn_value := snd (set_key key v (tn_value n))\<rparr>)"
  using assms by (simp_all add: AddAnnotation_eq node_ok_def set_key_at)

lemma EndTrace_node_eq:
  assumes "node_ok n"
  shows "EndTrace_node now n = (Inr (), n\<lparr>tn_expired := now - tn_start_time n, tn_value := end_value now n\<rparr>)"
proof -
  define n1 where "n1 = n\<lparr>tn_expired := now - tn_start_time n\<rparr>"
  define n2 where "n2 = n1\<lparr>tn_value := snd (set_key '':E'' (IntValue (tn_expired n1)) (tn_value n1))\<rparr>"
  define n3 where "n3 = n2\<lparr>tn_value := snd (set_key '':S'' (UIntValue (tn_start_time n2 - tn_pre_time n2)) (tn_value n2))\<rparr>"
  define n4 where "n4 = (if tn_set_exp n3 then n3\<lparr>tn_value := snd (set_key ''EA'' (IntValue 1) (tn_value n3))\<rparr> else n3)"
  define n5 where "n5 = n4\<lparr>tn_value := snd (set_key '':seq'' (IntValue (word_of_int (tn_sequence n4))) (tn_value n4))\<rparr>"
  have o1: "node_ok n1" using assms by (simp add: n1_def)
  have o2: "node_ok n2" unfolding n2_def using o1 by (intro AddAnnotation_step(2)) simp_all
  have o3: "node_ok n3" unfolding n3_def using o2 by (intro AddAnnotation_step(2)) simp_all
  have o4: "node_ok n4" using o3 AddAnnotation_step(2) [OF o3] by (simp add: n4_def)
  have o5: "node_ok n5" unfolding n5_def using o4 by (intro AddAnnotation_step(2)) simp_all
  have s2: "AddAnnotation '':E'' (IntValue (tn_expired n1)) n1 = (Inr (), n2)"
    using AddAnnotation_step(1) [OF o1] by (simp add: n2_def)
  have s3: "AddAnnotation '':S'' (UIntValue (tn_start_time n2 - tn_pre_time n2)) n2 = (Inr (), n3)"
    using AddAnnotation_step(1) [OF o2] by (simp add: n3_def)
  have s4: "(if tn_set_exp n3 then AddAnnotation ''EA'' (IntValue 1) n3 else (Inr (), n3)) = (Inr (), n4)"
    using AddAnnotation_step(1) [OF o3] by (simp add: n4_def)
  have s5: "AddAnnotation '':seq'' (IntValue (word_of_int (tn_sequence n4))) n4 = (Inr (), n5)"
    using AddAnnotation_step(1) [OF o4] by (simp add: n5_def)
  have s6: "AddAnnotation '':depth'' (IntValue (word_of_int (tn_depth n5))) n5 =
      (Inr (), n5\<lparr>tn_value := snd (set_key '':depth'' (IntValue (word_of_int (tn_depth n5))) (tn_value n5))\<rparr>)"
    by (rule AddAnnotation_step(1) [OF o5]) simp
  have "EndTrace_node now n =
      (Inr (), if tn_extra n4 = None
               then n5\<lparr>tn_value := snd (set_key '':depth'' (IntValue (word_of_int (tn_depth n5))) (tn_value n5))\<rparr> else n4)"
    by (simp add: EndTrace_node_def bindP_def s2 s3 s4 s5 s6 flip: n1_def)
  also have "\<dots> = (Inr (), n\<lparr>tn_expired := now - tn_start_time n, tn_value := end_value now n\<rparr>)"
    by (simp add: n1_def n2_def n3_def n4_def n5_def end_value_def Let_def)
  finally show ?thesis .
qed

lemma end_value_ok: "node_ok n \<Longrightarrow> jv_ok (end_value now n) \<and> container (end_value now n)"
  by (simp add: end_value_def node_ok_def Let_def)

lemma EndTrace_node_ok:
  assumes "node_ok n"
  shows "node_ok (snd (EndTrace_node now n))" and "skel (snd (EndTrace_node now n)) = skel n"
  using assms end_value_ok [OF assms, of now] by (simp_all add: EndTrace_node_eq node_ok_def)

lemma end_value_at:
  assumes "node_ok n"
  shows "at_key k (end_value now n) =
    (if k = '':depth'' \<and> tn_extra n = None then Inr (IntValue (word_of_int (tn_depth n)))
     else if k = '':seq'' \<and> tn_extra n = None then Inr (IntValue (word_of_int (tn_sequence n)))
     else if k = ''EA'' \<and> tn_set_exp n then Inr (IntValue 1)
     else if k = '':S'' then Inr (UIntValue (tn_start_time n - tn_pre_time n))
     else if k = '':E'' then Inr (IntValue (now - tn_start_time n))
     else at_key k (tn_value n))"
  using assms by (simp add: end_value_def node_ok_def set_key_at Let_def)

lemma Reset_ok: "node_ok n \<Longrightarrow> node_ok (Reset nid n)"
  by (cases "tn_value n") (auto simp: node_ok_def Reset_def clear_val_def container_def isNull_def isObject_def)

lemma new_TraceNode_ok: "node_ok new_TraceNode"
  by (simp add: node_ok_def new_TraceNode_def)

section \<open>Properties\<close>

text \<open>
  Ending a node never fails and records, next to what was recorded before, the elapsed time,
  the start time relative to the previous node of the trace, the exception mark exactly when an
  exception was reported, and for an event (a node that is not a root) its sequence number and
  depth; the place of the node in its trace is left alone.
\<close>

lemma end_trace_records:
  assumes "node_ok n" and "EndTrace_node now n = (r, n')"
  shows "r = Inr () \<and> skel n' = skel n \<and>
         recorded '':E'' n' = IntValue (now - tn_start_time n) \<and>
         recorded '':S'' n' = UIntValue (tn_start_time n - tn_pre_time n) \<and>
         recorded ''EA'' n' = (if tn_set_exp n then IntValue 1 else recorded ''EA'' n) \<and>
         recorded '':seq'' n' = (if tn_extra n = None then IntValue (word_of_int (tn_sequence n)) else recorded '':seq'' n) \<and>
         recorded '':depth'' n' = (if tn_extra n = None then IntValue (word_of_int (tn_depth n)) else recorded '':depth'' n) \<and>
         (\<forall>k. k \<notin> {'':E'', '':S'', ''EA'', '':seq'', '':depth''} \<longrightarrow> recorded k n' = recorded k n)"
proof -
  have n': "r = Inr ()" "n' = n\<lparr>tn_expired := now - tn_start_time n, tn_value := end_value now n\<rparr>"
    using assms EndTrace_node_eq [OF assms(1), of now] by auto
  have "recorded k n' = (case at_key k (end_value now n) of Inr v \<Rightarrow> v | Inl _ \<Rightarrow> NullValue)" for k
    by (simp add: n' recorded_def)
  then show ?thesis
    using n' by (simp add: end_value_at [OF assms(1)] recorded_def)
qed

definition accepts :: "user_option \<Rightarrow> 'd trace_node \<Rightarrow> bool" where
  "accepts opt n \<longleftrightarrow> fst (run_option opt n)"

lemma accepts_skip: "accepts opt (snd (run_option opt' n)) = accepts opt n"
  by (cases opt; cases opt') (auto simp: accepts_def run_option_def)

lemma run_options_any: "fst (run_options opts n) \<longleftrightarrow> opts = [] \<or> (\<exists>opt \<in> set opts. accepts opt n)"
proof (induction opts n rule: run_options.induct)
  case (3 opt opt' opts n)
  obtain r n' where r: "run_option opt n = (r, n')" by fastforce
  then have "accepts opt n = r" "\<And>o'. accepts o' n' = accepts o' n"
    using accepts_skip [of _ opt n] by (auto simp: accepts_def)
  with 3 [OF r [symmetric]] r show ?case by auto
qed (auto simp: accepts_def)

text \<open>
  The user options of a node are alternatives: the combined verdict is positive when there is
  no option or when one of them accepts the node, whatever their order.
\<close>

lemma user_options_any:
  "fst (runUserOptionFunc n) \<longleftrightarrow> tn_options n = [] \<or> (\<exists>opt \<in> set (tn_options n). accepts opt n)"
  unfolding runUserOptionFunc_def by (rule run_options_any)

end
