(* ===== verification/Node_Pool.thy ===== *)
theory Node_Pool
  imports Trace_Node
begin

text \<open>
  The pool of trace nodes, \<^verbatim>\<open>common/src/NodePool/PoolManager.h\<close> and \<^verbatim>\<open>PoolManager.cpp\<close>: cells of 128
  nodes that are never given back to the heap, a flag per node telling whether it is in use, and a
  stack of free indices.  Node \<open>id\<close> lives at index \<open>id - 1\<close>.  A reference to a node is its index; a
  \<^verbatim>\<open>WrapperTraceNodePtr\<close> is a scope (\<open>withNode\<close>) that raises the node's reference count on entry and
  lowers it on exit, whether by return or by exception.  One thread runs at a time, so a sleep
  changes nothing.
\<close>

section \<open>State\<close>

abbreviation CELL_SIZE :: nat where "CELL_SIZE \<equiv> 128"

abbreviation POOL_MAX_NODES_LIMIT :: int where "POOL_MAX_NODES_LIMIT \<equiv> 12800"

record 'd pool =
  nodeIndexVec :: "'d trace_node list list"
  usedNodeSet :: "bool list"
  readyNodeSet :: "bool list"
  maxId :: int
  freeNodeList :: "int list"

definition node_at :: "'d pool \<Rightarrow> int \<Rightarrow> 'd trace_node" where
  "node_at p i = nodeIndexVec p ! (nat i div CELL_SIZE) ! (nat i mod CELL_SIZE)"

definition upd_node :: "int \<Rightarrow> ('d trace_node \<Rightarrow> 'd trace_node) \<Rightarrow> 'd pool \<Rightarrow> 'd pool" where
  "upd_node i f p =
     (let c = nat i div CELL_SIZE; k = nat i mod CELL_SIZE in
      p\<lparr>nodeIndexVec := (nodeIndexVec p)[c := (nodeIndexVec p ! c)[k := f (nodeIndexVec p ! c ! k)]]\<rparr>)"

text \<open>Running a node's own operation on the node in the pool.\<close>

definition onNode :: "int \<Rightarrow> ('d trace_node, 'a) proc \<Rightarrow> ('d pool, 'a) proc" where
  "onNode i m p = (let (r, n) = m (node_at p i) in (r, upd_node i (\<lambda>_. n) p))"

section \<open>Operations\<close>

definition expandOnce :: "'d pool \<Rightarrow> 'd pool" where
  "expandOnce p =
     p\<lparr>nodeIndexVec := nodeIndexVec p @ [replicate CELL_SIZE new_TraceNode],
       usedNodeSet := usedNodeSet p @ readyNodeSet p,
       freeNodeList := rev [maxId p..maxId p + int CELL_SIZE - 1] @ freeNodeList p,
       maxId := maxId p + int CELL_SIZE\<rparr>"

definition PoolManager :: "'d pool" where
  "PoolManager =
     expandOnce \<lparr>nodeIndexVec = [], usedNodeSet = [], readyNodeSet = replicate CELL_SIZE False,
                 maxId = E_ROOT_NODE, freeNodeList = []\<rparr>"

text \<open>The flags are as many as \<open>maxId\<close> says, so \<^verbatim>\<open>usedNodeSet_.at\<close> never throws.\<close>

definition indexInUsedVec :: "int \<Rightarrow> 'd pool \<Rightarrow> bool" where
  "indexInUsedVec index p =
     (if 0 \<le> index \<and> index < maxId p \<and> nat index < length (usedNodeSet p)
      then usedNodeSet p ! nat index else False)"

definition getUsedNode :: "node_id \<Rightarrow> ('d pool, int) proc" where
  "getUsedNode nid p =
     (if nid = E_ROOT_NODE then (Inl Out_of_range, p)
      else if \<not> indexInUsedVec (nid - 1) p then (Inl Out_of_range, p)
      else (Inr (nid - 1), p))"

definition getReadyNode :: "('d pool, int) proc" where
  "getReadyNode p =
     (if freeNodeList p = [] \<and> POOL_MAX_NODES_LIMIT < maxId p then (Inl Out_of_range, p)
      else
        let p = (if freeNodeList p = [] then expandOnce p else p);
            index = hd (freeNodeList p);
            p = p\<lparr>freeNodeList := tl (freeNodeList p), usedNodeSet := (usedNodeSet p)[nat index := True]\<rparr>
        in (Inr index, upd_node index (Reset (index + 1)) p))"

definition GetNode :: "('d pool, int) proc" where
  "GetNode = getReadyNode"

text \<open>\<^verbatim>\<open>ReferNode\<close> and the scope of the wrapper it returns.\<close>

definition withNode :: "node_id \<Rightarrow> (int \<Rightarrow> ('d pool, 'a) proc) \<Rightarrow> ('d pool, 'a) proc" where
  "withNode nid body =
     bindP (getUsedNode nid) (\<lambda>i.
     bindP (modifyP (upd_node i addReference)) (\<lambda>_.
     finallyP (body i) (upd_node i decReference)))"

definition returnNode :: "node_id \<Rightarrow> node_id \<Rightarrow> bool \<Rightarrow> 'd pool \<Rightarrow> (bool \<times> node_id) \<times> 'd pool" where
  "returnNode nid nxt force p =
     (let index = nid - 1 in
      if \<not> indexInUsedVec index p then ((True, nxt), p)
      else if \<not> IsNotReference (node_at p index) \<and> \<not> force then ((False, nxt), p)
      else
        ((True, tn_next (node_at p index)),
         p\<lparr>usedNodeSet := (usedNodeSet p)[nat index := False], freeNodeList := index # freeNodeList p\<rparr>))"

text \<open>The tries of \<^verbatim>\<open>ReturnNode\<close>, one per millisecond, and the forced return after the last.\<close>

fun return_tries :: "nat \<Rightarrow> node_id \<Rightarrow> 'd pool \<Rightarrow> node_id \<times> 'd pool" where
  "return_tries 0 nid p = (let ((_, nxt), p') = returnNode nid E_INVALID_NODE True p in (nxt, p'))"
| "return_tries (Suc k) nid p =
     (let ((done, nxt), p') = returnNode nid E_INVALID_NODE False p
      in if done then (nxt, p') else return_tries k nid p')"

definition ReturnNode :: "node_id \<Rightarrow> 'd pool \<Rightarrow> node_id \<times> 'd pool" where
  "ReturnNode nid p = return_tries 1000 nid p"

definition used_count :: "'d pool \<Rightarrow> nat" where
  "used_count p = length (filter (\<lambda>b. b) (usedNodeSet p))"

lemma count_true_update:
  "i < length bs \<Longrightarrow> bs ! i \<Longrightarrow> length (filter (\<lambda>b. b) (bs[i := False])) < length (filter (\<lambda>b. b) bs)"
  by (induction bs arbitrary: i) (auto split: nat.splits)

lemma returnNode_next:
  assumes "returnNode nid E_INVALID_NODE f p = ((b, nxt), p')" and "nxt \<noteq> E_INVALID_NODE"
  shows "used_count p' < used_count p"
  using assms by (auto simp: returnNode_def Let_def indexInUsedVec_def used_count_def
      intro!: count_true_update split: if_splits)

lemma return_tries_next:
  "return_tries k nid p = (nxt, p') \<Longrightarrow> nxt \<noteq> E_INVALID_NODE \<Longrightarrow> used_count p' < used_count p"
proof (induction k arbitrary: p)
  case 0
  then show ?case by (auto split: prod.splits dest: returnNode_next)
next
  case (Suc k)
  obtain b n q where r: "returnNode nid E_INVALID_NODE False p = ((b, n), q)" by (metis prod.exhaust)
  have "\<not> b \<Longrightarrow> q = p" using r by (auto simp: returnNode_def Let_def split: if_splits)
  then show ?case using Suc r by (auto split: if_splits dest: returnNode_next)
qed

text \<open>The loop of \<^verbatim>\<open>FreeNodeTree\<close>: it ends because every node it goes on from was in use before.\<close>

function free_from :: "node_id \<Rightarrow> 'd pool \<Rightarrow> 'd pool" where
  "free_from nid p =
     (let (nxt, p') = ReturnNode nid p in if nxt \<noteq> E_INVALID_NODE then free_from nxt p' else p')"
  by pat_completeness auto
termination
proof (relation "measure (\<lambda>(_, p). used_count p)", goal_cases)
  case (2 nid p x nxt p')
  then have "return_tries 1000 nid p = (nxt, p')" by (simp add: ReturnNode_def)
  then show ?case using 2(3) return_tries_next [of 1000 nid p nxt p'] by simp
qed simp

declare free_from.simps [simp del]

definition FreeNodeTree :: "node_id \<Rightarrow> 'd pool \<Rightarrow> 'd pool" where
  "FreeNodeTree root p =
     (if root = E_INVALID_NODE \<or> root = E_ROOT_NODE then p else free_from root p)"

definition AppendToRootTrace :: "int \<Rightarrow> int \<Rightarrow> ('d pool, unit) proc" where
  "AppendToRootTrace root newNode =
     bindP (getP (\<lambda>p. tn_root_id (node_at p newNode))) (\<lambda>rid.
     if rid \<noteq> E_INVALID_NODE then returnP ()
     else
       bindP (modifyP (\<lambda>p. upd_node newNode (\<lambda>n. n\<lparr>tn_root_id := tn_id (node_at p root)\<rparr>) p)) (\<lambda>_.
       bindP (getP (\<lambda>p. GetLastNode (node_at p root))) (\<lambda>lst.
       bindP (if lst \<noteq> E_INVALID_NODE then
                withNode lst (\<lambda>lastNode.
                  bindP (modifyP (\<lambda>p. upd_node lastNode (\<lambda>n. n\<lparr>tn_next := tn_id (node_at p newNode)\<rparr>) p)) (\<lambda>_.
                  modifyP (\<lambda>p. upd_node newNode (\<lambda>n. n\<lparr>tn_pre_time := tn_start_time (node_at p lastNode)\<rparr>) p)))
              else
                modifyP (\<lambda>p. upd_node newNode (\<lambda>n. n\<lparr>tn_pre_time := tn_start_time (node_at p root)\<rparr>) p)) (\<lambda>_.
       bindP (modifyP (\<lambda>p. upd_node root (SetLastNode (tn_id (node_at p newNode))) p)) (\<lambda>_.
       bindP (onNode root (\<lambda>n. let (k, n') = CreateNewSequence n in (Inr k, n'))) (\<lambda>k.
       bindP (modifyP (upd_node newNode (\<lambda>n. n\<lparr>tn_sequence := k\<rparr>))) (\<lambda>_.
       modifyP (\<lambda>p. if tn_next (node_at p root) = E_INVALID_NODE
                    then upd_node root (\<lambda>n. n\<lparr>tn_next := tn_id (node_at p newNode)\<rparr>) p else p))))))))"

text \<open>
  One round of the loop of \<^verbatim>\<open>EncodeTraceToJsonSpan\<close>: the value of the node is copied (the argument of
  \<^verbatim>\<open>append\<close> is a named reference, so nothing is moved out of the node).
\<close>

definition encode_node :: "u64 \<Rightarrow> int \<Rightarrow> int \<Rightarrow> ('d pool, node_id) proc" where
  "encode_node now root next_node =
     bindP (getP (\<lambda>p. tn_next (node_at p next_node))) (\<lambda>nxt.
     bindP (getP (\<lambda>p. tn_expired (node_at p next_node))) (\<lambda>ex.
     bindP (if ex = - 1 then onNode next_node (EndTrace_node now) else returnP ()) (\<lambda>_.
     bindP (\<lambda>p. onNode root (AppendAnnotation ''event'' (tn_value (node_at p next_node))) p) (\<lambda>_.
     returnP nxt))))"

text \<open>
  The loop.  The chain of nodes may in principle be cyclic, and then the loop never ends, which is
  \<open>None\<close>.  \<open>clk\<close> gives the clock reading of each round.
\<close>

partial_function (option) encode_loop ::
  "(nat \<Rightarrow> u64) \<Rightarrow> nat \<Rightarrow> int \<Rightarrow> node_id \<Rightarrow> 'd pool \<Rightarrow> ((cpp_exn + unit) \<times> 'd pool) option" where
  "encode_loop clk k root nxt p =
     (if nxt = E_INVALID_NODE then Some (Inr (), p)
      else
        (case withNode nxt (encode_node (clk k) root) p of
           (Inl e, p') \<Rightarrow> Some (Inl e, p')
         | (Inr nxt', p') \<Rightarrow> encode_loop clk (Suc k) root nxt' p'))"

definition EncodeTraceToJsonSpan ::
  "(nat \<Rightarrow> u64) \<Rightarrow> int \<Rightarrow> 'd pool \<Rightarrow> ((cpp_exn + 'd jvalue) \<times> 'd pool) option" where
  "EncodeTraceToJsonSpan clk root p =
     (if \<not> IsRootNode (node_at p root) then Some (Inr (tn_value (node_at p root)), p)
      else
        (case encode_loop clk 0 root (tn_next (node_at p root)) p of
           None \<Rightarrow> None
         | Some (Inl e, p') \<Rightarrow> Some (Inl e, p')
         | Some (Inr _, p') \<Rightarrow>
             (let p'' = upd_node root (\<lambda>n. snd (runUserOptionFunc n)) p'
              in Some (Inr (tn_value (node_at p'' root)), p''))))"

section \<open>Status\<close>

definition totalNodesCount :: "'d pool \<Rightarrow> u32" where
  "totalNodesCount p = word_of_nat (length (nodeIndexVec p)) * word_of_nat CELL_SIZE"

definition freeNodesCount :: "'d pool \<Rightarrow> u32" where
  "freeNodesCount p = word_of_nat (length (freeNodeList p))"

definition NoNodesLeak :: "'d pool \<Rightarrow> bool" where
  "NoNodesLeak p \<longleftrightarrow> freeNodesCount p = totalNodesCount p"

text \<open>The ids \<^verbatim>\<open>foreachAliveNode\<close> visits.\<close>

definition foreachAliveNode :: "(int \<Rightarrow> 's \<Rightarrow> 's) \<Rightarrow> 'd pool \<Rightarrow> 's \<Rightarrow> 's" where
  "foreachAliveNode func p s = fold func (filter (\<lambda>i. indexInUsedVec i p) [0..maxId p - 1]) s"

definition Status_value :: "string \<Rightarrow> 'd pool \<Rightarrow> 'd jvalue" where
  "Status_value version p =
     (let s = snd (set_key ''pool_total_node'' (UIntValue (ucast (totalNodesCount p))) NullValue);
          s = snd (set_key ''pool_free_node'' (UIntValue (ucast (freeNodesCount p))) s);
          s = snd (set_key ''common_library_version'' (StringValue version) s)
      in foreachAliveNode (\<lambda>i s. snd (append_key ''pool_alive_nodes'' (IntValue (word_of_int (tn_id (node_at p i)))) s)) p s)"

end
