(* ===== verification/Pool_Invariant.thy ===== *)
theory Pool_Invariant
  imports Node_Pool
begin

text \<open>
  The invariant of the node pool: the flags, the free stack and the cells agree, and the nodes in
  use are partitioned into traces, each a root followed by the chain of its events.  Every pool
  operation keeps it.
\<close>

section \<open>The arrays\<close>

definition pool_shape :: "'d pool \<Rightarrow> bool" where
  "pool_shape p \<longleftrightarrow> 0 \<le> maxId p \<and> length (nodeIndexVec p) * CELL_SIZE = nat (maxId p) \<and>
     (\<forall>c \<in> set (nodeIndexVec p). length c = CELL_SIZE) \<and>
     length (usedNodeSet p) = nat (maxId p) \<and> readyNodeSet p = replicate CELL_SIZE False \<and>
     distinct (freeNodeList p) \<and> set (freeNodeList p) = {i. 0 \<le> i \<and> i < maxId p \<and> \<not> usedNodeSet p ! nat i}"

definition in_range :: "int \<Rightarrow> 'd pool \<Rightarrow> bool" where
  "in_range i p \<longleftrightarrow> 0 \<le> i \<and> i < maxId p"

lemma cell_bounds:
  assumes "pool_shape p" and "in_range i p"
  shows "nat i div CELL_SIZE < length (nodeIndexVec p)"
    and "length (nodeIndexVec p ! (nat i div CELL_SIZE)) = CELL_SIZE"
proof -
  have "nat i < length (nodeIndexVec p) * CELL_SIZE" using assms by (auto simp: pool_shape_def in_range_def)
  then show "nat i div CELL_SIZE < length (nodeIndexVec p)" by (simp add: less_mult_imp_div_less)
  then show "length (nodeIndexVec p ! (nat i div CELL_SIZE)) = CELL_SIZE"
    using assms(1) by (auto simp: pool_shape_def)
qed

lemma upd_node_fields [simp]:
  "usedNodeSet (upd_node i f p) = usedNodeSet p" "readyNodeSet (upd_node i f p) = readyNodeSet p"
  "maxId (upd_node i f p) = maxId p" "freeNodeList (upd_node i f p) = freeNodeList p"
  "in_range j (upd_node i f p) = in_range j p" "indexInUsedVec j (upd_node i f p) = indexInUsedVec j p"
  by (simp_all add: upd_node_def Let_def in_range_def indexInUsedVec_def)

lemma upd_node_shape [simp]: "pool_shape p \<Longrightarrow> pool_shape (upd_node i f p)"
proof -
  assume s: "pool_shape p"
  have "\<forall>c \<in> set (nodeIndexVec (upd_node i f p)). length c = CELL_SIZE"
  proof (cases "nat i div CELL_SIZE < length (nodeIndexVec p)")
    case True
    then have "length (nodeIndexVec p ! (nat i div CELL_SIZE)) = CELL_SIZE"
      using s by (auto simp: pool_shape_def)
    then show ?thesis
      using s by (auto simp: pool_shape_def upd_node_def Let_def dest!: set_update_subset_insert [THEN subsetD])
  next
    case False
    then show ?thesis using s by (simp add: pool_shape_def upd_node_def Let_def list_update_beyond not_less)
  qed
  with s show ?thesis by (simp add: pool_shape_def upd_node_def Let_def)
qed

lemma node_at_upd:
  assumes "pool_shape p" and "in_range i p" and "0 \<le> j"
  shows "node_at (upd_node i f p) j = (if j = i then f (node_at p i) else node_at p j)"
proof (cases "j = i")
  case True
  then show ?thesis using cell_bounds [OF assms(1,2)] by (simp add: node_at_def upd_node_def Let_def)
next
  case False
  then have "nat j \<noteq> nat i" using assms(2,3) by (auto simp: in_range_def)
  then have "nat j div CELL_SIZE \<noteq> nat i div CELL_SIZE \<or> nat j mod CELL_SIZE \<noteq> nat i mod CELL_SIZE"
    by (metis div_mult_mod_eq)
  then show ?thesis
    using False cell_bounds [OF assms(1,2)]
    by (cases "nat j div CELL_SIZE = nat i div CELL_SIZE") (auto simp: node_at_def upd_node_def Let_def)
qed

lemma upd_node_at_same [simp]:
  "pool_shape p \<Longrightarrow> in_range i p \<Longrightarrow> node_at (upd_node i f p) i = f (node_at p i)"
  by (simp add: node_at_upd in_range_def)

text \<open>Two pools are equal when their arrays agree.\<close>

lemma cells_eqI:
  assumes "pool_shape p" and "pool_shape q" and "maxId p = maxId q"
    and "\<And>i. in_range i p \<Longrightarrow> node_at p i = node_at q i"
  shows "nodeIndexVec p = nodeIndexVec q"
proof (rule nth_equalityI)
  show len: "length (nodeIndexVec p) = length (nodeIndexVec q)"
    using assms(1-3) by (auto simp: pool_shape_def)
  fix c
  assume c: "c < length (nodeIndexVec p)"
  then have l: "length (nodeIndexVec p ! c) = CELL_SIZE" "length (nodeIndexVec q ! c) = CELL_SIZE"
    using assms(1,2) len by (auto simp: pool_shape_def)
  show "nodeIndexVec p ! c = nodeIndexVec q ! c"
  proof (rule nth_equalityI)
    fix k
    assume "k < length (nodeIndexVec p ! c)"
    then have k: "k < CELL_SIZE" using l by simp
    have "Suc c * CELL_SIZE \<le> length (nodeIndexVec p) * CELL_SIZE"
      using c by (intro mult_le_mono1) simp
    then have "c * CELL_SIZE + k < length (nodeIndexVec p) * CELL_SIZE" using k by simp
    then have "in_range (int (c * CELL_SIZE + k)) p"
      using assms(1) by (auto simp: pool_shape_def in_range_def)
    from assms(4) [OF this] show "nodeIndexVec p ! c ! k = nodeIndexVec q ! c ! k"
      using k unfolding node_at_def nat_int by simp
  qed (use l in simp)
qed

section \<open>Traces\<close>

abbreviation alive :: "'d pool \<Rightarrow> node_id \<Rightarrow> bool" where
  "alive p x \<equiv> indexInUsedVec (x - 1) p"

abbreviation nd :: "'d pool \<Rightarrow> node_id \<Rightarrow> 'd trace_node" where
  "nd p x \<equiv> node_at p (x - 1)"

lemma alive_in_range: "alive p x \<Longrightarrow> in_range (x - 1) p"
  by (auto simp: indexInUsedVec_def in_range_def split: if_splits)

lemma alive_pos: "alive p x \<Longrightarrow> 0 < x"
  by (auto simp: indexInUsedVec_def split: if_splits)

fun links :: "'d pool \<Rightarrow> node_id list \<Rightarrow> bool" where
  "links p [] = True"
| "links p [x] = (tn_next (nd p x) = E_INVALID_NODE)"
| "links p (x # y # zs) = (tn_next (nd p x) = y \<and> links p (y # zs))"

text \<open>
  The trace with root \<open>r\<close> and events \<open>es\<close>, in the order they were started: the root knows the last
  event and how many there are, event \<open>j\<close> has sequence number \<open>j\<close> and was started under the root or an
  earlier event, one level deeper.
\<close>

definition event_ok :: "'d pool \<Rightarrow> node_id \<Rightarrow> node_id list \<Rightarrow> nat \<Rightarrow> bool" where
  "event_ok p r es j \<longleftrightarrow> tn_extra (nd p (es ! j)) = None \<and> tn_sequence (nd p (es ! j)) = int j \<and>
     tn_parent_id (nd p (es ! j)) \<in> set (r # take j es) \<and>
     tn_depth (nd p (es ! j)) = tn_depth (nd p (tn_parent_id (nd p (es ! j)))) + 1"

definition root_ok :: "'d pool \<Rightarrow> node_id \<Rightarrow> node_id list \<Rightarrow> bool" where
  "root_ok p r es \<longleftrightarrow> tn_parent_id (nd p r) = r \<and> tn_depth (nd p r) = 0 \<and>
     (\<exists>x. tn_extra (nd p r) = Some x \<and> re_last x = (if es = [] then E_INVALID_NODE else last es) \<and>
          re_sequence x = int (length es))"

definition trace_of :: "'d pool \<Rightarrow> node_id \<Rightarrow> node_id list \<Rightarrow> bool" where
  "trace_of p r es \<longleftrightarrow> distinct (r # es) \<and>
     (\<forall>x \<in> set (r # es). alive p x \<and> tn_id (nd p x) = x \<and> tn_root_id (nd p x) = r) \<and>
     links p (r # es) \<and> root_ok p r es \<and> (\<forall>j < length es. event_ok p r es j)"

definition pool_inv :: "'d pool \<Rightarrow> bool" where
  "pool_inv p \<longleftrightarrow> pool_shape p \<and> maxId p \<le> POOL_MAX_NODES_LIMIT + int CELL_SIZE \<and>
     (\<forall>x. alive p x \<longrightarrow> (\<exists>r es. trace_of p r es \<and> x \<in> set (r # es))) \<and>
     (\<forall>i. in_range i p \<longrightarrow> node_ok (node_at p i))"

text \<open>No reference is held: the state between two calls.\<close>

definition quiet :: "'d pool \<Rightarrow> bool" where
  "quiet p \<longleftrightarrow> (\<forall>x. alive p x \<longrightarrow> tn_refs (nd p x) = 0)"

lemma links_cong:
  assumes "\<And>x. x \<in> set xs \<Longrightarrow> tn_next (nd p' x) = tn_next (nd p x)"
  shows "links p' xs = links p xs"
  using assms by (induction p xs rule: links.induct) auto

lemma place_fields:
  assumes "place n' = place n"
  shows "tn_extra n' = None \<longleftrightarrow> tn_extra n = None" "tn_root_id n' = tn_root_id n" "tn_parent_id n' = tn_parent_id n"
    "tn_id n' = tn_id n" "tn_next n' = tn_next n" "tn_depth n' = tn_depth n" "tn_sequence n' = tn_sequence n"
    and "tn_extra n = Some x \<Longrightarrow> \<exists>x'. tn_extra n' = Some x' \<and> re_last x' = re_last x \<and> re_sequence x' = re_sequence x"
  using assms by (auto simp: place_def map_option_case split: option.splits)

lemma trace_of_mono:
  assumes "trace_of p r es"
    and "\<And>x. x \<in> set (r # es) \<Longrightarrow> alive p' x \<and> place (nd p' x) = place (nd p x)"
  shows "trace_of p' r es"
proof -
  have pl: "place (nd p' x) = place (nd p x)" if "x \<in> set (r # es)" for x
    using assms(2) that by blast
  have "event_ok p' r es j" if j: "j < length es" for j
  proof -
    have "event_ok p r es j" using assms(1) j by (simp add: trace_of_def)
    moreover have "es ! j \<in> set (r # es)" using j by simp
    moreover have "tn_parent_id (nd p (es ! j)) \<in> set (r # es)"
      using calculation(1) by (auto simp: event_ok_def dest: in_set_takeD)
    ultimately show ?thesis
      using place_fields [OF pl] by (simp add: event_ok_def)
  qed
  moreover have "links p' (r # es)"
    using links_cong [of "r # es" p' p] place_fields(5) [OF pl] assms(1) by (auto simp: trace_of_def)
  moreover have "root_ok p' r es"
  proof -
    obtain x where "tn_extra (nd p r) = Some x" "re_last x = (if es = [] then E_INVALID_NODE else last es)"
      "re_sequence x = int (length es)" using assms(1) by (auto simp: trace_of_def root_ok_def)
    then show ?thesis using assms(1) place_fields [OF pl, of r] by (fastforce simp: trace_of_def root_ok_def)
  qed
  ultimately show ?thesis
    using assms place_fields [OF pl] by (auto simp: trace_of_def)
qed

text \<open>Two traces with a node in common are the same trace.\<close>

lemma links_unique:
  assumes "links p (x # xs)" and "links p (x # ys)" and "\<forall>y \<in> set xs \<union> set ys. y \<noteq> E_INVALID_NODE"
  shows "xs = ys"
  using assms
proof (induction xs arbitrary: x ys)
  case Nil
  then show ?case by (cases ys) auto
next
  case (Cons a xs)
  then obtain ys' where ys: "ys = a # ys'" by (cases ys) auto
  with Cons show ?case by auto
qed

lemma trace_of_unique:
  assumes "trace_of p r es" and "trace_of p r' es'" and "x \<in> set (r # es)" and "x \<in> set (r' # es')"
  shows "r' = r \<and> es' = es"
proof -
  have "r' = r" using assms by (auto simp: trace_of_def)
  moreover have "\<forall>y \<in> set es \<union> set es'. y \<noteq> E_INVALID_NODE"
    using assms(1,2) alive_pos [of E_INVALID_NODE p] by (auto simp: trace_of_def)
  ultimately show ?thesis using assms(1,2) links_unique [of p r es es'] by (auto simp: trace_of_def)
qed

section \<open>Operations that leave the traces alone\<close>

definition frame :: "'d pool \<Rightarrow> 'd pool \<Rightarrow> bool" where
  "frame p p' \<longleftrightarrow> pool_shape p' \<and> usedNodeSet p' = usedNodeSet p \<and> maxId p' = maxId p \<and>
     freeNodeList p' = freeNodeList p \<and>
     (\<forall>i. in_range i p \<longrightarrow> skel (node_at p' i) = skel (node_at p i) \<and>
        (node_ok (node_at p i) \<longrightarrow> node_ok (node_at p' i)))"

lemma frame_refl: "pool_shape p \<Longrightarrow> frame p p"
  by (simp add: frame_def)

lemma frame_range: "frame p p' \<Longrightarrow> in_range i p' = in_range i p"
  by (simp add: frame_def in_range_def)

lemma frame_alive: "frame p p' \<Longrightarrow> indexInUsedVec i p' = indexInUsedVec i p"
  by (simp add: frame_def indexInUsedVec_def)

lemma frame_shape: "frame p p' \<Longrightarrow> pool_shape p'"
  by (simp add: frame_def)

lemma frame_trans: "frame p q \<Longrightarrow> frame q r \<Longrightarrow> frame p r"
  by (simp add: frame_def in_range_def)

lemma frame_node:
  assumes "frame p p'" and "in_range i p"
  shows "place (node_at p' i) = place (node_at p i)" and "tn_refs (node_at p' i) = tn_refs (node_at p i)"
    and "node_ok (node_at p i) \<Longrightarrow> node_ok (node_at p' i)"
  using assms by (auto simp: frame_def skel_def)

lemma frame_upd:
  assumes "pool_shape p" and "in_range i p" and "skel (f (node_at p i)) = skel (node_at p i)"
    and "node_ok (node_at p i) \<Longrightarrow> node_ok (f (node_at p i))"
  shows "frame p (upd_node i f p)"
  using assms by (auto simp: frame_def node_at_upd in_range_def)

lemma frame_onNode:
  assumes "pool_shape p" and "in_range i p" and "skel (snd (m (node_at p i))) = skel (node_at p i)"
    and "node_ok (node_at p i) \<Longrightarrow> node_ok (snd (m (node_at p i)))"
  shows "frame p (snd (onNode i m p))"
proof -
  have "snd (onNode i m p) = upd_node i (\<lambda>_. snd (m (node_at p i))) p"
    by (simp add: onNode_def split: prod.splits)
  then show ?thesis using assms by (simp add: frame_upd)
qed

lemma getUsedNode_cases:
  "getUsedNode x p = (if alive p x then (Inr (x - 1), p) else (Inl Out_of_range, p))"
  by (auto simp: getUsedNode_def indexInUsedVec_def)

lemma withNode_dead: "\<not> alive p x \<Longrightarrow> withNode x body p = (Inl Out_of_range, p)"
  by (simp add: withNode_def bindP_def getUsedNode_cases)

lemma withNode_alive:
  assumes "alive p x"
  shows "withNode x body p =
    (let (r, p') = body (x - 1) (upd_node (x - 1) addReference p) in (r, upd_node (x - 1) decReference p'))"
  using assms by (simp add: withNode_def bindP_def getUsedNode_cases finallyP_def)

lemma place_refs [simp]: "place (addReference n) = place n" "place (decReference n) = place n"
  "node_ok (addReference n) = node_ok n" "node_ok (decReference n) = node_ok n"
  "tn_refs (addReference n) = tn_refs n + 1" "tn_refs (decReference n) = tn_refs n - 1"
  by (simp_all add: place_def addReference_def decReference_def node_ok_def)

text \<open>The scope of a wrapper: what is a frame for the body is one for the whole.\<close>

lemma frame_scope:
  assumes p: "pool_shape p" and i: "in_range i p" and f: "frame (upd_node i addReference p) q'"
  shows "frame p (upd_node i decReference q')"
proof -
  define q where "q = upd_node i addReference p"
  have q: "pool_shape q" "usedNodeSet q = usedNodeSet p" "maxId q = maxId p" "freeNodeList q = freeNodeList p"
    using p by (simp_all add: q_def)
  note f = f [folded q_def]
  have iq: "in_range i q'" using i frame_range [OF f, of i] unfolding q_def by simp
  show ?thesis
    unfolding frame_def
  proof (intro conjI allI impI)
    fix j
    assume j: "in_range j p"
    then have jq: "in_range j q" "0 \<le> j" by (auto simp: q_def in_range_def)
    note fn = frame_node [OF f jq(1)]
    show "skel (node_at (upd_node i decReference q') j) = skel (node_at p j)"
      using fn iq jq(2) i p f
      by (cases "j = i") (simp_all add: node_at_upd frame_shape [OF f] q_def skel_def)
    assume "node_ok (node_at p j)"
    then have "node_ok (node_at q j)" using p i jq(2) by (cases "j = i") (simp_all add: q_def node_at_upd)
    then show "node_ok (node_at (upd_node i decReference q') j)"
      using fn(3) iq jq(2) by (cases "j = i") (simp_all add: node_at_upd frame_shape [OF f])
  qed (use f q in \<open>simp_all add: frame_def\<close>)
qed

lemma frame_withNode:
  assumes p: "pool_shape p"
    and body: "\<And>q. alive p x \<Longrightarrow> pool_shape q \<Longrightarrow> usedNodeSet q = usedNodeSet p \<Longrightarrow> maxId q = maxId p \<Longrightarrow>
                 frame q (snd (body (x - 1) q))"
  shows "frame p (snd (withNode x body p))"
proof (cases "alive p x")
  case True
  have "frame (upd_node (x - 1) addReference p) (snd (body (x - 1) (upd_node (x - 1) addReference p)))"
    using p by (intro body True) simp_all
  from frame_scope [OF p alive_in_range [OF True] this] show ?thesis
    using True by (simp add: withNode_alive split_beta)
next
  case False
  then show ?thesis using p by (simp add: withNode_dead frame_refl)
qed

lemma frame_bindP:
  assumes "frame p (snd (m p))" and "\<And>x q. m p = (Inr x, q) \<Longrightarrow> frame q (snd (f x q))"
  shows "frame p (snd (bindP m f p))"
  using assms by (auto simp: bindP_def split: prod.splits sum.splits intro: frame_trans)

lemma frame_quiet: "frame p p' \<Longrightarrow> quiet p \<Longrightarrow> quiet p'"
  unfolding quiet_def by (simp add: frame_alive frame_node(2) [OF _ alive_in_range])

lemma frame_trace: "frame p p' \<Longrightarrow> trace_of p r es \<Longrightarrow> trace_of p' r es"
proof -
  assume f: "frame p p'" and t: "trace_of p r es"
  have "alive p' x \<and> place (nd p' x) = place (nd p x)" if "x \<in> set (r # es)" for x
  proof -
    have "alive p x" using t that by (auto simp: trace_of_def)
    then show ?thesis using f by (simp add: frame_alive frame_node(1) alive_in_range)
  qed
  with t show ?thesis by (rule trace_of_mono)
qed

lemma frame_inv:
  assumes "frame p p'" and "pool_inv p"
  shows "pool_inv p'"
  using assms frame_trace [OF assms(1)] frame_node(3) [OF assms(1)]
  unfolding pool_inv_def frame_alive [OF assms(1)] frame_range [OF assms(1)]
  by (auto simp: frame_def) (metis frame_def)+

section \<open>Taking a node\<close>

definition nodes_ok :: "'d pool \<Rightarrow> bool" where
  "nodes_ok p \<longleftrightarrow> (\<forall>i. in_range i p \<longrightarrow> node_ok (node_at p i))"

lemma expandOnce_node_at:
  assumes "pool_shape p"
  shows "in_range i p \<Longrightarrow> node_at (expandOnce p) i = node_at p i"
    and "maxId p \<le> i \<Longrightarrow> i < maxId p + int CELL_SIZE \<Longrightarrow> node_at (expandOnce p) i = new_TraceNode"
proof -
  show "node_at (expandOnce p) i = node_at p i" if "in_range i p"
    using cell_bounds(1) [OF assms that] by (simp add: node_at_def expandOnce_def nth_append)
  assume i: "maxId p \<le> i" "i < maxId p + int CELL_SIZE"
  have len: "length (nodeIndexVec p) * CELL_SIZE = nat (maxId p)" "0 \<le> maxId p"
    using assms by (auto simp: pool_shape_def)
  have "length (nodeIndexVec p) * CELL_SIZE \<le> nat i" "nat i < Suc (length (nodeIndexVec p)) * CELL_SIZE"
    using i len by auto
  then have "nat i div CELL_SIZE = length (nodeIndexVec p)"
    by (metis div_nat_eqI mult.commute)
  then show "node_at (expandOnce p) i = new_TraceNode"
    by (simp add: node_at_def expandOnce_def)
qed

lemma expandOnce_maxId [simp]: "maxId (expandOnce p) = maxId p + int CELL_SIZE"
  by (simp add: expandOnce_def)

lemma expandOnce_used:
  assumes "pool_shape p"
  shows "indexInUsedVec i (expandOnce p) = indexInUsedVec i p"
  using assms by (auto simp: pool_shape_def indexInUsedVec_def expandOnce_def nth_append)

lemma expandOnce_shape:
  assumes "pool_shape p"
  shows "pool_shape (expandOnce p)"
proof -
  have used: "usedNodeSet (expandOnce p) = usedNodeSet p @ replicate CELL_SIZE False"
    using assms by (simp add: pool_shape_def expandOnce_def)
  have len: "length (usedNodeSet p) = nat (maxId p)" "0 \<le> maxId p" using assms by (auto simp: pool_shape_def)
  have "set (freeNodeList (expandOnce p)) =
          {i. 0 \<le> i \<and> i < maxId p + int CELL_SIZE \<and> \<not> usedNodeSet (expandOnce p) ! nat i}" (is "?L = ?R")
  proof (rule set_eqI)
    fix i
    have "usedNodeSet (expandOnce p) ! nat i = (i < maxId p \<and> usedNodeSet p ! nat i)"
      if "0 \<le> i" "i < maxId p + int CELL_SIZE"
      using that len by (auto simp: used nth_append nth_replicate)
    then show "i \<in> ?L \<longleftrightarrow> i \<in> ?R"
      using assms by (auto simp: expandOnce_def pool_shape_def)
  qed
  moreover have "distinct (freeNodeList (expandOnce p))"
    using assms by (auto simp: expandOnce_def pool_shape_def)
  ultimately show ?thesis
    using assms unfolding pool_shape_def by (simp add: expandOnce_def nat_add_distrib)
qed

lemma expandOnce_nodes_ok:
  assumes "pool_shape p" and "nodes_ok p"
  shows "nodes_ok (expandOnce p)"
proof -
  have "node_ok (node_at (expandOnce p) i)" if "in_range i (expandOnce p)" for i
  proof (cases "i < maxId p")
    case True
    then have "in_range i p" using that by (simp add: in_range_def)
    then show ?thesis using assms by (simp add: expandOnce_node_at nodes_ok_def)
  next
    case False
    then show ?thesis
      using that expandOnce_node_at(2) [OF assms(1), of i] by (simp add: in_range_def new_TraceNode_ok)
  qed
  then show ?thesis by (simp add: nodes_ok_def)
qed

text \<open>What the caller of \<^verbatim>\<open>GetNode\<close> gets: a node that was not in use, reset, and nothing else changed.\<close>

definition fresh :: "'d pool \<Rightarrow> int \<Rightarrow> 'd pool \<Rightarrow> bool" where
  "fresh p i p' \<longleftrightarrow> pool_shape p' \<and> nodes_ok p' \<and> in_range i p' \<and> \<not> indexInUsedVec i p \<and> indexInUsedVec i p' \<and>
     (\<forall>j. j \<noteq> i \<longrightarrow> indexInUsedVec j p' = indexInUsedVec j p) \<and>
     (\<forall>j. in_range j p \<longrightarrow> j \<noteq> i \<longrightarrow> node_at p' j = node_at p j) \<and>
     (\<exists>n. node_at p' i = Reset (i + 1) n) \<and> maxId p \<le> maxId p'"

lemma take_free:
  assumes "pool_shape p" and "nodes_ok p" and "freeNodeList p = i # fs"
  defines "p' \<equiv> upd_node i (Reset (i + 1)) (p\<lparr>freeNodeList := fs, usedNodeSet := (usedNodeSet p)[nat i := True]\<rparr>)"
  shows "fresh p i p' \<and> maxId p' = maxId p"
proof -
  let ?q = "p\<lparr>freeNodeList := fs, usedNodeSet := (usedNodeSet p)[nat i := True]\<rparr>"
  have i: "in_range i p" "\<not> usedNodeSet p ! nat i" "i \<notin> set fs"
    using assms(1,3) by (auto simp: pool_shape_def in_range_def)
  have len: "length (usedNodeSet p) = nat (maxId p)" using assms(1) by (simp add: pool_shape_def)
  have fs: "set fs = {j. 0 \<le> j \<and> j < maxId p \<and> \<not> usedNodeSet p ! nat j} - {i}"
    using assms(1,3) by (auto simp: pool_shape_def)
  have "set fs = {j. 0 \<le> j \<and> j < maxId p \<and> \<not> (usedNodeSet p)[nat i := True] ! nat j}"
    unfolding fs using i(1) len by (auto simp: in_range_def nth_list_update)
  then have sh: "pool_shape ?q"
    using assms(1,3) by (auto simp: pool_shape_def)
  have at: "node_at p' j = (if j = i then Reset (i + 1) (node_at p i) else node_at p j)" if "0 \<le> j" for j
    using that i(1) sh node_at_upd [of ?q i j] by (simp add: p'_def in_range_def node_at_def)
  have "nodes_ok p'"
    using assms(2) i(1) at by (auto simp: nodes_ok_def p'_def in_range_def intro: Reset_ok)
  moreover have "indexInUsedVec i p'" "\<not> indexInUsedVec i p" 
    using i len by (auto simp: p'_def indexInUsedVec_def in_range_def)
  moreover have "indexInUsedVec j p' = indexInUsedVec j p" if "j \<noteq> i" for j
    using that i(1) len by (auto simp: p'_def indexInUsedVec_def in_range_def nth_list_update)
  ultimately show ?thesis
    using sh i(1) at by (auto simp: fresh_def p'_def in_range_def)
qed

lemma getReadyNode_spec:
  assumes "pool_shape p" and "nodes_ok p" and "maxId p \<le> POOL_MAX_NODES_LIMIT + int CELL_SIZE"
    and "getReadyNode p = (r, p')"
  shows "(r = Inl Out_of_range \<and> p' = p \<and> freeNodeList p = [] \<and> POOL_MAX_NODES_LIMIT < maxId p) \<or>
         (\<exists>i. r = Inr i \<and> fresh p i p' \<and> maxId p' \<le> POOL_MAX_NODES_LIMIT + int CELL_SIZE)"
proof (cases "freeNodeList p")
  case (Cons i fs)
  then show ?thesis
    using assms take_free [OF assms(1,2) Cons] by (auto simp: getReadyNode_def)
next
  case Nil
  let ?q = "expandOnce p"
  note q = expandOnce_shape [OF assms(1)] expandOnce_nodes_ok [OF assms(1,2)]
  show ?thesis
  proof (cases "POOL_MAX_NODES_LIMIT < maxId p")
    case True
    then show ?thesis using Nil assms(4) by (simp add: getReadyNode_def)
  next
    case False
    have "freeNodeList ?q \<noteq> []" using Nil by (simp add: expandOnce_def)
    then obtain i fs where fs: "freeNodeList ?q = i # fs" by (cases "freeNodeList ?q") auto
    define q' where "q' = upd_node i (Reset (i + 1)) (?q\<lparr>freeNodeList := fs, usedNodeSet := (usedNodeSet ?q)[nat i := True]\<rparr>)"
    have f: "fresh ?q i q'" "maxId q' = maxId ?q" using take_free [OF q fs] by (simp_all add: q'_def)
    have "in_range j ?q" "node_at ?q j = node_at p j" if "in_range j p" for j
      using that assms(1) by (auto simp: expandOnce_node_at) (auto simp: in_range_def expandOnce_def)
    then have "fresh p i q'"
      using f(1) expandOnce_used [OF assms(1)] by (auto simp: fresh_def)
    moreover have "r = Inr i" "p' = q'"
      using assms(4) Nil False fs by (auto simp: getReadyNode_def q'_def Let_def)
    ultimately show ?thesis using f(2) False by (simp add: expandOnce_def)
  qed
qed

section \<open>Returning a trace\<close>

definition give_back :: "node_id \<Rightarrow> 'd pool \<Rightarrow> 'd pool" where
  "give_back x p = p\<lparr>usedNodeSet := (usedNodeSet p)[nat (x - 1) := False], freeNodeList := (x - 1) # freeNodeList p\<rparr>"

text \<open>A node nobody refers to is given back at the first try.\<close>

lemma ReturnNode_unreferenced:
  assumes "alive p x" and "tn_refs (nd p x) = 0"
  shows "ReturnNode x p = (tn_next (nd p x), give_back x p)"
proof -
  have "return_tries k x p = (tn_next (nd p x), give_back x p)" for k
    using assms by (cases k) (auto simp: returnNode_def Let_def IsNotReference_def give_back_def)
  then show ?thesis by (simp add: ReturnNode_def)
qed

lemma give_back_shape:
  assumes "pool_shape p" and "alive p x"
  shows "pool_shape (give_back x p)"
    and "indexInUsedVec j (give_back x p) = (indexInUsedVec j p \<and> j \<noteq> x - 1)"
    and "node_at (give_back x p) j = node_at p j" and "in_range j (give_back x p) = in_range j p"
proof -
  have x: "0 \<le> x - 1" "x - 1 < maxId p" "usedNodeSet p ! nat (x - 1)"
    using assms(2) by (auto simp: indexInUsedVec_def split: if_splits)
  have len: "length (usedNodeSet p) = nat (maxId p)" using assms(1) by (simp add: pool_shape_def)
  have free: "set (freeNodeList p) = {i. 0 \<le> i \<and> i < maxId p \<and> \<not> usedNodeSet p ! nat i}"
    using assms(1) by (simp add: pool_shape_def)
  have "insert (x - 1) (set (freeNodeList p)) =
      {i. 0 \<le> i \<and> i < maxId p \<and> \<not> (usedNodeSet p)[nat (x - 1) := False] ! nat i}"
    unfolding free using x len by (auto simp: nth_list_update)
  moreover have "x - 1 \<notin> set (freeNodeList p)" unfolding free using x by simp
  ultimately show "pool_shape (give_back x p)"
    using assms(1) by (simp add: pool_shape_def give_back_def)
  show "indexInUsedVec j (give_back x p) = (indexInUsedVec j p \<and> j \<noteq> x - 1)"
    using x len by (auto simp: indexInUsedVec_def give_back_def nth_list_update)
qed (auto simp: give_back_def node_at_def in_range_def)

lemma free_from_chain:
  assumes "pool_shape p" and "links p (x # xs)" and "distinct (x # xs)"
    and "\<forall>y \<in> set (x # xs). alive p y \<and> tn_refs (nd p y) = 0"
  shows "pool_shape (free_from x p) \<and> maxId (free_from x p) = maxId p \<and>
         (\<forall>j. indexInUsedVec j (free_from x p) = (indexInUsedVec j p \<and> j + 1 \<notin> set (x # xs)) \<and>
              node_at (free_from x p) j = node_at p j)"
  using assms
proof (induction xs arbitrary: x p)
  case Nil
  have e: "free_from x p = give_back x p"
    using Nil ReturnNode_unreferenced [of x p] by (simp add: free_from.simps [of x p])
  show ?case using give_back_shape [OF Nil(1), of x] Nil by (auto simp: e give_back_def)
next
  case (Cons a xs)
  have al: "alive p x" "alive p a" using Cons.prems by auto
  have "a \<noteq> E_INVALID_NODE" using alive_pos [OF al(2)] by simp
  then have e: "free_from x p = free_from a (give_back x p)"
    using Cons.prems ReturnNode_unreferenced [of x p] by (simp add: free_from.simps [of x p])
  note g = give_back_shape [OF Cons.prems(1) al(1)]
  have "links (give_back x p) (a # xs)"
    using Cons.prems(2) links_cong [of "a # xs" "give_back x p" p] by (simp add: g(3))
  then have ih: "pool_shape (give_back x p)" "links (give_back x p) (a # xs)" "distinct (a # xs)"
    "\<forall>y \<in> set (a # xs). alive (give_back x p) y \<and> tn_refs (nd (give_back x p) y) = 0"
    using Cons.prems g by (auto simp: g(2,3))
  have "maxId (give_back x p) = maxId p" by (simp add: give_back_def)
  then show ?case using Cons.IH [OF ih] g(2,3) by (auto simp: e)
qed

lemma FreeNodeTree_trace:
  assumes "pool_inv p" and "quiet p" and "trace_of p r es"
  shows "pool_inv (FreeNodeTree r p)" and "quiet (FreeNodeTree r p)"
    and "\<And>x. alive (FreeNodeTree r p) x = (alive p x \<and> x \<notin> set (r # es))"
    and "\<And>r' es'. r' \<noteq> r \<Longrightarrow> trace_of p r' es' \<Longrightarrow> trace_of (FreeNodeTree r p) r' es'"
    and "maxId (FreeNodeTree r p) = maxId p"
proof -
  have r: "alive p r" "\<forall>y \<in> set (r # es). alive p y \<and> tn_refs (nd p y) = 0"
    using assms(2,3) by (auto simp: trace_of_def quiet_def)
  then have e: "FreeNodeTree r p = free_from r p"
    using alive_pos [of r p] by (simp add: FreeNodeTree_def)
  have ch: "pool_shape p" "links p (r # es)" "distinct (r # es)"
    using assms(1,3) by (auto simp: pool_inv_def trace_of_def)
  have f: "pool_shape (FreeNodeTree r p)"
    "\<And>j. indexInUsedVec j (FreeNodeTree r p) = (indexInUsedVec j p \<and> j + 1 \<notin> set (r # es))"
    "\<And>j. node_at (FreeNodeTree r p) j = node_at p j" "maxId (FreeNodeTree r p) = maxId p"
    using free_from_chain [OF ch r(2), folded e] by blast+
  show al: "alive (FreeNodeTree r p) x = (alive p x \<and> x \<notin> set (r # es))" for x
    using f(2) [of "x - 1"] by simp
  show m: "maxId (FreeNodeTree r p) = maxId p" by (rule f(4))
  show tr: "trace_of (FreeNodeTree r p) r' es'" if "r' \<noteq> r" "trace_of p r' es'" for r' es'
  proof (rule trace_of_mono [OF that(2)])
    fix x
    assume x: "x \<in> set (r' # es')"
    then have "x \<notin> set (r # es)" using trace_of_unique [OF that(2) assms(3) x] that(1) by blast
    moreover have "alive p x" using that(2) x by (auto simp: trace_of_def)
    ultimately show "alive (FreeNodeTree r p) x \<and> place (nd (FreeNodeTree r p) x) = place (nd p x)"
      by (simp add: al f(3))
  qed
  show "quiet (FreeNodeTree r p)" using assms(2) by (simp add: quiet_def al f(3))
  have "\<exists>r' es'. trace_of (FreeNodeTree r p) r' es' \<and> x \<in> set (r' # es')" if "alive (FreeNodeTree r p) x" for x
  proof -
    have x: "alive p x" "x \<notin> set (r # es)" using that al by auto
    then obtain r' es' where t: "trace_of p r' es'" "x \<in> set (r' # es')"
      using assms(1) by (auto simp: pool_inv_def)
    moreover have "r' \<noteq> r" using x t assms(3) trace_of_unique [OF assms(3) t(1), of r] by auto
    ultimately show ?thesis using tr by blast
  qed
  then show "pool_inv (FreeNodeTree r p)"
    using assms(1) f(1,3) m by (simp add: pool_inv_def in_range_def)
qed

section \<open>Appending to a trace\<close>

definition appended :: "int \<Rightarrow> int \<Rightarrow> root_extra \<Rightarrow> 'd pool \<Rightarrow> int \<Rightarrow> 'd trace_node" where
  "appended root i x p j =
     (if j = i then
        (node_at p i)\<lparr>tn_root_id := tn_id (node_at p root), tn_sequence := re_sequence x,
           tn_pre_time := tn_start_time (node_at p (if re_last x = E_INVALID_NODE then root else re_last x - 1))\<rparr>
      else if j = root then
        (node_at p root)\<lparr>tn_extra := Some (x\<lparr>re_last := tn_id (node_at p i), re_sequence := re_sequence x + 1\<rparr>),
           tn_next := (if tn_next (node_at p root) = E_INVALID_NODE then tn_id (node_at p i) else tn_next (node_at p root))\<rparr>
      else if re_last x \<noteq> E_INVALID_NODE \<and> j = re_last x - 1 then
        (node_at p j)\<lparr>tn_next := tn_id (node_at p i)\<rparr>
      else node_at p j)"

lemma AppendToRootTrace_spec:
  assumes p: "pool_shape p" and i: "in_range i p" and root: "in_range root p" and ne: "i \<noteq> root"
    and new: "tn_root_id (node_at p i) = E_INVALID_NODE" and x: "tn_extra (node_at p root) = Some x"
    and lst: "re_last x = E_INVALID_NODE \<or> alive p (re_last x) \<and> re_last x - 1 \<noteq> i \<and> re_last x - 1 \<noteq> root"
  shows "\<exists>q. AppendToRootTrace root i p = (Inr (), q) \<and> pool_shape q \<and> usedNodeSet q = usedNodeSet p \<and>
             maxId q = maxId p \<and> freeNodeList q = freeNodeList p \<and>
             (\<forall>j. in_range j p \<longrightarrow> node_at q j = appended root i x p j)"
proof (cases "re_last x = E_INVALID_NODE")
  case True
  then show ?thesis
    using assms
    by (simp add: AppendToRootTrace_def bindP_def onNode_def GetLastNode_def CreateNewSequence_def SetLastNode_def
        node_at_upd in_range_def appended_def)
next
  case False
  then have al: "alive p (re_last x)" "re_last x - 1 \<noteq> i" "re_last x - 1 \<noteq> root" using lst by auto
  have l: "in_range (re_last x - 1) p" using al by (simp add: alive_in_range)
  show ?thesis
    using assms False al l
    by (simp add: AppendToRootTrace_def bindP_def onNode_def GetLastNode_def CreateNewSequence_def SetLastNode_def
        withNode_alive node_at_upd in_range_def appended_def addReference_def decReference_def)
qed

lemma links_snoc:
  assumes "links p xs" and "xs \<noteq> []" and "\<forall>y \<in> set (butlast xs). tn_next (nd q y) = tn_next (nd p y)"
    and "tn_next (nd q (last xs)) = z" and "tn_next (nd q z) = E_INVALID_NODE"
  shows "links q (xs @ [z])"
  using assms by (induction xs rule: induct_list012) auto

lemma trace_extend:
  assumes t: "trace_of p r es" and z: "z \<notin> set (r # es)" and par: "par \<in> set (r # es)"
    and al: "\<forall>y \<in> set (r # es). alive q y" "alive q z"
    and new: "tn_id (nd q z) = z" "tn_root_id (nd q z) = r" "tn_next (nd q z) = E_INVALID_NODE"
      "tn_extra (nd q z) = None" "tn_sequence (nd q z) = int (length es)" "tn_parent_id (nd q z) = par"
      "tn_depth (nd q z) = tn_depth (nd p par) + 1"
    and old: "\<forall>y \<in> set (r # es). tn_id (nd q y) = tn_id (nd p y) \<and> tn_root_id (nd q y) = tn_root_id (nd p y) \<and>
      tn_parent_id (nd q y) = tn_parent_id (nd p y) \<and> tn_depth (nd q y) = tn_depth (nd p y) \<and>
      tn_sequence (nd q y) = tn_sequence (nd p y)" "\<forall>y \<in> set es. tn_extra (nd q y) = tn_extra (nd p y)"
    and nxt: "\<forall>y \<in> set (butlast (r # es)). tn_next (nd q y) = tn_next (nd p y)" "tn_next (nd q (last (r # es))) = z"
    and rx: "tn_extra (nd q r) = Some x'" "re_last x' = z" "re_sequence x' = int (length es) + 1"
  shows "trace_of q r (es @ [z])"
proof -
  have "links q ((r # es) @ [z])"
    using t nxt new(3) by (intro links_snoc) (auto simp: trace_of_def)
  moreover have "root_ok q r (es @ [z])" using t old rx by (auto simp: trace_of_def root_ok_def)
  moreover have "event_ok q r (es @ [z]) j" if "j < length (es @ [z])" for j
  proof (cases "j < length es")
    case True
    then have e: "event_ok p r es j" and m: "es ! j \<in> set es" using t by (auto simp: trace_of_def)
    then have "tn_parent_id (nd p (es ! j)) \<in> set (r # es)"
      by (auto simp: event_ok_def dest: in_set_takeD)
    then show ?thesis using True e m old by (auto simp: event_ok_def nth_append)
  next
    case False
    then have "j = length es" using that by simp
    then show ?thesis using new par old(1) by (auto simp: event_ok_def nth_append)
  qed
  ultimately show ?thesis
    using t z al new old(1) by (auto simp: trace_of_def)
qed

text \<open>A node that becomes a root is a trace of its own.\<close>

lemma trace_single:
  assumes "alive q r" and "tn_id (nd q r) = r" and "tn_root_id (nd q r) = r" and "tn_parent_id (nd q r) = r"
    and "tn_next (nd q r) = E_INVALID_NODE" and "tn_depth (nd q r) = 0" and "tn_extra (nd q r) = Some RootTraceNodeExtra"
  shows "trace_of q r []"
  using assms by (auto simp: trace_of_def root_ok_def RootTraceNodeExtra_def)

text \<open>The pool the program starts with.\<close>

lemma PoolManager_unused: "\<not> indexInUsedVec i PoolManager"
  by (simp add: PoolManager_def expandOnce_def indexInUsedVec_def)

lemma PoolManager_inv: "pool_inv (PoolManager :: 'd pool)"
proof -
  let ?e = "\<lparr>nodeIndexVec = [], usedNodeSet = [], readyNodeSet = replicate CELL_SIZE False, maxId = 0, freeNodeList = []\<rparr> :: 'd pool"
  have e: "pool_shape ?e" "nodes_ok ?e" by (auto simp: pool_shape_def nodes_ok_def in_range_def)
  have "\<not> indexInUsedVec i (PoolManager :: 'd pool)" for i by (rule PoolManager_unused)
  then show ?thesis
    using expandOnce_shape [OF e(1)] expandOnce_nodes_ok [OF e] by (simp add: PoolManager_def pool_inv_def nodes_ok_def)
qed

end
