(* ===== verification/Version.thy ===== *)
theory Version
  imports PP_Prelude
begin

text \<open>
  The comparison of dotted version strings in \<^verbatim>\<open>common/src/common.cpp\<close>
  (\<^verbatim>\<open>next_version_part\<close>, \<^verbatim>\<open>compare_version\<close>), by which the agent decides whether the
  collector-agent it talks to is recent enough.  A C string is the list of its characters before
  the NUL, so that \<^verbatim>\<open>*s\<close> is zero exactly on the empty list.
\<close>

section \<open>The routines\<close>

definition next_version_part :: "string \<Rightarrow> u64 \<times> string" where
  "next_version_part version =
     (let (part, rest) = strtoul version; dot = dropWhile (\<lambda>c. c \<noteq> CHR ''.'') rest
      in (part, (if dot \<noteq> [] then tl dot else [])))"

lemma next_version_part_Nil [simp]: "next_version_part [] = (0, [])"
  by (simp add: next_version_part_def strtoul_def sign_split_def)

lemma next_version_part_shorter:
  "snd (next_version_part s) \<noteq> [] \<Longrightarrow> length (snd (next_version_part s)) < length s"
proof -
  assume a: "snd (next_version_part s) \<noteq> []"
  let ?d = "dropWhile (\<lambda>c. c \<noteq> CHR ''.'') (snd (strtoul s))"
  have "length ?d \<le> length s"
    using strtoul_length [of s] by (meson length_dropWhile_le order_trans)
  moreover have "snd (next_version_part s) = tl ?d" and "?d \<noteq> []"
    using a by (auto simp: next_version_part_def Let_def split: prod.splits if_splits)
  ultimately show ?thesis by (cases ?d) auto
qed

lemma next_version_part_length:
  "length (snd (next_version_part s)) \<le> length s"
  using next_version_part_shorter [of s] by (cases "snd (next_version_part s) = []") auto

lemma next_version_part_less:
  "s \<noteq> [] \<Longrightarrow> length (snd (next_version_part s)) < length s"
  using next_version_part_shorter [of s] by (cases "snd (next_version_part s) = []") auto

text \<open>The \<^verbatim>\<open>while\<close> loop: both cursors advance by one part per round.\<close>

function compare_parts :: "string \<Rightarrow> string \<Rightarrow> int" where
  "compare_parts lhs rhs =
     (if lhs \<noteq> [] \<or> rhs \<noteq> [] then
        (let (l, lhs') = next_version_part lhs; (r, rhs') = next_version_part rhs
         in if l \<noteq> r then (if l < r then - 1 else 1) else compare_parts lhs' rhs')
      else 0)"
  by pat_completeness auto
termination
proof (relation "measure (\<lambda>(l, r). length l + length r)", goal_cases)
  case (2 lhs rhs x l lhs' y r rhs')
  have "lhs' = snd (next_version_part lhs)" and "rhs' = snd (next_version_part rhs)"
    using 2(2-5) by (metis snd_conv)+
  with 2(1) show ?case
    using next_version_part_less [of lhs] next_version_part_less [of rhs]
      next_version_part_length [of lhs] next_version_part_length [of rhs]
    by (cases "lhs = []") auto
qed simp

definition skip_v :: "string \<Rightarrow> string" where
  "skip_v s = (case s of c # cs \<Rightarrow> if c = CHR ''v'' \<or> c = CHR ''V'' then cs else s | [] \<Rightarrow> [])"

definition compare_version :: "string \<Rightarrow> string \<Rightarrow> int" where
  "compare_version lhs rhs = compare_parts (skip_v lhs) (skip_v rhs)"

declare compare_parts.simps [simp del]

section \<open>The parts of a version\<close>

function parts :: "string \<Rightarrow> u64 list" where
  "parts s = (if s = [] then [] else
     let (p, s') = next_version_part s in p # parts s')"
  by pat_completeness auto
termination
  by (relation "measure length") (auto, metis length_greater_0_conv next_version_part_less snd_conv)

declare parts.simps [simp del]

definition part_at :: "nat \<Rightarrow> u64 list \<Rightarrow> u64" where
  "part_at i ps = (if i < length ps then ps ! i else 0)"

text \<open>The reference: compare part by part as numbers, a missing part counting as 0.\<close>

fun cmp_parts :: "u64 list \<Rightarrow> u64 list \<Rightarrow> int" where
  "cmp_parts [] [] = 0"
| "cmp_parts [] (r # rs) = (if 0 < r then - 1 else cmp_parts [] rs)"
| "cmp_parts (l # ls) [] = (if 0 < l then 1 else cmp_parts ls [])"
| "cmp_parts (l # ls) (r # rs) = (if l < r then - 1 else if r < l then 1 else cmp_parts ls rs)"

lemma parts_Nil [simp]: "parts [] = []"
  by (simp add: parts.simps)

lemma parts_step: "s \<noteq> [] \<Longrightarrow> parts s = fst (next_version_part s) # parts (snd (next_version_part s))"
  by (subst parts.simps) (simp add: case_prod_beta)

lemma compare_parts_eq: "compare_parts lhs rhs = cmp_parts (parts lhs) (parts rhs)"
proof (induction lhs rhs rule: compare_parts.induct)
  case (1 lhs rhs)
  have IH: "fst (next_version_part lhs) = fst (next_version_part rhs) \<Longrightarrow> lhs \<noteq> [] \<or> rhs \<noteq> [] \<Longrightarrow>
      compare_parts (snd (next_version_part lhs)) (snd (next_version_part rhs)) =
      cmp_parts (parts (snd (next_version_part lhs))) (parts (snd (next_version_part rhs)))"
    using 1 by (cases "next_version_part lhs"; cases "next_version_part rhs") simp
  show ?case
    using IH unfolding compare_parts.simps [of lhs rhs]
    by (cases "lhs = []"; cases "rhs = []") (auto simp: parts_step case_prod_beta word_gt_0)
qed

section \<open>The reference order\<close>

text \<open>Padded part lists as sequences, compared at the first position where they differ.\<close>

definition seq_less :: "(nat \<Rightarrow> u64) \<Rightarrow> (nat \<Rightarrow> u64) \<Rightarrow> bool" where
  "seq_less f g \<longleftrightarrow> (\<exists>i. (\<forall>j < i. f j = g j) \<and> f i < g i)"

lemma seq_less_step:
  "seq_less f g \<longleftrightarrow> f 0 < g 0 \<or> f 0 = g 0 \<and> seq_less (\<lambda>i. f (Suc i)) (\<lambda>i. g (Suc i))"
proof -
  have "(\<exists>i. P i) \<longleftrightarrow> P 0 \<or> (\<exists>i. P (Suc i))" for P :: "nat \<Rightarrow> bool"
    by (metis not0_implies_Suc)
  from this [of "\<lambda>i. (\<forall>j < i. f j = g j) \<and> f i < g i"] show ?thesis
    by (auto simp: seq_less_def All_less_Suc2)
qed

lemma seq_less_trans: "seq_less f g \<Longrightarrow> seq_less g h \<Longrightarrow> seq_less f h"
proof -
  assume "seq_less f g" and "seq_less g h"
  then obtain i k where "\<forall>j < i. f j = g j" "f i < g i" "\<forall>j < k. g j = h j" "g k < h k"
    by (auto simp: seq_less_def)
  then have "(\<forall>j < min i k. f j = h j) \<and> f (min i k) < h (min i k)"
    by (cases i k rule: linorder_cases) (auto simp: min_def)
  then show ?thesis unfolding seq_less_def by blast
qed

lemma seq_less_total: "f \<noteq> g \<Longrightarrow> seq_less f g \<or> seq_less g f"
proof -
  assume "f \<noteq> g"
  then obtain i where "f i \<noteq> g i" by auto
  define k where "k = (LEAST i. f i \<noteq> g i)"
  have "f k \<noteq> g k" unfolding k_def by (rule LeastI) fact
  moreover have "\<forall>j < k. f j = g j" unfolding k_def using not_less_Least by blast
  ultimately show ?thesis unfolding seq_less_def by (metis linorder_neqE)
qed

lemma seq_less_irrefl: "\<not> seq_less f f"
  by (simp add: seq_less_def)

abbreviation padded :: "u64 list \<Rightarrow> nat \<Rightarrow> u64" where
  "padded ps \<equiv> \<lambda>i. part_at i ps"

lemma part_at_simps [simp]:
  "part_at i [] = 0" "part_at 0 (p # ps) = p" "part_at (Suc i) (p # ps) = part_at i ps"
  by (auto simp: part_at_def)

lemma cmp_parts_less: "cmp_parts ls rs = - 1 \<longleftrightarrow> seq_less (padded ls) (padded rs)"
proof (induction ls rs rule: cmp_parts.induct)
  case 1
  then show ?case by (simp add: seq_less_irrefl)
next
  case (2 r rs)
  then show ?case by (subst seq_less_step) (auto simp: word_gt_0)
next
  case (3 l ls)
  then show ?case by (subst seq_less_step) (auto simp: word_gt_0)
next
  case (4 l ls r rs)
  then show ?case by (subst seq_less_step) auto
qed

lemma cmp_parts_antisym: "cmp_parts rs ls = - cmp_parts ls rs"
  by (induction ls rs rule: cmp_parts.induct) auto

lemma cmp_parts_range: "cmp_parts ls rs \<in> {- 1, 0, 1}"
  by (induction ls rs rule: cmp_parts.induct) auto

lemma cmp_parts_greater: "cmp_parts ls rs = 1 \<longleftrightarrow> seq_less (padded rs) (padded ls)"
  unfolding cmp_parts_less [symmetric] cmp_parts_antisym [of ls rs] by simp

lemma cmp_parts_equal: "cmp_parts ls rs = 0 \<longleftrightarrow> padded ls = padded rs"
proof
  assume "cmp_parts ls rs = 0"
  then have "\<not> seq_less (padded ls) (padded rs)" "\<not> seq_less (padded rs) (padded ls)"
    using cmp_parts_less [of ls rs] cmp_parts_greater [of ls rs] by simp_all
  then show "padded ls = padded rs" using seq_less_total by blast
next
  assume "padded ls = padded rs"
  then have "cmp_parts ls rs \<noteq> - 1" "cmp_parts ls rs \<noteq> 1"
    by (simp_all add: cmp_parts_less cmp_parts_greater seq_less_irrefl)
  then show "cmp_parts ls rs = 0" using cmp_parts_range [of ls rs] by blast
qed

lemma cmp_parts_le: "cmp_parts ls rs \<le> 0 \<longleftrightarrow> \<not> seq_less (padded rs) (padded ls)"
  unfolding cmp_parts_greater [symmetric] using cmp_parts_range [of ls rs] by auto

lemma cmp_parts_trans: "cmp_parts a b \<le> 0 \<Longrightarrow> cmp_parts b c \<le> 0 \<Longrightarrow> cmp_parts a c \<le> 0"
  using seq_less_total [of "padded a" "padded b"] seq_less_trans [of "padded c" "padded a" "padded b"]
  unfolding cmp_parts_le by (cases "padded a = padded b") (simp_all, blast)

section \<open>Printed versions\<close>

definition print_version :: "bool \<Rightarrow> u64 list \<Rightarrow> string" where
  "print_version v ps = (if v then ''v'' else []) @ join ''.'' (map (\<lambda>p. decimal (unat p)) ps)"

lemma next_version_part_decimal:
  "next_version_part (decimal (unat p)) = (p, [])"
  "next_version_part (decimal (unat p) @ CHR ''.'' # rest) = (p, rest)"
  using strtoul_decimal [of "unat p" "[]"] strtoul_decimal [of "unat p" "''.'' @ rest"] unat_less_64 [of p]
  by (auto simp: next_version_part_def isdigit_def less_eq_char_def)

lemma parts_join: "parts (join ''.'' (map (\<lambda>p. decimal (unat p)) ps)) = ps"
  by (induction ps rule: induct_list012)
    (simp_all add: parts_step next_version_part_decimal)

lemma skip_v_print:
  "skip_v (print_version v ps) = join ''.'' (map (\<lambda>p. decimal (unat p)) ps)"
proof (cases ps)
  case (Cons p qs)
  obtain c cs where c: "decimal (unat p) = c # cs" by (cases "decimal (unat p)") auto
  then have "isdigit c" using decimal_isdigit [of c "unat p"] by simp
  then have "c \<noteq> CHR ''v''" "c \<noteq> CHR ''V''" by (auto simp: isdigit_def less_eq_char_def)
  with c Cons show ?thesis by (cases qs) (auto simp: print_version_def skip_v_def)
qed (simp add: print_version_def skip_v_def)

text \<open>
  C39: On printed versions, with or without the leading v, the comparison is the part-by-part
  numeric one with missing parts counting as 0: the result is 0 exactly when all padded parts
  agree, and -1 (1) exactly when the left (right) side is smaller at the first difference.
\<close>

theorem compare_version_numeric:
  "(compare_version (print_version v ls) (print_version w rs) = 0 \<longleftrightarrow> padded ls = padded rs) \<and>
   (compare_version (print_version v ls) (print_version w rs) = - 1 \<longleftrightarrow>
      seq_less (padded ls) (padded rs)) \<and>
   (compare_version (print_version v ls) (print_version w rs) = 1 \<longleftrightarrow>
      seq_less (padded rs) (padded ls))"
  by (simp add: compare_version_def skip_v_print compare_parts_eq parts_join
      cmp_parts_equal cmp_parts_less cmp_parts_greater)

text \<open>
  On arbitrary strings the comparison is a total preorder: its result is -1, 0 or 1,
  swapping the arguments negates it, and "not newer than" is transitive.
\<close>

lemma compare_version_preorder:
  "compare_version a b \<in> {- 1, 0, 1} \<and>
   compare_version b a = - compare_version a b \<and>
   (compare_version a b \<le> 0 \<longrightarrow> compare_version b c \<le> 0 \<longrightarrow> compare_version a c \<le> 0)"
  unfolding compare_version_def compare_parts_eq
  by (intro conjI impI cmp_parts_range cmp_parts_antisym) (rule cmp_parts_trans)

end
