(* ===== verification/Agent_Trace.thy ===== *)
theory Agent_Trace
  imports Pool_Invariant Version
begin

text \<open>
  The operations of class \<^verbatim>\<open>Agent\<close> (\<^verbatim>\<open>common/src/common.cpp\<close>) that work on the node pool only:
  starting a trace, recording in it and asking about it.  Strings handed in by the caller are not
  null.  Ending a trace, which also sends it, is in theory \<open>Span_Agent\<close>.
\<close>

section \<open>Operations\<close>

abbreviation E_LOC_CURRENT :: int where "E_LOC_CURRENT \<equiv> 0"

abbreviation E_LOC_ROOT :: int where "E_LOC_ROOT \<equiv> 1"

definition new_root :: "int \<Rightarrow> u64 \<Rightarrow> ('d pool, node_id) proc" where
  "new_root agent_type now =
     bindP GetNode (\<lambda>trace.
     bindP (onNode trace (UpgradeToRootNode agent_type)) (\<lambda>_.
     bindP (modifyP (upd_node trace (StartTrace_node now))) (\<lambda>_.
     getP (\<lambda>p. tn_id (node_at p trace)))))"

definition new_event :: "u64 \<Rightarrow> string list \<Rightarrow> int \<Rightarrow> int \<Rightarrow> ('d pool, node_id) proc" where
  "new_event now opts parent root =
     bindP GetNode (\<lambda>trace.
     bindP (modifyP (upd_node trace (StartTrace_node now))) (\<lambda>_.
     bindP (modifyP (\<lambda>p. upd_node trace (BindParentTrace (node_at p parent)) p)) (\<lambda>_.
     bindP (AppendToRootTrace root trace) (\<lambda>_.
     bindP (onNode trace (setNodeUserOption opts)) (\<lambda>_.
     getP (\<lambda>p. tn_id (node_at p trace)))))))"

text \<open>\<^verbatim>\<open>StartTrace\<close>; an empty list of options stands for a null \<^verbatim>\<open>opt\<close>.\<close>

definition StartTrace :: "int \<Rightarrow> u64 \<Rightarrow> node_id \<Rightarrow> string list \<Rightarrow> ('d pool, node_id) proc" where
  "StartTrace agent_type now parent_id opts =
     (if parent_id \<le> E_INVALID_NODE then throwP Out_of_range
      else if parent_id = E_ROOT_NODE then new_root agent_type now
      else
        withNode parent_id (\<lambda>parent.
        bindP (getP (\<lambda>p. tn_root_id (node_at p parent))) (\<lambda>rid.
        withNode rid (new_event now opts parent))))"

definition IsRootTrace :: "node_id \<Rightarrow> ('d pool, bool) proc" where
  "IsRootTrace nid = withNode nid (\<lambda>i. getP (\<lambda>p. IsRootNode (node_at p i)))"

definition GetDepth :: "node_id \<Rightarrow> ('d pool, int) proc" where
  "GetDepth nid = withNode nid (\<lambda>i. getP (\<lambda>p. tn_depth (node_at p i)))"

definition ChangeTraceStatus :: "node_id \<Rightarrow> int \<Rightarrow> ('d pool, int) proc" where
  "ChangeTraceStatus nid status =
     withNode nid (\<lambda>i.
     bindP (getP (\<lambda>p. tn_root_id (node_at p i))) (\<lambda>rid.
     withNode rid (\<lambda>root.
     bindP (getP (\<lambda>p. GetStatus (node_at p root))) (\<lambda>older.
     bindP (modifyP (upd_node root (SetStatus status))) (\<lambda>_.
     returnP older)))))"

text \<open>\<^verbatim>\<open>GetWrapperTraceNode\<close> and the scope of the wrapper it returns.\<close>

definition withWrapper :: "node_id \<Rightarrow> int \<Rightarrow> (int \<Rightarrow> ('d pool, 'a) proc) \<Rightarrow> ('d pool, 'a) proc" where
  "withWrapper nid flag body =
     (if flag = E_LOC_ROOT then
        bindP (withNode nid (\<lambda>i. getP (\<lambda>p. tn_root_id (node_at p i)))) (\<lambda>rid. withNode rid body)
      else withNode nid body)"

definition NotInternalKey :: "string \<Rightarrow> ('s, unit) proc" where
  "NotInternalKey key = (if key \<noteq> [] \<and> hd key = CHR '':'' then throwP Invalid_argument else returnP ())"

definition AnnotateTrace_V1 :: "node_id \<Rightarrow> string \<Rightarrow> string \<Rightarrow> int \<Rightarrow> ('d pool, unit) proc" where
  "AnnotateTrace_V1 nid key val flag =
     bindP (NotInternalKey key) (\<lambda>_.
     withWrapper nid flag (\<lambda>i. onNode i (AddAnnotation key (StringValue val))))"

definition AnnotateTrace_V2 :: "node_id \<Rightarrow> string \<Rightarrow> string \<Rightarrow> int \<Rightarrow> ('d pool, unit) proc" where
  "AnnotateTrace_V2 nid key val flag =
     bindP (NotInternalKey key) (\<lambda>_.
     withWrapper nid flag (\<lambda>i. onNode i (AppendAnnotation ''anno'' (StringValue (key @ '':'' @ val)))))"

definition jobj :: "(string \<times> 'd jvalue) list \<Rightarrow> 'd jvalue" where
  "jobj kvs = fold (\<lambda>(k, v) o'. snd (set_key k v o')) kvs NullValue"

definition AnnotateErrorTrace :: "node_id \<Rightarrow> string \<Rightarrow> string \<Rightarrow> u32 \<Rightarrow> ('d pool, unit) proc" where
  "AnnotateErrorTrace nid msg error_filename error_lineno =
     withWrapper nid E_LOC_ROOT (\<lambda>root.
       onNode root (AddAnnotation ''ERR''
         (jobj [(''msg'', StringValue msg), (''file'', StringValue error_filename),
                (''line'', UIntValue (ucast error_lineno))])))"

definition AnnotateExceptionTrace :: "u64 \<Rightarrow> node_id \<Rightarrow> string \<Rightarrow> ('d pool, unit) proc" where
  "AnnotateExceptionTrace now nid exception =
     withWrapper nid E_LOC_CURRENT (\<lambda>node.
     bindP (modifyP (upd_node node (\<lambda>n. n\<lparr>tn_set_exp := True\<rparr>))) (\<lambda>_.
     withWrapper nid E_LOC_ROOT (\<lambda>root.
     bindP (modifyP (upd_node root (\<lambda>n. n\<lparr>tn_set_exp := True\<rparr>))) (\<lambda>_.
     bindP (getP (\<lambda>p. tn_start_time (node_at p root))) (\<lambda>st.
     onNode node (AddAnnotation ''EXP_V2''
       (jobj [(''M'', StringValue exception), (''C'', StringValue ''class''),
              ('':S'', UIntValue (now - st))])))))))"

definition AddTraceContext :: "node_id \<Rightarrow> string \<Rightarrow> string \<Rightarrow> ('d pool, unit) proc" where
  "AddTraceContext nid key val =
     withWrapper nid E_LOC_ROOT (\<lambda>i. modifyP (upd_node i (setContext key val)))"

definition GetSequenceId :: "node_id \<Rightarrow> ('d pool, int) proc" where
  "GetSequenceId nid = withWrapper nid E_LOC_CURRENT (\<lambda>i. getP (\<lambda>p. tn_sequence (node_at p i)))"

text \<open>
  \<^verbatim>\<open>GetTraceContext\<close>: the return value and what it leaves in the buffer of \<open>buf_size\<close> bytes (\<open>None\<close>: the
  buffer is not touched).  \<open>has_buf\<close> tells whether the pointer is non-null.
\<close>

definition GetTraceContext :: "node_id \<Rightarrow> string \<Rightarrow> bool \<Rightarrow> int \<Rightarrow> ('d pool, int \<times> string option) proc" where
  "GetTraceContext nid key has_buf buf_size =
     withWrapper nid E_LOC_ROOT (\<lambda>i.
     bindP (\<lambda>p. (getContext key (node_at p i), p)) (\<lambda>val.
     if has_buf \<and> int (length val) < buf_size then returnP (int (length val), Some (c_str val))
     else returnP (- 1, None)))"

definition SetAsyncContext :: "node_id \<Rightarrow> int \<Rightarrow> int \<Rightarrow> ('d pool, unit) proc" where
  "SetAsyncContext nid async_node_id node_sequence =
     withWrapper nid E_LOC_ROOT (\<lambda>i.
       onNode i (AddAnnotation ''asy''
         (jobj [(''id'', IntValue (word_of_int async_node_id)), (''seq'', IntValue (word_of_int node_sequence))])))"

section \<open>Starting a trace\<close>

text \<open>Reference counts play no part in the shape of the traces.\<close>

lemma butlast_not_last: "distinct xs \<Longrightarrow> y \<in> set (butlast xs) \<Longrightarrow> y \<noteq> last xs"
  by (cases xs rule: rev_cases) auto

lemma trace_of_place:
  assumes "\<And>y. alive p y \<Longrightarrow> place (nd q y) = place (nd p y)" and "\<And>y. alive q y = alive p y"
  shows "trace_of q r es = trace_of p r es"
proof
  assume t: "trace_of q r es"
  then show "trace_of p r es" using assms by (intro trace_of_mono [OF t]) (auto simp: trace_of_def)
next
  assume t: "trace_of p r es"
  then show "trace_of q r es" using assms by (intro trace_of_mono [OF t]) (auto simp: trace_of_def)
qed

lemma refs_inv:
  assumes "pool_shape p" and "in_range i p" and "f = addReference \<or> f = decReference"
  shows "trace_of (upd_node i f p) r es = trace_of p r es"
    and "pool_inv (upd_node i f p) = pool_inv p"
proof -
  have pl: "place (node_at (upd_node i f p) j) = place (node_at p j)" 
       "node_ok (node_at (upd_node i f p) j) = node_ok (node_at p j)" if "0 \<le> j" for j
    using assms that by (auto simp: node_at_upd)
  show tr: "trace_of (upd_node i f p) r es = trace_of p r es" for r es
    using pl by (intro trace_of_place) (auto simp: indexInUsedVec_def split: if_splits)
  have "(\<forall>j. in_range j p \<longrightarrow> node_ok (node_at (upd_node i f p) j)) = (\<forall>j. in_range j p \<longrightarrow> node_ok (node_at p j))"
    using pl by (auto simp: in_range_def)
  then show "pool_inv (upd_node i f p) = pool_inv p"
    using assms(1) by (simp add: pool_inv_def tr)
qed

text \<open>
  The pool after node \<open>x\<close> has joined: it was not in use before, every other trace is as it was, and
  no reference count and no parent has changed.
\<close>

definition joined :: "'d pool \<Rightarrow> node_id \<Rightarrow> 'd pool \<Rightarrow> bool" where
  "joined p x p' \<longleftrightarrow> pool_inv p' \<and> \<not> alive p x \<and> (\<forall>y. alive p' y \<longleftrightarrow> alive p y \<or> y = x) \<and>
     maxId p \<le> maxId p' \<and> tn_refs (nd p' x) = 0 \<and> (\<forall>y. alive p y \<longrightarrow> tn_refs (nd p' y) = tn_refs (nd p y)) \<and>
     (\<forall>y. alive p y \<longrightarrow> tn_parent_id (nd p' y) = tn_parent_id (nd p y))"

lemma joined_quiet: "joined p x p' \<Longrightarrow> quiet p \<Longrightarrow> quiet p'"
  by (auto simp: joined_def quiet_def)

lemma joined_frame:
  assumes "joined p x q" and "frame q q'"
  shows "joined p x q'"
proof -
  have al: "alive q' y = alive q y" for y using assms(2) by (rule frame_alive)
  have "tn_refs (nd q' y) = tn_refs (nd q y)" if "alive q y" for y
    using frame_node(2) [OF assms(2) alive_in_range [OF that]] .
  moreover have "tn_parent_id (nd q' y) = tn_parent_id (nd q y)" if "alive q y" for y
    using frame_node(1) [OF assms(2) alive_in_range [OF that]] by (simp add: place_def)
  ultimately show ?thesis using assms frame_inv [OF assms(2)] by (simp add: joined_def al) (simp add: frame_def)
qed

lemma Reset_fields [simp]:
  "tn_id (Reset k n) = k" "tn_root_id (Reset k n) = E_INVALID_NODE" "tn_next (Reset k n) = E_INVALID_NODE"
  "tn_extra (Reset k n) = None" "tn_refs (Reset k n) = 0"
  by (simp_all add: Reset_def)

lemma recorded_Reset: "node_ok (Reset k n) \<Longrightarrow> recorded key (Reset k n) = NullValue"
  by (cases "tn_value n")
    (auto simp: Reset_def node_ok_def clear_val_def container_def isNull_def isObject_def recorded_def at_key_def find_val_def
      find_member_def lower_bound_def split: option.splits)

lemma fresh_alive:
  assumes "fresh p i p1" 
  shows "alive p1 y \<longleftrightarrow> alive p y \<or> y = i + 1"
  using assms unfolding fresh_def by (cases "y = i + 1") auto

lemma fresh_node: "fresh p i p1 \<Longrightarrow> alive p y \<Longrightarrow> nd p1 y = nd p y \<and> y \<noteq> i + 1"
  by (auto simp: fresh_def dest: alive_in_range)

definition exhausted :: "'d pool \<Rightarrow> bool" where
  "exhausted p \<longleftrightarrow> freeNodeList p = [] \<and> POOL_MAX_NODES_LIMIT < maxId p"

lemma new_root_spec:
  assumes inv: "pool_inv p" and run: "new_root agent_type now p = (res, p')"
  shows "(res = Inl Out_of_range \<and> p' = p \<and> exhausted p) \<or>
         (\<exists>x. res = Inr x \<and> joined p x p' \<and> trace_of p' x [] \<and> (\<forall>r es. trace_of p r es \<longrightarrow> trace_of p' r es) \<and>
              tn_start_time (nd p' x) = now \<and> recorded '':FT'' (nd p' x) = IntValue (word_of_int agent_type) \<and>
              (\<forall>key. key \<noteq> '':FT'' \<longrightarrow> recorded key (nd p' x) = NullValue))"
proof -
  have p: "pool_shape p" "nodes_ok p" "maxId p \<le> POOL_MAX_NODES_LIMIT + int CELL_SIZE"
    using inv by (auto simp: pool_inv_def nodes_ok_def)
  obtain g p1 where g: "getReadyNode p = (g, p1)" by fastforce
  from getReadyNode_spec [OF p g] show ?thesis
  proof (elim disjE exE conjE)
    assume "g = Inl Out_of_range" "p1 = p" "freeNodeList p = []" "POOL_MAX_NODES_LIMIT < maxId p"
    then show ?thesis using run g by (simp add: new_root_def bindP_def GetNode_def exhausted_def)
  next
    fix i
    assume i: "g = Inr i" "fresh p i p1" "maxId p1 \<le> POOL_MAX_NODES_LIMIT + int CELL_SIZE"
    have s1: "pool_shape p1" "in_range i p1" "nodes_ok p1" using i(2) by (auto simp: fresh_def)
    obtain n0 where n0: "node_at p1 i = Reset (i + 1) n0" using i(2) by (auto simp: fresh_def)
    define n where "n = (node_at p1 i)\<lparr>tn_extra := Some RootTraceNodeExtra, tn_root_id := i + 1, tn_parent_id := i + 1,
          tn_next := E_INVALID_NODE, tn_depth := 0, tn_sequence := 0\<rparr>"
    have nok: "node_ok n" using s1 by (simp add: n_def node_ok_def nodes_ok_def)
    define n' where "n' = n\<lparr>tn_value := snd (set_key '':FT'' (IntValue (word_of_int agent_type)) (tn_value n)), tn_start_time := now\<rparr>"
    have up: "UpgradeToRootNode agent_type (node_at p1 i) =
        (Inr (), n\<lparr>tn_value := snd (set_key '':FT'' (IntValue (word_of_int agent_type)) (tn_value n))\<rparr>)"
      using AddAnnotation_step(1) [OF nok] by (simp add: UpgradeToRootNode_def n_def n0)
    have at: "node_at p' j = (if j = i then n' else node_at p1 j)" if "0 \<le> j" for j
      using run g i(1) s1 up that
      by (auto simp: new_root_def bindP_def GetNode_def onNode_def StartTrace_node_def n'_def node_at_upd)
    have p': "res = Inr (i + 1)" "pool_shape p'" "usedNodeSet p' = usedNodeSet p1" "maxId p' = maxId p1"
      using run g i(1) s1 up
      by (auto simp: new_root_def bindP_def GetNode_def onNode_def StartTrace_node_def n_def n0)
    have al: "alive p' y = alive p1 y" for y using p' by (simp add: indexInUsedVec_def)
    have okn: "node_ok n'" using AddAnnotation_step(2) [OF nok] by (simp add: n'_def)
    have i0: "0 \<le> i" using s1(2) by (simp add: in_range_def)
    have nx: "nd p' (i + 1) = n'" using at [OF i0] by simp
    have new: "trace_of p' (i + 1) []"
      using al [of "i + 1"] fresh_alive [OF i(2), of "i + 1"] nx
      by (intro trace_single) (simp_all add: n'_def n_def n0)
    have old: "nd p' y = nd p y" "alive p' y" if "alive p y" for y
      using that at [of "y - 1"] fresh_node [OF i(2) that] fresh_alive [OF i(2)] alive_pos [OF that] by (auto simp: al)
    have keep: "trace_of p' r es" if "trace_of p r es" for r es
      using that old by (intro trace_of_mono [OF that]) (auto simp: trace_of_def)
    have "nodes_ok p'" using s1(3) okn at p'(4) by (auto simp: nodes_ok_def in_range_def)
    moreover have "\<exists>r es. trace_of p' r es \<and> y \<in> set (r # es)" if "alive p' y" for y
    proof (cases "y = i + 1")
      case True
      then show ?thesis using new by auto
    next
      case False
      then have "alive p y" using that fresh_alive [OF i(2)] by (simp add: al)
      then show ?thesis using inv keep unfolding pool_inv_def by blast
    qed
    ultimately have "pool_inv p'" using p' i(3) by (simp add: pool_inv_def nodes_ok_def)
    moreover have "\<not> alive p (i + 1)" "maxId p \<le> maxId p'" using i(2) p'(4) by (auto simp: fresh_def)
    moreover have "tn_refs n' = 0" by (simp add: n'_def n_def n0)
    ultimately have "joined p (i + 1) p'"
      using fresh_alive [OF i(2)] old nx by (simp add: joined_def al)
    moreover have "recorded '':FT'' n' = IntValue (word_of_int agent_type)"
      using nok by (simp add: recorded_def n'_def node_ok_def set_key_at)
    moreover have "recorded key n' = NullValue" if "key \<noteq> '':FT''" for key
    proof -
      have "node_ok (Reset (i + 1) n0)" using s1 n0 by (auto simp: nodes_ok_def)
      then have "recorded key n = NullValue" using recorded_Reset by (simp add: n_def n0 recorded_def)
      then show ?thesis using that nok by (simp add: recorded_def n'_def node_ok_def set_key_at)
    qed
    ultimately show ?thesis using p'(1) new keep nx by (auto simp: n'_def)
  qed
qed

lemma appended_keeps:
  "tn_refs (appended root i x p j) = tn_refs (node_at p j)"
  "node_ok (appended root i x p j) = node_ok (node_at p j)"
  "tn_id (appended root i x p j) = tn_id (node_at p j)"
  "tn_parent_id (appended root i x p j) = tn_parent_id (node_at p j)"
  "tn_depth (appended root i x p j) = tn_depth (node_at p j)"
  "tn_start_time (appended root i x p j) = tn_start_time (node_at p j)"
  by (simp_all add: appended_def node_ok_def)

text \<open>What \<^const>\<open>new_event\<close> does before it reads the options.\<close>

lemma event_joins:
  fixes now :: u64
  assumes inv: "pool_inv p" and f: "fresh p i p1" "maxId p1 \<le> POOL_MAX_NODES_LIMIT + int CELL_SIZE"
    and t: "trace_of p r es" and par: "par \<in> set (r # es)"
  defines "p2 \<equiv> upd_node i (BindParentTrace (nd p1 par)) (upd_node i (StartTrace_node now) p1)"
  shows "\<exists>q. AppendToRootTrace (r - 1) i p2 = (Inr (), q) \<and> joined p (i + 1) q \<and> trace_of q r (es @ [i + 1]) \<and>
           (\<forall>r' es'. r' \<noteq> r \<longrightarrow> trace_of p r' es' \<longrightarrow> trace_of q r' es') \<and>
           tn_parent_id (nd q (i + 1)) = par \<and> tn_start_time (nd q (i + 1)) = now"
proof -
  have s1: "pool_shape p1" "in_range i p1" "nodes_ok p1" using f by (auto simp: fresh_def)
  obtain n0 where n0: "node_at p1 i = Reset (i + 1) n0" using f by (auto simp: fresh_def)
  have i0: "0 \<le> i" using s1 by (simp add: in_range_def)
  have tal: "alive p y" "tn_id (nd p y) = y" "tn_root_id (nd p y) = r" if "y \<in> set (r # es)" for y
    using t that by (auto simp: trace_of_def)
  have old1: "nd p1 y = nd p y" "y \<noteq> i + 1" "y - 1 \<noteq> i" "0 \<le> y - 1" "in_range (y - 1) p1" if "alive p y" for y
    using fresh_node [OF f(1) that] alive_pos [of y p] that alive_in_range [OF that] f(1) by (auto simp: fresh_def in_range_def)
  have at2: "node_at p2 j = (if j = i then BindParentTrace (nd p par) (StartTrace_node now (Reset (i + 1) n0)) else node_at p1 j)"
    if "0 \<le> j" for j
    using that s1 n0 old1 [OF tal(1) [OF par]] by (simp add: p2_def node_at_upd)
  have p2: "pool_shape p2" "in_range i p2" "usedNodeSet p2 = usedNodeSet p1" "maxId p2 = maxId p1" 
    "\<And>j. indexInUsedVec j p2 = indexInUsedVec j p1" "\<And>j. in_range j p2 = in_range j p1"
    using s1 by (simp_all add: p2_def)
  have r: "alive p r" using tal by simp
  obtain x where x: "tn_extra (nd p r) = Some x" "re_last x = (if es = [] then E_INVALID_NODE else last es)"
    "re_sequence x = int (length es)" using t by (auto simp: trace_of_def root_ok_def)
  have lst: "re_last x = E_INVALID_NODE \<or> alive p2 (re_last x) \<and> re_last x - 1 \<noteq> i \<and> re_last x - 1 \<noteq> r - 1"
  proof (cases "es = []")
    case False
    then have "last es \<in> set (r # es)" "last es \<noteq> r" using t by (auto simp: trace_of_def)
    then show ?thesis using False x(2) tal(1) [of "last es"] old1(3) [of "last es"] fresh_alive [OF f(1)] by (simp add: p2)
  qed (simp add: x)
  have "tn_root_id (node_at p2 i) = E_INVALID_NODE" "tn_extra (node_at p2 (r - 1)) = Some x" "i \<noteq> r - 1" "in_range (r - 1) p2"
    using at2 [OF i0] at2 [of "r - 1"] old1 [OF r] x(1) by (auto simp: BindParentTrace_def StartTrace_node_def p2(6))
  from AppendToRootTrace_spec [OF p2(1,2) this(4) this(3) this(1) this(2) lst]
  obtain q where q: "AppendToRootTrace (r - 1) i p2 = (Inr (), q)" "pool_shape q" "usedNodeSet q = usedNodeSet p2"
      "maxId q = maxId p2" "\<And>j. in_range j p2 \<Longrightarrow> node_at q j = appended (r - 1) i x p2 j" by blast
  have alq: "alive q y \<longleftrightarrow> alive p y \<or> y = i + 1" for y
    unfolding fresh_alive [OF f(1), symmetric] using q(3,4) p2(3,4) by (simp add: indexInUsedVec_def)
  have at: "nd q y = appended (r - 1) i x p2 (y - 1)" "node_at p2 (y - 1) = nd p y" if "alive p y" for y
    using q(5) [of "y - 1"] at2 [of "y - 1"] old1 [OF that] by (auto simp: p2(6))
  have other: "nd q y = nd p y" if "alive p y" "y \<notin> set (r # es)" for y
    using at [OF that(1)] that old1(3) [OF that(1)] x(2) by (auto simp: appended_def)
  have new: "nd q (i + 1) = appended (r - 1) i x p2 i"
      "node_at p2 i = BindParentTrace (nd p par) (StartTrace_node now (Reset (i + 1) n0))"
    using q(5) [of i] at2 [OF i0] p2(2) by auto
  have dist: "distinct (r # es)" and lnk: "links p (r # es)" using t by (auto simp: trace_of_def)
  have tl: "0 < y" if "y \<in> set (r # es)" for y using alive_pos [of y p] tal(1) that by blast
  have nx: "if es = [] then tn_next (nd p r) = E_INVALID_NODE else 0 < last es \<and> 0 < tn_next (nd p r)"
    using lnk tl by (cases es) auto
  have nexts: "tn_next (nd q y) = (if y = last (r # es) then i + 1 else tn_next (nd p y))" if y: "y \<in> set (r # es)" for y
    unfolding at(1) [OF tal(1) [OF y]] using at(2) [OF tal(1) [OF y]] old1(3) [OF tal(1) [OF y]] nx y x(2) new(2) dist
    by (auto simp: appended_def BindParentTrace_def StartTrace_node_def split: if_splits)
  have ext: "trace_of q r (es @ [i + 1])"
  proof (rule trace_extend [OF t _ par])
    show "i + 1 \<notin> set (r # es)" using tal(1) old1(2) by blast
    show "\<forall>y\<in>set (r # es). alive q y" "alive q (i + 1)" using tal(1) alq by blast+
    show "tn_id (nd q (i + 1)) = i + 1" "tn_root_id (nd q (i + 1)) = r" "tn_next (nd q (i + 1)) = E_INVALID_NODE"
      "tn_extra (nd q (i + 1)) = None" "tn_sequence (nd q (i + 1)) = int (length es)" "tn_parent_id (nd q (i + 1)) = par"
      "tn_depth (nd q (i + 1)) = tn_depth (nd p par) + 1"
      unfolding new(1) using new(2) tal(2) [OF par] at(2) [OF r] tal(2) [of r] x(3)
      by (simp_all add: appended_def BindParentTrace_def StartTrace_node_def)
    show "\<forall>y\<in>set (butlast (r # es)). tn_next (nd q y) = tn_next (nd p y)"
      using nexts butlast_not_last [OF dist] in_set_butlastD by metis
    show "tn_next (nd q (last (r # es))) = i + 1" using nexts [of "last (r # es)"] by simp
    show "tn_extra (nd q r) = Some (x\<lparr>re_last := i + 1, re_sequence := re_sequence x + 1\<rparr>)"
      unfolding at(1) [OF r] using at(2) [OF r] old1(3) [OF r] new(2) x(1) by (simp add: appended_def BindParentTrace_def StartTrace_node_def)
    show "\<forall>y\<in>set es. tn_extra (nd q y) = tn_extra (nd p y)"
      using at tal(1) old1(3) dist by (auto simp: appended_def)
    show "\<forall>y\<in>set (r # es). tn_id (nd q y) = tn_id (nd p y) \<and> tn_root_id (nd q y) = tn_root_id (nd p y) \<and>
      tn_parent_id (nd q y) = tn_parent_id (nd p y) \<and> tn_depth (nd q y) = tn_depth (nd p y) \<and>
      tn_sequence (nd q y) = tn_sequence (nd p y)"
      using at tal(1) old1(3) dist by (simp add: appended_keeps) (auto simp: appended_def)
  qed (simp_all add: x)
  have keep: "trace_of q r' es'" if "r' \<noteq> r" "trace_of p r' es'" for r' es'
  proof (rule trace_of_mono [OF that(2)])
    fix y
    assume y: "y \<in> set (r' # es')"
    then have "y \<notin> set (r # es)" using trace_of_unique [OF t that(2) _ y] that(1) by blast
    moreover have "alive p y" using that(2) y by (auto simp: trace_of_def)
    ultimately show "alive q y \<and> place (nd q y) = place (nd p y)" using other alq by simp
  qed
  moreover have "joined p (i + 1) q"
  proof -
    have "\<exists>r' es'. trace_of q r' es' \<and> y \<in> set (r' # es')" if "alive q y" for y
    proof (cases "y \<in> set (r # es @ [i + 1])")
      case False
      then have "alive p y" using that alq by auto
      then obtain r' es' where y: "trace_of p r' es'" "y \<in> set (r' # es')" using inv unfolding pool_inv_def by blast
      have "r' \<noteq> r" using trace_of_unique [OF t y(1), of r] y(2) False by auto
      then show ?thesis using keep y by blast
    qed (use ext in blast)
    moreover have "node_ok (node_at q j)" if "in_range j q" for j
    proof -
      have j: "in_range j p2" "in_range j p1" "0 \<le> j" using that q(4) p2(4) by (auto simp: in_range_def)
      then show ?thesis
        unfolding q(5) [OF j(1)] appended_keeps at2 [OF j(3)] 
        using s1(2,3) n0 [symmetric] by (simp add: nodes_ok_def node_ok_def BindParentTrace_def StartTrace_node_def)
    qed
    ultimately have "pool_inv q" using q p2 f(2) by (simp add: pool_inv_def)
    moreover have "\<not> alive p (i + 1)" "maxId p \<le> maxId q" using f(1) q p2 by (auto simp: fresh_def)
    moreover have "tn_refs (nd q (i + 1)) = 0"
      unfolding new(1) using new(2) by (simp add: appended_keeps BindParentTrace_def StartTrace_node_def)
    ultimately show ?thesis using alq at by (simp add: joined_def appended_keeps)
  qed
  moreover have "tn_parent_id (nd q (i + 1)) = par" "tn_start_time (nd q (i + 1)) = now"
      unfolding new(1) using new(2) tal(2) [OF par]
      by (simp_all add: appended_keeps BindParentTrace_def StartTrace_node_def)
  ultimately show ?thesis using q(1) ext keep by blast
qed

lemma setNodeUserOption_keeps:
  "skel (snd (setNodeUserOption opts n)) = skel n" "node_ok (snd (setNodeUserOption opts n)) = node_ok n"
  "tn_start_time (snd (setNodeUserOption opts n)) = tn_start_time n"
  by (induction opts n rule: setNodeUserOption.induct)
    (auto simp: bindP_def parseUserOption_def Let_def skel_def place_def node_ok_def split: prod.splits sum.splits if_splits)

lemma setNodeUserOption_result: "fst (setNodeUserOption opts n) = fst (setNodeUserOption opts m)"
  by (induction opts arbitrary: n m)
    (auto simp: bindP_def parseUserOption_def Let_def split: prod.splits sum.splits if_splits)

lemma new_event_spec:
  fixes p :: "'d pool"
  assumes inv: "pool_inv p" and t: "trace_of p r es" and par: "par \<in> set (r # es)"
    and run: "new_event now opts (par - 1) (r - 1) p = (res, p')"
  shows "(res = Inl Out_of_range \<and> p' = p \<and> exhausted p) \<or>
         (\<exists>x. joined p x p' \<and> trace_of p' r (es @ [x]) \<and>
              (\<forall>r' es'. r' \<noteq> r \<longrightarrow> trace_of p r' es' \<longrightarrow> trace_of p' r' es') \<and>
              tn_parent_id (nd p' x) = par \<and> tn_start_time (nd p' x) = now \<and> 
              res = map_sum (\<lambda>e. e) (\<lambda>_. x) (fst (setNodeUserOption opts (new_TraceNode :: 'd trace_node))))"
proof -
  have p: "pool_shape p" "nodes_ok p" "maxId p \<le> POOL_MAX_NODES_LIMIT + int CELL_SIZE"
    using inv by (auto simp: pool_inv_def nodes_ok_def)
  obtain g p1 where g: "getReadyNode p = (g, p1)" by fastforce
  from getReadyNode_spec [OF p g] show ?thesis
  proof (elim disjE exE conjE)
    assume "g = Inl Out_of_range" "p1 = p" "freeNodeList p = []" "POOL_MAX_NODES_LIMIT < maxId p"
    then show ?thesis using run g by (simp add: new_event_def bindP_def GetNode_def exhausted_def)
  next
    fix i
    assume i: "g = Inr i" "fresh p i p1" "maxId p1 \<le> POOL_MAX_NODES_LIMIT + int CELL_SIZE"
    have s1: "pool_shape p1" "in_range i p1" using i(2) by (auto simp: fresh_def)
    have "alive p par" using t par by (auto simp: trace_of_def)
    then have "par - 1 \<noteq> i" "0 \<le> par - 1" using fresh_node [OF i(2), of par] alive_pos [of par p] by auto
    then have rd: "node_at (upd_node i (StartTrace_node now) p1) (par - 1) = nd p1 par"
      using s1 by (simp add: node_at_upd)
    from event_joins [OF inv i(2,3) t par, of now] obtain q where
      q: "AppendToRootTrace (r - 1) i (upd_node i (BindParentTrace (nd p1 par)) (upd_node i (StartTrace_node now) p1)) = (Inr (), q)"
        "joined p (i + 1) q" "trace_of q r (es @ [i + 1])"
        "\<And>r' es'. r' \<noteq> r \<Longrightarrow> trace_of p r' es' \<Longrightarrow> trace_of q r' es'"
        "tn_parent_id (nd q (i + 1)) = par" "tn_start_time (nd q (i + 1)) = now" by blast
    have "alive q (i + 1) \<and> tn_id (nd q (i + 1)) = i + 1" using q(3) unfolding trace_of_def by simp
    then have qs: "pool_shape q" "in_range i q" "tn_id (node_at q i) = i + 1"
      using q(2) alive_in_range [of "i + 1" q] by (auto simp: joined_def pool_inv_def)
    have fr: "frame q (snd (onNode i (setNodeUserOption opts) q))"
      by (rule frame_onNode [OF qs(1,2)]) (simp_all add: setNodeUserOption_keeps)
    obtain e n' where e: "setNodeUserOption opts (node_at q i) = (e, n')" by fastforce
    have p': "p' = snd (onNode i (setNodeUserOption opts) q)" "res = map_sum (\<lambda>e. e) (\<lambda>_. i + 1) e"
      using run g i(1) rd q(1) e qs setNodeUserOption_keeps(1) [of opts "node_at q i"]
      by (simp_all add: new_event_def bindP_def GetNode_def onNode_def skel_def place_def split: sum.splits)
    have nq: "frame q p'" using fr p'(1) by simp
    have keep: "nd p' (i + 1) = n'" using qs e p'(1) by (simp add: onNode_def split: sum.splits)
    have "joined p (i + 1) p'" using joined_frame [OF q(2) nq] .
    moreover have "tn_parent_id n' = par" "tn_start_time n' = now"
      using q(5,6) setNodeUserOption_keeps(1,3) [of opts "node_at q i"] e by (auto simp: skel_def place_def)
    moreover have "e = fst (setNodeUserOption opts (new_TraceNode :: 'd trace_node))"
      using setNodeUserOption_result [of opts "node_at q i"] e by simp
    ultimately show ?thesis using frame_trace [OF nq] q(3,4) p'(2) keep by metis
  qed
qed

lemma unref:
  assumes "pool_shape p" and "in_range i p"
  shows "upd_node i decReference (upd_node i addReference p) = p"
proof -
  have "decReference (addReference n) = n" for n :: "'a trace_node" by (simp add: decReference_def addReference_def)
  then show ?thesis using cell_bounds [OF assms] by (simp add: upd_node_def Let_def)
qed

lemma joined_ref:
  assumes p: "pool_shape p" and a: "alive p a" and j: "joined (upd_node (a - 1) addReference p) x q"
  shows "joined p x (upd_node (a - 1) decReference q)"
proof -
  have q: "pool_inv q" "alive q a" "a \<noteq> x" using j a by (auto simp: joined_def)
  have s: "pool_shape q" "in_range (a - 1) q" "in_range (a - 1) p" "in_range (x - 1) q"
    using q alive_in_range [of a q] alive_in_range [of a p] alive_in_range [of x q] a j by (auto simp: pool_inv_def joined_def)
  have nn: "0 \<le> y - 1" if "alive p y" for y using alive_pos [of y p] that by simp
  have xx: "0 \<le> x - 1" "x - 1 \<noteq> a - 1" using s(4) q(3) by (auto simp: in_range_def)
  have "tn_refs (nd (upd_node (a - 1) decReference q) y) = tn_refs (nd p y)" if y: "alive p y" for y
    using j y s(1,2) p s(3) nn [OF y] by (cases "y = a") (simp_all add: joined_def node_at_upd)
  moreover have "tn_refs (nd (upd_node (a - 1) decReference q) x) = 0"
    using j s xx by (simp add: joined_def node_at_upd)
  moreover have "tn_parent_id (nd (upd_node (a - 1) decReference q) y) = tn_parent_id (nd p y)" if y: "alive p y" for y
    using j y s(1,2) p s(3) nn [OF y] by (cases "y = a") (simp_all add: joined_def node_at_upd decReference_def addReference_def)
  moreover have "pool_inv (upd_node (a - 1) decReference q)" using refs_inv(2) [OF s(1,2)] q(1) by blast
  ultimately show ?thesis using j by (simp add: joined_def)
qed

lemma alive_trace:
  assumes "pool_inv p" and "alive p x"
  obtains r es where "trace_of p r es" and "x \<in> set (r # es)"
  using assms unfolding pool_inv_def by blast

lemma start_event_spec:
  fixes p :: "'d pool"
  assumes inv: "pool_inv p" and t: "trace_of p r es" and par: "par \<in> set (r # es)"
    and run: "StartTrace agent_type now par opts p = (res, p')"
  shows "(res = Inl Out_of_range \<and> p' = p \<and> exhausted p) \<or>
         (\<exists>x. joined p x p' \<and> trace_of p' r (es @ [x]) \<and>
              (\<forall>r' es'. r' \<noteq> r \<longrightarrow> trace_of p r' es' \<longrightarrow> trace_of p' r' es') \<and>
              tn_parent_id (nd p' x) = par \<and> tn_start_time (nd p' x) = now \<and> 
              res = map_sum (\<lambda>e. e) (\<lambda>_. x) (fst (setNodeUserOption opts (new_TraceNode :: 'd trace_node))))"
proof -
  have s: "pool_shape p" using inv by (simp add: pool_inv_def)
  have al: "alive p par" "alive p r" "tn_root_id (nd p par) = r" using t par by (auto simp: trace_of_def)
  define p1 where "p1 = upd_node (par - 1) addReference p"
  define p2 where "p2 = upd_node (r - 1) addReference p1"
  have rng: "in_range (par - 1) p" "in_range (r - 1) p1" "0 < par" "pool_shape p1"
    using al alive_in_range [of par p] alive_in_range [of r p] alive_pos [of par p] s by (auto simp: p1_def)
  have inv2: "pool_inv p2" "\<And>r es. trace_of p2 r es = trace_of p r es"
    using refs_inv [OF rng(4,2), of addReference] refs_inv [OF s rng(1), of addReference] inv by (auto simp: p1_def p2_def)
  obtain res2 q where q: "new_event now opts (par - 1) (r - 1) p2 = (res2, q)" by fastforce
  have rid: "tn_root_id (node_at p1 (par - 1)) = r"
    using al(3) s rng(1) by (simp add: p1_def addReference_def)
  have "StartTrace agent_type now par opts p = (res2, upd_node (par - 1) decReference (upd_node (r - 1) decReference q))"
    using rng(3) al q rid by (simp add: StartTrace_def withNode_alive bindP_def p1_def p2_def)
  then have fin: "res = res2" "p' = upd_node (par - 1) decReference (upd_node (r - 1) decReference q)" using run by auto
  from new_event_spec [OF inv2(1) _ par q, unfolded inv2(2), OF t] show ?thesis
  proof (elim disjE exE conjE)
    assume "res2 = Inl Out_of_range" "q = p2" "exhausted p2"
    then show ?thesis using fin unref [OF rng(4,2)] unref [OF s rng(1)]
      by (simp add: p2_def exhausted_def) (simp add: p1_def)
  next
    fix x
    assume x: "joined p2 x q" "trace_of q r (es @ [x])" "\<forall>r' es'. r' \<noteq> r \<longrightarrow> trace_of p r' es' \<longrightarrow> trace_of q r' es'"
      "tn_parent_id (nd q x) = par" "tn_start_time (nd q x) = now"
      "res2 = map_sum (\<lambda>e. e) (\<lambda>_. x) (fst (setNodeUserOption opts (new_TraceNode :: 'd trace_node)))"
    have "joined p1 x (upd_node (r - 1) decReference q)"
      using joined_ref [OF rng(4) _ x(1) [unfolded p2_def]] al by (simp add: p1_def)
    from joined_ref [OF s al(1) this [unfolded p1_def]] have "joined p x p'" using fin by simp
    moreover have q2: "pool_shape q" "in_range (r - 1) q" "in_range (par - 1) q" "0 \<le> x - 1"
      using x(1) al alive_in_range [of r q] alive_in_range [of par q] alive_pos [of x q]
      by (auto simp: joined_def pool_inv_def p2_def p1_def)
    then have "trace_of p' a b = trace_of q a b" for a b
      by (simp add: fin refs_inv(1))
    moreover have "tn_parent_id (nd p' x) = tn_parent_id (nd q x)" "tn_start_time (nd p' x) = tn_start_time (nd q x)"
      using q2 by (simp_all add: fin node_at_upd decReference_def)
    ultimately show ?thesis using x fin by metis
  qed
qed

section \<open>The traces of a pool\<close>

definition traces :: "'d pool \<Rightarrow> (node_id \<times> node_id list) set" where
  "traces p = {(r, es). trace_of p r es}"

text \<open>A set of traces in which every node in use occurs is the whole set.\<close>

lemma traces_eqI:
  assumes "\<And>r es. (r, es) \<in> F \<Longrightarrow> trace_of p r es" and "\<And>y. alive p y \<Longrightarrow> \<exists>(r, es) \<in> F. y \<in> set (r # es)"
  shows "traces p = F"
proof
  show "F \<subseteq> traces p" using assms(1) by (auto simp: traces_def)
  show "traces p \<subseteq> F"
  proof
    fix t
    assume "t \<in> traces p"
    then obtain r es where t: "t = (r, es)" "trace_of p r es" by (auto simp: traces_def)
    then have "alive p r" by (simp add: trace_of_def)
    then obtain r' es' where f: "(r', es') \<in> F" "r \<in> set (r' # es')" using assms(2) by blast
    then show "t \<in> F" using trace_of_unique [OF t(2) assms(1) [OF f(1)], of r] t(1) by simp
  qed
qed

lemma traces_cover: "pool_inv p \<Longrightarrow> alive p y \<Longrightarrow> \<exists>(r, es) \<in> traces p. y \<in> set (r # es)"
  by (auto simp: traces_def pool_inv_def) 

text \<open>
  The abstract operation: a node \<open>x\<close> started below \<open>par\<close> is a new trace, when \<open>par\<close> is the root mark, or
  else the last event of the trace \<open>par\<close> belongs to.
\<close>

definition grow :: "node_id \<Rightarrow> node_id \<Rightarrow> (node_id \<times> node_id list) set \<Rightarrow> (node_id \<times> node_id list) set" where
  "grow par x T =
     (if par = E_ROOT_NODE then insert (x, []) T
      else (\<lambda>(r, es). if par \<in> set (r # es) then (r, es @ [x]) else (r, es)) ` T)"

lemma traces_PoolManager: "traces (PoolManager :: 'd pool) = {}"
  using PoolManager_unused by (auto simp: traces_def trace_of_def)

lemma traces_root:
  assumes "pool_inv p" and "joined p x p'" and "trace_of p' x []" and "\<forall>r es. trace_of p r es \<longrightarrow> trace_of p' r es"
  shows "traces p' = grow E_ROOT_NODE x (traces p)"
proof (rule traces_eqI)
  show "trace_of p' r es" if "(r, es) \<in> grow E_ROOT_NODE x (traces p)" for r es
    using that assms by (auto simp: traces_def grow_def)
  show "\<exists>(r, es) \<in> grow E_ROOT_NODE x (traces p). y \<in> set (r # es)" if "alive p' y" for y
  proof (cases "y = x")
    case False
    then have "alive p y" using assms(2) that by (simp add: joined_def)
    then show ?thesis using traces_cover [OF assms(1)] by (simp add: grow_def)
  qed (simp add: grow_def)
qed

lemma traces_event:
  assumes "pool_inv p" and "joined p x p'" and t: "trace_of p r es" and par: "par \<in> set (r # es)"
    and "trace_of p' r (es @ [x])" and "\<forall>r' es'. r' \<noteq> r \<longrightarrow> trace_of p r' es' \<longrightarrow> trace_of p' r' es'"
  shows "traces p' = grow par x (traces p)"
proof -
  have "alive p par" using t par by (auto simp: trace_of_def)
  then have par0: "par \<noteq> E_ROOT_NODE" using alive_pos [of par p] by auto
  have mine: "par \<in> set (r' # es') \<longleftrightarrow> r' = r \<and> es' = es" if "trace_of p r' es'" for r' es'
    using trace_of_unique [OF t that par] par by auto
  have one: "es' = es" if "trace_of p r es'" for es'
    using trace_of_unique [OF t that, of r] by simp
  let ?f = "\<lambda>(r, es). if par \<in> set (r # es) then (r, es @ [x]) else (r, es)"
  have f: "?f (r', es') = (if r' = r then (r, es @ [x]) else (r', es'))" if "trace_of p r' es'" for r' es'
    using mine [OF that] one that by auto
  have g: "grow par x (traces p) = ?f ` traces p" using par0 by (simp add: grow_def)
  show ?thesis unfolding g
  proof (rule traces_eqI)
    fix r' es'
    assume "(r', es') \<in> ?f ` traces p"
    then obtain a b where ab: "trace_of p a b" "(r', es') = ?f (a, b)" unfolding traces_def by blast
    then show "trace_of p' r' es'" using f [OF ab(1)] assms(5,6) by (auto split: if_splits)
  next
    fix y
    assume y: "alive p' y"
    have "\<exists>t \<in> traces p. y \<in> set (fst (?f t) # snd (?f t))"
    proof (cases "y = x")
      case True
      then show ?thesis using t f [OF t] by (intro bexI [of _ "(r, es)"]) (auto simp: traces_def)
    next
      case False
      then have "alive p y" using assms(2) y by (simp add: joined_def)
      from alive_trace [OF assms(1) this] obtain a b where "trace_of p a b" "y \<in> set (a # b)" .
      then show ?thesis by (intro bexI [of _ "(a, b)"]) (auto simp: traces_def)
    qed
    then obtain t where "t \<in> traces p" "y \<in> set (fst (?f t) # snd (?f t))" ..
    then show "\<exists>(r', es') \<in> ?f ` traces p. y \<in> set (r' # es')"
      by (intro bexI [of _ "?f t"]) (auto simp: split_beta)
  qed
qed

section \<open>Recording keeps the traces\<close>

lemma frame_withWrapper:
  assumes p: "pool_shape p"
    and body: "\<And>x q. alive p x \<Longrightarrow> pool_shape q \<Longrightarrow> usedNodeSet q = usedNodeSet p \<Longrightarrow> maxId q = maxId p \<Longrightarrow>
                 frame q (snd (body (x - 1) q))"
  shows "frame p (snd (withWrapper nid flag body p))"
proof (cases "flag = E_LOC_ROOT")
  case False
  then show ?thesis using frame_withNode [OF p, of nid body] body [of nid] by (simp add: withWrapper_def)
next
  case True
  have "frame p (snd (withNode nid (\<lambda>i. getP (\<lambda>p. tn_root_id (node_at p i))) p))"
    using p by (rule frame_withNode) (simp add: frame_refl)
  moreover have "frame q (snd (withNode rid body q))" if "frame p q" for rid q
  proof (rule frame_withNode)
    show "frame q' (snd (body (rid - 1) q'))" if q': "alive q rid" "pool_shape q'" "usedNodeSet q' = usedNodeSet q" "maxId q' = maxId q" for q'
      using body [of rid q'] q' \<open>frame p q\<close> frame_alive [OF \<open>frame p q\<close>] by (simp add: frame_def)
  qed (use that frame_shape in blast)
  ultimately show ?thesis using True
    by (auto simp: withWrapper_def bindP_def split: prod.splits sum.splits intro: frame_trans)
qed

lemma jobj_ok: "(\<And>k v. (k, v) \<in> set kvs \<Longrightarrow> jv_ok v) \<Longrightarrow> jv_ok (jobj kvs)"
proof -
  assume "\<And>k v. (k, v) \<in> set kvs \<Longrightarrow> jv_ok v"
  then have "jv_ok o' \<Longrightarrow> jv_ok (fold (\<lambda>(k, v) o'. snd (set_key k v o')) kvs o')" for o'
    by (induction kvs arbitrary: o') (auto, metis set_key_ok)
  then show ?thesis by (simp add: jobj_def)
qed

lemma in_range_alive: "alive p x \<Longrightarrow> usedNodeSet q = usedNodeSet p \<Longrightarrow> maxId q = maxId p \<Longrightarrow> in_range (x - 1) q"
  using alive_in_range [of x p] by (simp add: in_range_def)

lemma frame_annotate:
  assumes "alive p x" and "pool_shape q" and "usedNodeSet q = usedNodeSet p" and "maxId q = maxId p" and "jv_ok v"
  shows "frame q (snd (onNode (x - 1) (AddAnnotation key v) q))"
    and "frame q (snd (onNode (x - 1) (AppendAnnotation key v) q))"
  using assms in_range_alive [OF assms(1,3,4)]
  by (auto intro!: frame_onNode AddAnnotation_ok(2) AppendAnnotation_ok(1) simp: AddAnnotation_eq [of _ _ "nd q x"] AppendAnnotation_eq [of _ _ "nd q x"])

lemma SetStatus_keeps: "skel (SetStatus st n) = skel n" "node_ok (SetStatus st n) = node_ok n"
  by (cases "tn_extra n"; simp add: SetStatus_def skel_def place_def node_ok_def)+

lemma recording_frames:
  assumes p: "pool_shape p"
  shows "frame p (snd (AnnotateTrace_V1 nid key val flag p))" and "frame p (snd (AnnotateTrace_V2 nid key val flag p))"
    and "frame p (snd (AnnotateErrorTrace nid key val line p))"
    and "frame p (snd (AddTraceContext nid key val p))"
    and "frame p (snd (SetAsyncContext nid a b p))"
    and "frame p (snd (ChangeTraceStatus nid st p))"
    and "frame p (snd (AnnotateExceptionTrace now nid key p))"
proof -
  show "frame p (snd (AnnotateTrace_V1 nid key val flag p))"
    using p by (auto simp: AnnotateTrace_V1_def NotInternalKey_def bindP_def frame_refl
        intro!: frame_withWrapper frame_annotate split: if_splits)
  show "frame p (snd (AnnotateTrace_V2 nid key val flag p))"
    using p by (auto simp: AnnotateTrace_V2_def NotInternalKey_def bindP_def frame_refl
        intro!: frame_withWrapper frame_annotate split: if_splits)
  show "frame p (snd (AnnotateErrorTrace nid key val line p))"
    using p by (auto simp: AnnotateErrorTrace_def intro!: frame_withWrapper frame_annotate jobj_ok)
  show "frame p (snd (SetAsyncContext nid a b p))"
    using p by (auto simp: SetAsyncContext_def intro!: frame_withWrapper frame_annotate jobj_ok)
  show "frame p (snd (AddTraceContext nid key val p))"
    using p by (auto simp: AddTraceContext_def setContext_def intro!: frame_withWrapper frame_upd in_range_alive)
  show "frame p (snd (ChangeTraceStatus nid st p))"
    using p by (auto simp: ChangeTraceStatus_def SetStatus_keeps
        intro!: frame_withNode frame_bindP frame_refl frame_upd in_range_alive [of _ q for q])
  have inner: "frame q (snd (withWrapper nid E_LOC_ROOT (\<lambda>root.
       bindP (modifyP (upd_node root (\<lambda>n. n\<lparr>tn_set_exp := True\<rparr>))) (\<lambda>_.
       bindP (getP (\<lambda>p. tn_start_time (node_at p root))) (\<lambda>st.
       onNode (x - 1) (AddAnnotation ''EXP_V2''
         (jobj [(''M'', StringValue key), (''C'', StringValue ''class''), ('':S'', UIntValue (now - st))]))))) q))"
    if "alive p x" "pool_shape q" "usedNodeSet q = usedNodeSet p" "maxId q = maxId p" for x q
    using that
    by (auto intro!: frame_withWrapper frame_bindP frame_upd frame_annotate(1) jobj_ok in_range_alive [of _ q] simp: frame_refl)
  show "frame p (snd (AnnotateExceptionTrace now nid key p))"
    unfolding AnnotateExceptionTrace_def
  proof (rule frame_withWrapper [OF p], rule frame_bindP)
    fix x q u q'
    assume q: "alive p x" "pool_shape q" "usedNodeSet q = usedNodeSet p" "maxId q = maxId p"
    show f: "frame q (snd (modifyP (upd_node (x - 1) (\<lambda>n. n\<lparr>tn_set_exp := True\<rparr>)) q))"
      using q by (auto intro!: frame_upd in_range_alive [of _ p])
    assume "modifyP (upd_node (x - 1) (\<lambda>n. n\<lparr>tn_set_exp := True\<rparr>)) q = (Inr u, q')"
    with q f show "frame q' (snd (withWrapper nid E_LOC_ROOT (\<lambda>root.
       bindP (modifyP (upd_node root (\<lambda>n. n\<lparr>tn_set_exp := True\<rparr>))) (\<lambda>_.
       bindP (getP (\<lambda>p. tn_start_time (node_at p root))) (\<lambda>st.
       onNode (x - 1) (AddAnnotation ''EXP_V2''
         (jobj [(''M'', StringValue key), (''C'', StringValue ''class''), ('':S'', UIntValue (now - st))]))))) q'))"
      by (intro inner) (auto simp: frame_def)
  qed
qed

section \<open>Properties\<close>

text \<open>
  C18: Starting a trace refines the abstract picture of the pool, a set of traces each of which is a
  root with the sequence of its events.  On a well-formed pool \<^verbatim>\<open>StartTrace\<close> fails with an out-of-range
  error and changes nothing when the parent is neither the root mark nor a node in use, and when the
  pool is exhausted.  In every other case a node that was not in use joins: as a new trace without
  events under the root mark, as the last event of the parent's trace, one level below its parent,
  otherwise.  The pool stays well formed and the identifier is returned, unless an option of the
  caller is malformed.
\<close>

theorem start_trace_refines:
  fixes p :: "'d pool"
  assumes inv: "pool_inv p" and run: "StartTrace agent_type now par opts p = (res, p')"
  shows "(res = Inl Out_of_range \<and> p' = p \<and> (par \<noteq> E_ROOT_NODE \<and> \<not> alive p par \<or> exhausted p)) \<or>
         pool_inv p' \<and> (\<exists>x. \<not> alive p x \<and> traces p' = grow par x (traces p) \<and> tn_start_time (nd p' x) = now \<and>
           (if par = E_ROOT_NODE then res = Inr x
            else tn_parent_id (nd p' x) = par \<and> tn_depth (nd p' x) = tn_depth (nd p' par) + 1 \<and>
               res = map_sum (\<lambda>e. e) (\<lambda>_. x) (fst (setNodeUserOption opts (new_TraceNode :: 'd trace_node)))))"
proof (cases "par = E_ROOT_NODE")
  case True
  then have "new_root agent_type now p = (res, p')" using run by (simp add: StartTrace_def)
  from new_root_spec [OF inv this] show ?thesis
  proof (elim disjE exE conjE)
    fix x
    assume x: "res = Inr x" "joined p x p'" "trace_of p' x []" "\<forall>r es. trace_of p r es \<longrightarrow> trace_of p' r es"
      "tn_start_time (nd p' x) = now"
    then have "pool_inv p'" "\<not> alive p x" by (simp_all add: joined_def)
    with traces_root [OF inv x(2-4)] show ?thesis using True x by metis
  qed simp
next
  case False
  show ?thesis
  proof (cases "alive p par")
    case dead: False
    then have "res = Inl Out_of_range \<and> p' = p"
      using run False by (auto simp: StartTrace_def withNode_dead throwP_def split: if_splits)
    then show ?thesis using dead False by simp
  next
    case True
    from alive_trace [OF inv this] obtain r es where t: "trace_of p r es" "par \<in> set (r # es)" .
    from start_event_spec [OF inv t run] show ?thesis
    proof (elim disjE exE conjE)
      fix x
      assume x: "joined p x p'" "trace_of p' r (es @ [x])" "\<forall>r' es'. r' \<noteq> r \<longrightarrow> trace_of p r' es' \<longrightarrow> trace_of p' r' es'"
        "tn_parent_id (nd p' x) = par" "tn_start_time (nd p' x) = now"
        "res = map_sum (\<lambda>e. e) (\<lambda>_. x) (fst (setNodeUserOption opts (new_TraceNode :: 'd trace_node)))"
      have "pool_inv p'" "\<not> alive p x" using x(1) by (simp_all add: joined_def)
      moreover have "event_ok p' r (es @ [x]) (length es)" using x(2) unfolding trace_of_def by simp
      then have "tn_depth (nd p' x) = tn_depth (nd p' par) + 1" using x(4) by (simp add: event_ok_def)
      ultimately show ?thesis using False traces_event [OF inv x(1) t x(2,3)] x(4-6) by metis
    qed simp
  qed
qed

theorem start_trace_refines_witness:
  "\<exists>x y p1 p2. StartTrace 1300 10 0 [] (PoolManager :: unit pool) = (Inr x, p1) \<and> traces p1 = {(x, [])} \<and>
     StartTrace 1300 20 x [''TraceMinTimeMs:5''] p1 = (Inr y, p2) \<and> traces p2 = {(x, [y])}"
proof -
  obtain r1 p1 where r1: "StartTrace 1300 10 0 [] (PoolManager :: unit pool) = (r1, p1)" by fastforce
  have e: "\<not> exhausted (PoolManager :: unit pool)" "traces (PoolManager :: unit pool) = {}"
    by (simp add: exhausted_def PoolManager_def expandOnce_def, rule traces_PoolManager)
  from start_trace_refines [OF PoolManager_inv r1] e obtain x where
    x: "pool_inv p1" "traces p1 = {(x, [])}" "r1 = Inr x" by (auto simp: grow_def)
  obtain r2 p2 where r2: "StartTrace 1300 20 x [''TraceMinTimeMs:5''] p1 = (r2, p2)" by fastforce
  have "trace_of p1 x []" using x(2) by (auto simp: traces_def)
  then have al: "alive p1 x" "x \<noteq> 0" using alive_pos [of x p1] by (auto simp: trace_of_def)
  have "maxId (snd (StartTrace 1300 10 0 [] (PoolManager :: unit pool))) = 128" by code_simp
  then have ne: "\<not> exhausted p1" using r1 by (simp add: exhausted_def)
  have ok: "fst (setNodeUserOption [''TraceMinTimeMs:5''] (new_TraceNode :: unit trace_node)) = Inr ()" by code_simp
  from start_trace_refines [OF x(1) r2] al ne ok x(2) obtain y where "r2 = Inr y" "traces p2 = {(x, [y])}"
    by (auto simp: grow_def)
  then show ?thesis using r1 r2 x by blast
qed

end
