(* ===== verification/Trace_Encoding.thy ===== *)
theory Trace_Encoding
  imports Pool_Invariant
begin

text \<open>
  What \<^verbatim>\<open>PoolManager::EncodeTraceToJsonSpan\<close> (\<^verbatim>\<open>common/src/NodePool/PoolManager.cpp\<close>) makes of a trace: the loop
  over the events comes to its end, and the root's value gains the events' values in order.
\<close>

section \<open>Encoding a trace\<close>

text \<open>A node as the encoder leaves it: ended now, unless it was ended before.\<close>

definition ended :: "u64 \<Rightarrow> 'd trace_node \<Rightarrow> 'd trace_node" where
  "ended now n = (if tn_expired n = - 1 then snd (EndTrace_node now n) else n)"

lemma ended_keeps: "node_ok n \<Longrightarrow> skel (ended now n) = skel n" "node_ok n \<Longrightarrow> node_ok (ended now n)"
  by (simp_all add: ended_def EndTrace_node_ok)

lemma ended_refs:
  assumes "node_ok n"
  shows "decReference (ended now (addReference n)) = ended now n" "tn_value (ended now (addReference n)) = tn_value (ended now n)"
  using assms
  by (simp_all add: ended_def EndTrace_node_eq end_value_def Let_def addReference_def decReference_def)

text \<open>The elements of the event list recorded so far; \<open>None\<close> when the key holds something else.\<close>

fun elements :: "'d jvalue \<Rightarrow> 'd jvalue list option" where
  "elements NullValue = Some []"
| "elements (ArrayValue xs) = Some xs"
| "elements _ = None"

lemma at_key_container: "jv_ok v \<Longrightarrow> container v \<Longrightarrow> \<exists>y. at_key k v = Inr y"
  by (cases v) (auto simp: container_def isNull_def isObject_def at_key_def find_val_def split: option.splits)

lemma append_recorded:
  assumes "node_ok n" and "jv_ok v" and "elements (recorded key n) = Some xs"
  shows "AppendAnnotation key v n = (Inr (), n\<lparr>tn_value := snd (append_key key v (tn_value n))\<rparr>)"
    and "recorded key (n\<lparr>tn_value := snd (append_key key v (tn_value n))\<rparr>) = ArrayValue (xs @ [v])"
    and "k \<noteq> key \<Longrightarrow> recorded k (n\<lparr>tn_value := snd (append_key key v (tn_value n))\<rparr>) = recorded k n"
    and "node_ok (n\<lparr>tn_value := snd (append_key key v (tn_value n))\<rparr>)"
proof -
  obtain y where y: "at_key key (tn_value n) = Inr y" using at_key_container assms(1) unfolding node_ok_def by blast
  then have ey: "elements y = Some xs" using assms(3) by (simp add: recorded_def)
  then have ok: "isNull y \<or> isArray y" "snd (append_val v y) = ArrayValue (xs @ [v])"
    by (cases y; simp add: isNull_def isArray_def append_val_def)+
  note at = append_key_at [OF _ _ y, where x = v]
  show "AppendAnnotation key v n = (Inr (), n\<lparr>tn_value := snd (append_key key v (tn_value n))\<rparr>)"
    using at assms(1) ok by (simp add: AppendAnnotation_eq node_ok_def)
  show "recorded key (n\<lparr>tn_value := snd (append_key key v (tn_value n))\<rparr>) = ArrayValue (xs @ [v])"
    using at assms(1) ok by (simp add: recorded_def node_ok_def)
  show "k \<noteq> key \<Longrightarrow> recorded k (n\<lparr>tn_value := snd (append_key key v (tn_value n))\<rparr>) = recorded k n"
    using at assms(1) by (simp add: recorded_def node_ok_def)
  show "node_ok (n\<lparr>tn_value := snd (append_key key v (tn_value n))\<rparr>)"
    using AppendAnnotation_ok(1) [OF assms(1,2), of key] by (simp add: AppendAnnotation_eq)
qed

lemma encode_round:
  fixes now :: u64
  assumes inv: "pool_inv p" and al: "alive p r" "alive p y" "y \<noteq> r"
  defines "v \<equiv> tn_value (ended now (nd p y))"
  shows "\<exists>p'. withNode y (encode_node now (r - 1)) p =
             (map_sum (\<lambda>e. e) (\<lambda>_. tn_next (nd p y)) (fst (append_key ''event'' v (tn_value (nd p r)))), p') \<and> frame p p' \<and>
           nd p' r = (nd p r)\<lparr>tn_value := snd (append_key ''event'' v (tn_value (nd p r)))\<rparr> \<and>
           (\<forall>z. alive p z \<longrightarrow> z \<noteq> r \<longrightarrow> nd p' z = (if z = y then ended now (nd p y) else nd p z))"
proof -
  have s: "pool_shape p" "in_range (y - 1) p" "in_range (r - 1) p" "node_ok (nd p y)" "node_ok (nd p r)"
    using inv alive_in_range [of y p] alive_in_range [of r p] al by (auto simp: pool_inv_def)
  have ne: "r - 1 \<noteq> y - 1" "y - 1 \<noteq> r - 1" "0 \<le> r - 1" "0 \<le> y - 1"
    using al s(2,3) by (auto simp: in_range_def)
  define p1 where "p1 = upd_node (y - 1) addReference p"
  define p2 where "p2 = upd_node (y - 1) (ended now) p1"
  define p3 where "p3 = upd_node (r - 1) (\<lambda>n. n\<lparr>tn_value := snd (append_key ''event'' v (tn_value n))\<rparr>) p2"
  define p' where "p' = upd_node (y - 1) decReference p3"
  have at1: "node_at p1 j = (if j = y - 1 then addReference (nd p y) else node_at p j)" if "0 \<le> j" for j
    using s that by (simp add: p1_def node_at_upd)
  have sh: "pool_shape p1" "pool_shape p2" "pool_shape p3" "pool_shape p'" "\<And>j. in_range j p1 = in_range j p" "\<And>j. in_range j p2 = in_range j p"
    "\<And>j. in_range j p3 = in_range j p"
    using s by (simp_all add: p1_def p2_def p3_def p'_def)
  have at2: "node_at p2 j = (if j = y - 1 then ended now (addReference (nd p y)) else node_at p j)" if "0 \<le> j" for j
    using at1 that ne(4) sh s by (simp add: p2_def node_at_upd)
  have at': "node_at p' j = (if j = y - 1 then ended now (nd p y) else
      if j = r - 1 then (nd p r)\<lparr>tn_value := snd (append_key ''event'' v (tn_value (nd p r)))\<rparr> else node_at p j)" if "0 \<le> j" for j
    using at2 that ne s sh by (simp add: p'_def p3_def node_at_upd ended_refs)
  have val: "tn_value (node_at p2 (y - 1)) = v" using at2 [OF ne(4)] s(4) by (simp add: v_def ended_refs)
  have vok: "jv_ok v" using ended_keeps(2) [OF s(4), of now] by (simp add: v_def node_ok_def)
  have ap: "node_ok ((nd p r)\<lparr>tn_value := snd (append_key ''event'' v (tn_value (nd p r)))\<rparr>)"
    using AppendAnnotation_ok(1) [OF s(5) vok, of "''event''"] by (simp add: AppendAnnotation_eq)
  have end': "(if tn_expired (node_at p1 (y - 1)) = - 1 then onNode (y - 1) (EndTrace_node now) else returnP ()) p1 = (Inr (), p2)"
  proof (cases "tn_expired (node_at p1 (y - 1)) = - 1")
    case True
    have "node_ok (node_at p1 (y - 1))" using at1 [OF ne(4)] s(4) by simp
    then show ?thesis using True
      by (simp add: EndTrace_node_eq onNode_def p2_def ended_def upd_node_def Let_def node_at_def)
  next
    case False
    then show ?thesis using cell_bounds [OF sh(1), of "y - 1"] sh(5) s(2)
      by (simp add: p2_def ended_def upd_node_def Let_def node_at_def)
  qed
  have app: "onNode (r - 1) (AppendAnnotation ''event'' v) p2 = (fst (append_key ''event'' v (tn_value (nd p r))), p3)"
    using at2 [OF ne(3)] ne by (simp add: AppendAnnotation_eq onNode_def p3_def upd_node_def Let_def node_at_def)
  have "withNode y (encode_node now (r - 1)) p =
      (map_sum (\<lambda>e. e) (\<lambda>_. tn_next (nd p y)) (fst (append_key ''event'' v (tn_value (nd p r)))), p')"
    using end' app at1 [OF ne(4)]
    by (simp add: withNode_alive [OF al(2)] encode_node_def bindP_def p1_def [symmetric] val p'_def [symmetric] addReference_def
        split: sum.splits)
  moreover have "frame p p'"
  proof -
    have "skel (node_at p' j) = skel (node_at p j) \<and> (node_ok (node_at p j) \<longrightarrow> node_ok (node_at p' j))" if "in_range j p" for j
      using at' [of j] that ended_keeps [OF s(4), of now] ap by (simp add: in_range_def)
    then show ?thesis using sh(4) by (simp add: frame_def) (simp add: p'_def p3_def p2_def p1_def)
  qed
  moreover have "nd p' z = (if z = y then ended now (nd p y) else nd p z)" if "alive p z" "z \<noteq> r" for z
    using at' [of "z - 1"] alive_pos [of z p] that ne by simp
  moreover have "nd p' r = (nd p r)\<lparr>tn_value := snd (append_key ''event'' v (tn_value (nd p r)))\<rparr>"
    using at' [OF ne(3)] ne by simp
  ultimately show ?thesis by blast
qed


text \<open>The values of a list of events as the encoder, whose rounds read the clock \<open>clk\<close>, collects them.\<close>

fun event_values :: "(nat \<Rightarrow> u64) \<Rightarrow> nat \<Rightarrow> 'd pool \<Rightarrow> node_id list \<Rightarrow> 'd jvalue list" where
  "event_values clk k p [] = []"
| "event_values clk k p (y # ys) = tn_value (ended (clk k) (nd p y)) # event_values clk (Suc k) p ys"

lemma event_values_cong: "(\<And>y. y \<in> set ys \<Longrightarrow> nd p' y = nd p y) \<Longrightarrow> event_values clk k p' ys = event_values clk k p ys"
  by (induction ys arbitrary: k) auto

lemma links_next: "links p (xs @ y # ys) \<Longrightarrow> tn_next (nd p y) = (case ys of [] \<Rightarrow> E_INVALID_NODE | z # _ \<Rightarrow> z)"
  by (induction p xs rule: links.induct) (auto split: list.splits simp: neq_Nil_conv)

lemma encode_loop_events:
  assumes "pool_inv p" and "trace_of p r (es' @ es)" and "elements (recorded ''event'' (nd p r)) = Some xs"
  shows "\<exists>p'. encode_loop clk k (r - 1) (case es of [] \<Rightarrow> E_INVALID_NODE | y # _ \<Rightarrow> y) p = Some (Inr (), p') \<and> frame p p' \<and>
           nd p' r = (nd p r)\<lparr>tn_value := tn_value (nd p' r)\<rparr> \<and>
           elements (recorded ''event'' (nd p' r)) = Some (xs @ event_values clk k p es) \<and>
           (\<forall>key. key \<noteq> ''event'' \<longrightarrow> recorded key (nd p' r) = recorded key (nd p r))"
  using assms
proof (induction es arbitrary: p k xs es')
  case Nil
  then show ?case by (intro exI [of _ p]) (simp add: encode_loop.simps frame_refl pool_inv_def)
next
  case (Cons y ys)
  have t: "distinct (r # es' @ y # ys)" "links p ((r # es') @ y # ys)" "alive p r" "alive p y" "\<forall>z \<in> set ys. alive p z"
    using Cons.prems(2) by (auto simp: trace_of_def)
  have ok: "node_ok (nd p r)" "node_ok (nd p y)"
    using Cons.prems(1) t alive_in_range [of r p] alive_in_range [of y p] by (auto simp: pool_inv_def)
  let ?v = "tn_value (ended (clk k) (nd p y))"
  from encode_round [OF Cons.prems(1) t(3,4), of "clk k"] t(1) obtain p1 where
    p1: "withNode y (encode_node (clk k) (r - 1)) p =
          (map_sum (\<lambda>e. e) (\<lambda>_. tn_next (nd p y)) (fst (append_key ''event'' ?v (tn_value (nd p r)))), p1)" "frame p p1"
      "nd p1 r = (nd p r)\<lparr>tn_value := snd (append_key ''event'' ?v (tn_value (nd p r)))\<rparr>"
      "\<forall>z. alive p z \<longrightarrow> z \<noteq> r \<longrightarrow> nd p1 z = (if z = y then ended (clk k) (nd p y) else nd p z)" by auto
  have "jv_ok ?v" using ended_keeps(2) [OF ok(2), of "clk k"] by (simp add: node_ok_def)
  note ap = append_recorded [OF ok(1) this Cons.prems(3), folded p1(3)]
  have "trace_of p1 r ((es' @ [y]) @ ys)" using frame_trace [OF p1(2) Cons.prems(2)] by simp
  from Cons.IH [OF frame_inv [OF p1(2) Cons.prems(1)] this, of "xs @ [?v]" "Suc k"] ap(2) obtain p' where
    p': "encode_loop clk (Suc k) (r - 1) (case ys of [] \<Rightarrow> E_INVALID_NODE | y # _ \<Rightarrow> y) p1 = Some (Inr (), p')"
      "frame p1 p'" "nd p' r = (nd p1 r)\<lparr>tn_value := tn_value (nd p' r)\<rparr>"
      "elements (recorded ''event'' (nd p' r)) = Some ((xs @ [?v]) @ event_values clk (Suc k) p1 ys)"
      "\<forall>key. key \<noteq> ''event'' \<longrightarrow> recorded key (nd p' r) = recorded key (nd p1 r)" by auto
  have ev: "event_values clk (Suc k) p1 ys = event_values clk (Suc k) p ys"
    using p1(4) t(1,5) by (intro event_values_cong) auto
  have "y \<noteq> E_INVALID_NODE" using alive_pos [of y p] t(4) by auto
  then have run: "encode_loop clk k (r - 1) y p = Some (Inr (), p')"
    using p'(1) p1(1) ap(1) links_next [OF t(2)] by (subst encode_loop.simps) (simp add: AppendAnnotation_eq)
  have "nd p' r = (nd p r)\<lparr>tn_value := tn_value (nd p' r)\<rparr>" using p'(3) p1(3) by simp
  with run frame_trans [OF p1(2) p'(2)] p'(4,5) ap(3) ev show ?case by (intro exI [of _ p']) simp
qed

text \<open>Something else under the key makes the first round fail.\<close>

lemma encode_loop_blocked:
  assumes inv: "pool_inv p" and t: "trace_of p r (y # es)" and ev: "elements (recorded ''event'' (nd p r)) = None"
  shows "\<exists>p'. encode_loop clk k (r - 1) y p = Some (Inl Logic_error, p') \<and> frame p p'"
proof -
  have al: "alive p r" "alive p y" "y \<noteq> r" "y \<noteq> E_INVALID_NODE" "node_ok (nd p r)"
    using t inv alive_in_range [of r p] alive_pos [of y p] by (auto simp: trace_of_def pool_inv_def)
  from al(5) at_key_container obtain v where v: "at_key ''event'' (tn_value (nd p r)) = Inr v" unfolding node_ok_def by blast
  then have "\<not> isNull v \<and> \<not> isArray v" using ev by (cases v) (auto simp: recorded_def isNull_def isArray_def)
  with append_key_at(1) [OF _ _ v] al(5) have "fst (append_key ''event'' x (tn_value (nd p r))) = Inl Logic_error" for x
    by (simp add: node_ok_def)
  with encode_round [OF inv al(1-3), of "clk k"] al(4) show ?thesis by (subst encode_loop.simps) auto
qed

lemma runUserOptionFunc_keeps:
  "skel (snd (runUserOptionFunc n)) = skel n \<and> tn_value (snd (runUserOptionFunc n)) = tn_value n"
proof -
  have one: "skel (snd (run_option opt m)) = skel m" "tn_value (snd (run_option opt m)) = tn_value m" for opt and m :: "'a trace_node"
    by (simp_all add: run_option_def split: user_option.splits)
  have "skel (snd (run_options opts n)) = skel n \<and> tn_value (snd (run_options opts n)) = tn_value n" for opts
    using one by (induction opts n rule: run_options.induct) (auto simp: Let_def split: prod.splits, (metis snd_conv)+)
  then show ?thesis by (simp add: runUserOptionFunc_def)
qed

text \<open>The value the encoder makes of a trace, and what it leaves in the pool.\<close>

lemma encode_finish:
  assumes t: "trace_of p r es" and f: "frame p q" and q: "encode_loop clk 0 (r - 1) (tn_next (nd p r)) p = Some (Inr (), q)"
  shows "\<exists>p'. EncodeTraceToJsonSpan clk (r - 1) p = Some (Inr (tn_value (nd p' r)), p') \<and> frame p p' \<and>
           tn_value (nd p' r) = tn_value (nd q r)"
proof -
  have root: "IsRootNode (nd p r)" "alive p r" using t by (auto simp: trace_of_def root_ok_def IsRootNode_def)
  let ?p' = "upd_node (r - 1) (\<lambda>n. snd (runUserOptionFunc n)) q"
  have k: "skel (snd (runUserOptionFunc n)) = skel n \<and> tn_value (snd (runUserOptionFunc n)) = tn_value n" for n :: "'a trace_node"
    by (rule runUserOptionFunc_keeps)
  have rng: "in_range (r - 1) q" "pool_shape q" using frame_range [OF f] alive_in_range [OF root(2)] frame_shape [OF f] by auto
  have "frame q ?p'" using rng k by (intro frame_upd) (auto simp: node_ok_def)
  moreover have "tn_value (nd ?p' r) = tn_value (nd q r)" using rng k by simp
  ultimately show ?thesis using q frame_trans [OF f] root(1)
    by (intro exI [of _ ?p']) (simp add: EncodeTraceToJsonSpan_def)
qed

lemma root_next: "trace_of p r es \<Longrightarrow> tn_next (nd p r) = (case es of [] \<Rightarrow> E_INVALID_NODE | z # _ \<Rightarrow> z)"
  using links_next [of p "[]" r es] by (auto simp: trace_of_def)

lemma encode_trace:
  assumes inv: "pool_inv p" and t: "trace_of p r es" and ev: "elements (recorded ''event'' (nd p r)) = Some xs"
  shows "\<exists>v p'. EncodeTraceToJsonSpan clk (r - 1) p = Some (Inr v, p') \<and> frame p p' \<and> v = tn_value (nd p' r) \<and>
           elements (recorded ''event'' (nd p' r)) = Some (xs @ event_values clk 0 p es) \<and>
           (\<forall>key. key \<noteq> ''event'' \<longrightarrow> recorded key (nd p' r) = recorded key (nd p r))"
proof -
  from encode_loop_events [OF inv _ ev, of "[]" es clk 0] t obtain q where
    q: "encode_loop clk 0 (r - 1) (tn_next (nd p r)) p = Some (Inr (), q)" "frame p q"
      "elements (recorded ''event'' (nd q r)) = Some (xs @ event_values clk 0 p es)"
      "\<forall>key. key \<noteq> ''event'' \<longrightarrow> recorded key (nd q r) = recorded key (nd p r)" by (auto simp: root_next)
  with encode_finish [OF t q(2,1)] show ?thesis by (auto simp: recorded_def)
qed

text \<open>The encoder always comes back; it throws only when the key of the events is taken.\<close>

lemma encode_returns:
  assumes inv: "pool_inv p" and t: "trace_of p r es"
  shows "\<exists>x p'. EncodeTraceToJsonSpan clk (r - 1) p = Some (x, p') \<and> frame p p' \<and>
           (if elements (recorded ''event'' (nd p r)) = None \<and> es \<noteq> [] then x = Inl Logic_error
            else x = Inr (tn_value (nd p' r)) \<and> (\<forall>key. key \<noteq> ''event'' \<longrightarrow> recorded key (nd p' r) = recorded key (nd p r)) \<and>
              (es = [] \<or> elements (recorded ''event'' (nd p' r)) =
                 map_option (\<lambda>xs. xs @ event_values clk 0 p es) (elements (recorded ''event'' (nd p r)))))"
proof (cases "elements (recorded ''event'' (nd p r))")
  case (Some xs)
  then show ?thesis using encode_trace [OF inv t Some, of clk] by auto
next
  case None
  have s: "pool_shape p" "IsRootNode (nd p r)" using inv t by (auto simp: pool_inv_def trace_of_def root_ok_def IsRootNode_def)
  show ?thesis
  proof (cases es)
    case Nil
    have "encode_loop clk 0 (r - 1) (tn_next (nd p r)) p = Some (Inr (), p)"
      using root_next [OF t] Nil by (subst encode_loop.simps) simp
    from encode_finish [OF t frame_refl [OF s(1)] this] Nil show ?thesis by (auto simp: recorded_def)
  next
    case (Cons y ys)
    from encode_loop_blocked [OF inv t [unfolded Cons] None, of clk 0] show ?thesis
      using root_next [OF t] Cons None s(2) by (auto simp: EncodeTraceToJsonSpan_def)
  qed
qed

text \<open>
  The span of a trace whose root is closed at \<open>now\<close>: the value of the root, with the values of its
  events, each closed at the time it is looked at unless it was before, appended in the order of the
  events.
\<close>

definition span_value :: "u64 \<Rightarrow> (nat \<Rightarrow> u64) \<Rightarrow> 'd pool \<Rightarrow> node_id \<Rightarrow> node_id list \<Rightarrow> 'd jvalue \<Rightarrow> bool" where
  "span_value now clk p r es v \<longleftrightarrow> jv_ok v \<and>
     at_key '':E'' v = Inr (IntValue (now - tn_start_time (nd p r))) \<and>
     (es = [] \<or> (\<exists>xs. elements (recorded ''event'' (nd p r)) = Some xs \<and>
        at_key ''event'' v = Inr (ArrayValue (xs @ event_values clk 0 p es))))"

lemma EndTrace_node_recorded:
  assumes "node_ok n"
  shows "fst (EndTrace_node now n) = Inr ()"
    and "recorded ''event'' (snd (EndTrace_node now n)) = recorded ''event'' n"
    and "recorded '':E'' (snd (EndTrace_node now n)) = IntValue (now - tn_start_time n)"
  using assms by (simp_all add: EndTrace_node_eq recorded_def end_value_at)

lemma recorded_at: "node_ok n \<Longrightarrow> at_key key (tn_value n) = Inr (recorded key n)"
  using at_key_container [of "tn_value n" key] by (auto simp: node_ok_def recorded_def)

lemma elements_snoc: "elements y = Some xs \<Longrightarrow> xs \<noteq> [] \<Longrightarrow> y = ArrayValue xs"
  by (cases y) auto

lemma encode_span_value:
  assumes inv: "pool_inv q" and t: "trace_of q r es" and enc: "EncodeTraceToJsonSpan clk (r - 1) q = Some (Inr v, p')"
    and ev: "recorded ''event'' (nd q r) = recorded ''event'' (nd p r)"
    and E: "recorded '':E'' (nd q r) = IntValue (now - tn_start_time (nd p r))"
    and es: "\<And>y. y \<in> set es \<Longrightarrow> nd q y = nd p y"
  shows "span_value now clk p r es v"
proof -
  from encode_returns [OF inv t, of clk] enc have
    f: "frame q p'" and v: "v = tn_value (nd p' r)" and keys: "\<forall>key. key \<noteq> ''event'' \<longrightarrow> recorded key (nd p' r) = recorded key (nd q r)"
    and evs: "es = [] \<or> elements (recorded ''event'' (nd p' r)) =
        map_option (\<lambda>xs. xs @ event_values clk 0 q es) (elements (recorded ''event'' (nd q r)))"
      "elements (recorded ''event'' (nd q r)) = None \<longrightarrow> es = []"
    by (auto split: if_splits)
  have "alive q r" using t by (simp add: trace_of_def)
  then have ok: "node_ok (nd p' r)" using inv frame_node(3) [OF f, of "r - 1"] alive_in_range [of r q] by (simp add: pool_inv_def)
  have "at_key '':E'' v = Inr (IntValue (now - tn_start_time (nd p r)))"
    using recorded_at [OF ok, of "'':E''"] keys E v by simp
  moreover have "\<exists>xs. elements (recorded ''event'' (nd p r)) = Some xs \<and> at_key ''event'' v = Inr (ArrayValue (xs @ event_values clk 0 p es))"
    if ne: "es \<noteq> []"
  proof -
    obtain xs where xs: "elements (recorded ''event'' (nd q r)) = Some xs" using evs(2) ne by fastforce
    have "event_values clk 0 q es \<noteq> []" using ne by (cases es) simp_all
    then have "recorded ''event'' (nd p' r) = ArrayValue (xs @ event_values clk 0 q es)"
      using evs(1) xs ne by (intro elements_snoc) simp_all
    then show ?thesis using recorded_at [OF ok, of "''event''"] v xs ev event_values_cong [of es q p] es by simp
  qed
  ultimately show ?thesis using ok v by (auto simp: span_value_def node_ok_def)
qed

end
