(* ===== verification/Chunks.thy ===== *)
theory Chunks
  imports PP_Prelude
begin

text \<open>
  The send buffer, \<^verbatim>\<open>common/src/Cache/Chunk.h\<close> and \<^verbatim>\<open>Chunk.cpp\<close>: a list of chunks waiting to be
  sent (\<open>ready_cks\<close>) and a list of chunks kept for reuse (\<open>free_cks\<close>).  Sizes and offsets are
  32-bit words as in the sources; the memory behind a chunk header is a function from offsets to
  characters.  The member \<^verbatim>\<open>iter\<close> is a cursor that every loop sets to the front of its list before
  use, so it is not part of the state.  \<^verbatim>\<open>malloc\<close> is an argument: \<open>None\<close> is \<^verbatim>\<open>NULL\<close>, \<open>Some m\<close> a block
  with arbitrary content \<open>m\<close>.
\<close>

unbundle bit_operations_syntax

section \<open>State\<close>

record data_chunk =
  block_size :: u32
  l_ofs :: u32
  r_ofs :: u32
  ck_mem :: "nat \<Rightarrow> char"

record chunks =
  ready_cks :: "data_chunk list"
  free_cks :: "data_chunk list"
  c_resident_size :: u32
  c_max_size :: u32
  threshold :: u32
  ck_alloc_size :: u32
  ck_free_ck_capacity :: u32

type_synonym allocator = "int \<Rightarrow> (nat \<Rightarrow> char) option"

abbreviation sizeof_DataChunk :: u32 where
  "sizeof_DataChunk \<equiv> 12"

definition mem_write :: "(nat \<Rightarrow> char) \<Rightarrow> nat \<Rightarrow> bytes \<Rightarrow> nat \<Rightarrow> char" where
  "mem_write m ofs d = (\<lambda>i. if ofs \<le> i \<and> i < ofs + length d then d ! (i - ofs) else m i)"

text \<open>\<^verbatim>\<open>memcpy\<close> of \<open>n\<close> bytes to the write offset, and the advance of that offset.\<close>

definition fill_ck :: "data_chunk \<Rightarrow> bytes \<Rightarrow> u32 \<Rightarrow> data_chunk" where
  "fill_ck ck d n =
     ck\<lparr>ck_mem := mem_write (ck_mem ck) (unat (r_ofs ck)) (take (unat n) d), r_ofs := r_ofs ck + n\<rparr>"

section \<open>Operations\<close>

definition new_Chunks :: "u32 \<Rightarrow> u32 \<Rightarrow> cpp_exn + chunks" where
  "new_Chunks max_size resident_size =
     (if max_size < resident_size then Inl Invalid_argument
      else Inr \<lparr>ready_cks = [], free_cks = [], c_resident_size = resident_size,
                c_max_size = max_size, threshold = 1024, ck_alloc_size = 0,
                ck_free_ck_capacity = 0\<rparr>)"

definition copyDataIntoReadyCK :: "bytes \<Rightarrow> u32 \<Rightarrow> chunks \<Rightarrow> u32 \<times> chunks" where
  "copyDataIntoReadyCK data len c =
     (if ready_cks c = [] then (len, c)
      else
        let ck = last (ready_cks c); capacity = block_size ck - r_ofs ck in
        if len \<le> capacity then
          (0, c\<lparr>ready_cks := butlast (ready_cks c) @ [fill_ck ck data len]\<rparr>)
        else if 0 < capacity then
          (len - capacity, c\<lparr>ready_cks := butlast (ready_cks c) @ [fill_ck ck data capacity]\<rparr>)
        else (len, c))"

text \<open>The loop over the free list; its first argument is the free list at the cursor.\<close>

fun free_loop :: "data_chunk list \<Rightarrow> bytes \<Rightarrow> u32 \<Rightarrow> chunks \<Rightarrow> u32 \<times> chunks" where
  "free_loop [] data len c = (len, c)"
| "free_loop (ck # fs) data len c =
     (if 0 < len then
        let capacity = block_size ck - r_ofs ck;
            (ck', len', data') =
              (if len \<le> capacity then (fill_ck ck data len, 0, data)
               else if 0 < capacity then
                 (fill_ck ck data capacity, len - capacity, drop (unat capacity) data)
               else (ck, len, data))
        in free_loop fs data' len'
             (c\<lparr>ck_free_ck_capacity := ck_free_ck_capacity c - block_size ck,
                free_cks := fs, ready_cks := ready_cks c @ [ck']\<rparr>)
      else (len, c))"

definition copyDataIntoFreeCK :: "bytes \<Rightarrow> u32 \<Rightarrow> chunks \<Rightarrow> u32 \<times> chunks" where
  "copyDataIntoFreeCK data len c =
     (if free_cks c = [] then (len, c) else free_loop (free_cks c) data len c)"

text \<open>The search for the highest bit of \<open>i\<close>, from bit \<open>k\<close> downwards.\<close>

function high_bit :: "u32 \<Rightarrow> u32 \<Rightarrow> u32" where
  "high_bit k i = (if k \<noteq> 0 \<and> k AND i = 0 then high_bit (drop_bit 1 k) i else k)"
  by pat_completeness auto
termination
proof (relation "measure (\<lambda>(k, _). unat k)", goal_cases)
  case (2 k i)
  then have "0 < unat k" by (simp add: unat_gt_0)
  then show ?case by (simp add: unat_div drop_bit_Suc)
qed simp

declare high_bit.simps [simp del]

definition ck_ceil_to_k :: "u32 \<Rightarrow> chunks \<Rightarrow> u32" where
  "ck_ceil_to_k i c =
     (if i < threshold c then threshold c else push_bit 1 (high_bit 0x80000000 i))"

definition copyDataIntoNewChunk :: "allocator \<Rightarrow> bytes \<Rightarrow> u32 \<Rightarrow> chunks \<Rightarrow> int \<times> chunks" where
  "copyDataIntoNewChunk malloc data len c =
     (let mem_size = ck_ceil_to_k (sizeof_DataChunk + len) c in
      case malloc (sint mem_size) of
        None \<Rightarrow> (- 1, c)
      | Some m \<Rightarrow>
          (let ck = \<lparr>block_size = mem_size - sizeof_DataChunk, l_ofs = 0, r_ofs = len,
                     ck_mem = mem_write m 0 (take (unat len) data)\<rparr>
           in (0, c\<lparr>ready_cks := ready_cks c @ [ck], ck_alloc_size := ck_alloc_size c + mem_size\<rparr>)))"

definition reduceFreeCK :: "chunks \<Rightarrow> chunks" where
  "reduceFreeCK c =
     (case free_cks c of
        [] \<Rightarrow> c
      | ck # fs \<Rightarrow>
          c\<lparr>free_cks := fs,
            ck_alloc_size := ck_alloc_size c - (block_size ck + sizeof_DataChunk),
            ck_free_ck_capacity := ck_free_ck_capacity c - block_size ck\<rparr>)"

function checkWaterLevel :: "chunks \<Rightarrow> chunks" where
  "checkWaterLevel c =
     (if c_resident_size c < ck_alloc_size c \<and> free_cks c \<noteq> [] then checkWaterLevel (reduceFreeCK c)
      else c)"
  by pat_completeness auto
termination
  by (relation "measure (\<lambda>c. length (free_cks c))") (auto simp: reduceFreeCK_def neq_Nil_conv)

declare checkWaterLevel.simps [simp del]

definition getAllocSize :: "chunks \<Rightarrow> u32" where
  "getAllocSize c = ck_alloc_size c"

text \<open>The destructor: the blocks handed to \<^verbatim>\<open>free\<close>, in order.\<close>

definition delete_Chunks :: "chunks \<Rightarrow> data_chunk list \<times> chunks" where
  "delete_Chunks c =
     (ready_cks c @ free_cks c, c\<lparr>ready_cks := [], free_cks := [], ck_free_ck_capacity := 0\<rparr>)"

definition useExistingChunk :: "u32 \<Rightarrow> chunks \<Rightarrow> bool" where
  "useExistingChunk len c =
     (if ready_cks c \<noteq> [] then
        let ck = last (ready_cks c); available = block_size ck - r_ofs ck in
        if available < len then False else len - available \<le> ck_free_ck_capacity c
      else len \<le> ck_free_ck_capacity c)"

definition checkCapacity :: "u32 \<Rightarrow> chunks \<Rightarrow> bool" where
  "checkCapacity len c =
     (if \<not> useExistingChunk len c \<and> c_max_size c < ck_alloc_size c + len then False else True)"

definition copyDataIntoChunks :: "allocator \<Rightarrow> bytes \<Rightarrow> u32 \<Rightarrow> chunks \<Rightarrow> int \<times> chunks" where
  "copyDataIntoChunks malloc data len c =
     (let (ret, c) = copyDataIntoReadyCK data len c in
      if ret = 0 then (0, c)
      else
        let data = drop (unat (len - ret)) data; len = ret;
            (ret, c) = copyDataIntoFreeCK data len c in
        if ret = 0 then (0, c)
        else
          let data = drop (unat (len - ret)) data; len = ret;
              (r, c) = copyDataIntoNewChunk malloc data len c in
          if r = - 1 then (- 1, c) else (0, c))"

text \<open>The bytes a chunk still has to send.\<close>

definition ck_bytes :: "data_chunk \<Rightarrow> bytes" where
  "ck_bytes ck = map (ck_mem ck) [unat (l_ofs ck)..<unat (r_ofs ck)]"

text \<open>
  The drain loop.  The callback \<open>pipe\<close> receives the bytes of the front chunk and returns the number
  it took (or a value that is not positive); it has a state of its own.  A callback that claims to
  have taken more than it was given leaves the loop where it is, so the loop may not end: that is
  the value \<open>None\<close>.
\<close>

partial_function (option) drain_loop ::
  "('p \<Rightarrow> bytes \<Rightarrow> int \<times> 'p) \<Rightarrow> 'p \<Rightarrow> chunks \<Rightarrow> (int \<times> 'p \<times> chunks) option" where
  "drain_loop pipe p c =
     (case ready_cks c of
        [] \<Rightarrow> Some (0, p, checkWaterLevel c)
      | cur # rs \<Rightarrow>
          (let cur_size = r_ofs cur - l_ofs cur; (ret, p') = pipe p (ck_bytes cur) in
           if ret \<le> 0 then Some (ret, p', c)
           else if ret = sint cur_size then
             drain_loop pipe p'
               (c\<lparr>ck_free_ck_capacity := ck_free_ck_capacity c + block_size cur,
                  free_cks := cur\<lparr>l_ofs := 0, r_ofs := 0\<rparr> # free_cks c, ready_cks := rs\<rparr>)
           else if ret < sint cur_size then
             drain_loop pipe p' (c\<lparr>ready_cks := cur\<lparr>l_ofs := l_ofs cur + word_of_int ret\<rparr> # rs\<rparr>)
           else drain_loop pipe p' c))"

definition drainOutWithPipe ::
  "('p \<Rightarrow> bytes \<Rightarrow> int \<times> 'p) \<Rightarrow> 'p \<Rightarrow> chunks \<Rightarrow> (int \<times> 'p \<times> chunks) option" where
  "drainOutWithPipe pipe p c = (if ready_cks c = [] then Some (0, p, c) else drain_loop pipe p c)"

fun reset_loop :: "data_chunk list \<Rightarrow> chunks \<Rightarrow> chunks" where
  "reset_loop [] c = c"
| "reset_loop (ck # rs) c =
     reset_loop rs
       (c\<lparr>ready_cks := rs, ck_free_ck_capacity := ck_free_ck_capacity c + block_size ck,
          free_cks := free_cks c @ [ck\<lparr>l_ofs := 0, r_ofs := 0\<rparr>]\<rparr>)"

definition resetChunks :: "chunks \<Rightarrow> chunks" where
  "resetChunks c = checkWaterLevel (reset_loop (ready_cks c) c)"

section \<open>The byte queue behind the chunks\<close>

definition content :: "chunks \<Rightarrow> bytes" where
  "content c = concat (map ck_bytes (ready_cks c))"

text \<open>
  Every ready chunk has something to send and its offsets stay inside its block; a free chunk is
  empty.  The two counters are the sums they stand for, in the 32-bit arithmetic of the sources.
\<close>

definition ready_ok :: "data_chunk \<Rightarrow> bool" where
  "ready_ok ck \<longleftrightarrow> l_ofs ck < r_ofs ck \<and> r_ofs ck \<le> block_size ck \<and> block_size ck < 2 ^ 31"

definition free_ok :: "data_chunk \<Rightarrow> bool" where
  "free_ok ck \<longleftrightarrow> l_ofs ck = 0 \<and> r_ofs ck = 0 \<and> 0 < block_size ck \<and> block_size ck < 2 ^ 31"

abbreviation footprint :: "data_chunk list \<Rightarrow> u32" where
  "footprint cks \<equiv> (\<Sum>ck \<leftarrow> cks. block_size ck + sizeof_DataChunk)"

abbreviation capacity_of :: "data_chunk list \<Rightarrow> u32" where
  "capacity_of cks \<equiv> (\<Sum>ck \<leftarrow> cks. block_size ck)"

definition chunks_inv :: "chunks \<Rightarrow> bool" where
  "chunks_inv c \<longleftrightarrow> list_all ready_ok (ready_cks c) \<and> list_all free_ok (free_cks c) \<and>
     ck_alloc_size c = footprint (ready_cks c @ free_cks c) \<and>
     ck_free_ck_capacity c = capacity_of (free_cks c) \<and> threshold c = 1024"

lemma mem_write_read:
  "unat l \<le> r \<Longrightarrow> map (mem_write m r d) [unat l..<r + length d] = map m [unat l..<r] @ d"
  by (rule nth_equalityI) (auto simp: mem_write_def nth_append add.commute)

lemma unat_add_le:
  fixes r n b :: u32
  assumes "r \<le> b" and "n \<le> b - r"
  shows "unat (r + n) = unat r + unat n" and "r + n \<le> b"
proof -
  have "unat r + unat n \<le> unat b"
    using assms by (simp add: word_le_nat_alt unat_sub)
  moreover have "unat b < 2 ^ LENGTH(32)" by (rule unsigned_less)
  ultimately show u: "unat (r + n) = unat r + unat n" by (intro unat_add_lem [THEN iffD1]) simp
  with \<open>unat r + unat n \<le> unat b\<close> show "r + n \<le> b" by (simp add: word_le_nat_alt)
qed

lemma fill_ck_fields [simp]:
  "block_size (fill_ck ck d n) = block_size ck" "l_ofs (fill_ck ck d n) = l_ofs ck"
  "r_ofs (fill_ck ck d n) = r_ofs ck + n"
  by (simp_all add: fill_ck_def)

lemma ck_bytes_fill:
  assumes "l_ofs ck \<le> r_ofs ck" and "r_ofs ck \<le> block_size ck" and "n \<le> block_size ck - r_ofs ck"
    and "unat n \<le> length d"
  shows "ck_bytes (fill_ck ck d n) = ck_bytes ck @ take (unat n) d"
  using assms unat_add_le [OF assms(2,3)] mem_write_read [of "l_ofs ck" "unat (r_ofs ck)" _ "take (unat n) d"]
  by (simp add: ck_bytes_def fill_ck_def word_le_nat_alt min.absorb2)

lemma fill_ck_ready:
  assumes "l_ofs ck \<le> r_ofs ck" and "r_ofs ck \<le> block_size ck" and "block_size ck < 2 ^ 31"
    and "n \<le> block_size ck - r_ofs ck" and "l_ofs ck < r_ofs ck \<or> 0 < n"
  shows "ready_ok (fill_ck ck d n)"
  using assms unat_add_le [OF assms(2,4)]
  by (auto simp: ready_ok_def word_less_nat_alt word_le_nat_alt)

lemma ck_bytes_nonempty: "ready_ok ck \<Longrightarrow> ck_bytes ck \<noteq> []"
  by (simp add: ready_ok_def ck_bytes_def word_less_nat_alt)

lemma content_Nil_iff: "chunks_inv c \<Longrightarrow> content c = [] \<longleftrightarrow> ready_cks c = []"
  by (cases "ready_cks c") (auto simp: content_def chunks_inv_def ck_bytes_nonempty)

text \<open>
  What a copying step promises: it keeps the invariant and appends the bytes it reports as taken
  (\<open>len - ret\<close> of them) to the content.
\<close>

definition absorbed :: "chunks \<Rightarrow> bytes \<Rightarrow> u32 \<Rightarrow> u32 \<Rightarrow> chunks \<Rightarrow> bool" where
  "absorbed c data len ret c' \<longleftrightarrow>
     chunks_inv c' \<and> ret \<le> len \<and> content c' = content c @ take (unat (len - ret)) data"

lemma absorbed_refl: "chunks_inv c \<Longrightarrow> absorbed c data len len c"
  by (simp add: absorbed_def)

lemma absorbed_trans:
  assumes "absorbed c data len ret c1"
    and "absorbed c1 (drop (unat (len - ret)) data) ret ret' c2"
  shows "absorbed c data len ret' c2"
proof -
  have "ret \<le> len" and "ret' \<le> ret" using assms by (auto simp: absorbed_def)
  then have "unat (len - ret') = unat (len - ret) + unat (ret - ret')"
    by (simp add: unat_sub word_le_nat_alt)
  with assms \<open>ret \<le> len\<close> \<open>ret' \<le> ret\<close> show ?thesis by (auto simp: absorbed_def take_add)
qed

lemma absorbed_done:
  "absorbed c data len 0 c' \<Longrightarrow> length data = unat len \<Longrightarrow> chunks_inv c' \<and> content c' = content c @ data"
  by (simp add: absorbed_def)

lemma chunks_inv_last:
  assumes "chunks_inv c" and "ready_cks c \<noteq> []"
  shows "ready_ok (last (ready_cks c))"
  using assms by (auto simp: chunks_inv_def list_all_iff)

text \<open>Replacing the last ready chunk by one of the same size that starts with the same bytes.\<close>

lemma absorbed_last:
  assumes inv: "chunks_inv c" and ne: "ready_cks c \<noteq> []" and "n \<le> len" and "unat n \<le> length data"
    and n: "n \<le> block_size (last (ready_cks c)) - r_ofs (last (ready_cks c))"
  shows "absorbed c data len (len - n)
           (c\<lparr>ready_cks := butlast (ready_cks c) @ [fill_ck (last (ready_cks c)) data n]\<rparr>)"
proof -
  obtain rs ck where rs: "ready_cks c = rs @ [ck]" using ne by (metis append_butlast_last_id)
  have ok: "ready_ok ck" using chunks_inv_last [OF inv ne] rs by simp
  then have "l_ofs ck \<le> r_ofs ck" "r_ofs ck \<le> block_size ck" "block_size ck < 2 ^ 31" "l_ofs ck < r_ofs ck"
    by (auto simp: ready_ok_def)
  then have "ready_ok (fill_ck ck data n)" "ck_bytes (fill_ck ck data n) = ck_bytes ck @ take (unat n) data"
    using n rs assms(4) fill_ck_ready [of ck n data] ck_bytes_fill [of ck n data] by auto
  moreover have "len - (len - n) = n" and "len - n \<le> len" using assms(3) by (auto simp: word_sub_le)
  ultimately show ?thesis
    using inv rs by (auto simp: absorbed_def chunks_inv_def content_def)
qed

lemma copyDataIntoReadyCK_absorbed:
  assumes "chunks_inv c" and "unat len \<le> length data" and "copyDataIntoReadyCK data len c = (ret, c')"
  shows "absorbed c data len ret c'"
proof (cases "ready_cks c = []")
  case True
  with assms show ?thesis by (simp add: copyDataIntoReadyCK_def absorbed_refl)
next
  case False
  let ?cap = "block_size (last (ready_cks c)) - r_ofs (last (ready_cks c))"
  show ?thesis
  proof (cases "len \<le> ?cap")
    case True
    with False assms absorbed_last [of c len len data] show ?thesis
      by (auto simp: copyDataIntoReadyCK_def Let_def)
  next
    case cap: False
    then have "?cap \<le> len" by simp
    moreover from this have "unat ?cap \<le> length data" using assms(2) by (simp add: word_le_nat_alt)
    ultimately show ?thesis
      using False cap assms absorbed_last [of c ?cap len data] absorbed_refl [of c data len]
      by (auto simp: copyDataIntoReadyCK_def Let_def split: if_splits)
  qed
qed

lemma absorbed_reuse:
  assumes inv: "chunks_inv c" and "free_cks c = ck # fs"
    and "n \<le> block_size ck" and "0 < n" and "n \<le> len" and "unat n \<le> length data"
  shows "absorbed c data len (len - n)
           (c\<lparr>ck_free_ck_capacity := ck_free_ck_capacity c - block_size ck,
              free_cks := fs, ready_cks := ready_cks c @ [fill_ck ck data n]\<rparr>)"
proof -
  have ok: "free_ok ck" using assms(1,2) by (simp add: chunks_inv_def)
  then have "ready_ok (fill_ck ck data n)" "ck_bytes (fill_ck ck data n) = take (unat n) data"
    using assms(3,4,6) fill_ck_ready [of ck n data] ck_bytes_fill [of ck n data]
    by (auto simp: free_ok_def ck_bytes_def)
  moreover have "len - (len - n) = n" and "len - n \<le> len" using assms(5) by (auto simp: word_sub_le)
  ultimately show ?thesis
    using inv assms(2) by (auto simp: absorbed_def chunks_inv_def content_def)
qed

lemma free_loop_absorbed:
  assumes "chunks_inv c" and "unat len \<le> length data" and "free_loop (free_cks c) data len c = (ret, c')"
  shows "absorbed c data len ret c'"
  using assms
proof (induction "free_cks c" arbitrary: c data len)
  case Nil
  then show ?case by (auto simp: absorbed_refl simp flip: Nil.hyps)
next
  case (Cons ck fs)
  have ok: "free_ok ck" using Cons.prems(1) Cons.hyps(2) [symmetric] by (simp add: chunks_inv_def)
  then have bs: "block_size ck - r_ofs ck = block_size ck" "0 < block_size ck" by (auto simp: free_ok_def)
  define n where "n = min len (block_size ck)"
  define c1 where "c1 = c\<lparr>ck_free_ck_capacity := ck_free_ck_capacity c - block_size ck,
              free_cks := fs, ready_cks := ready_cks c @ [fill_ck ck data n]\<rparr>"
  show ?case
  proof (cases "len = 0")
    case True
    with Cons.prems Cons.hyps(2) [symmetric] show ?thesis by (simp add: absorbed_refl)
  next
    case False
    have n: "n \<le> len" "n \<le> block_size ck" "0 < n" "unat n \<le> length data"
      using False bs(2) Cons.prems(2) by (auto simp: n_def word_gt_0 min_def word_le_nat_alt)
    have a1: "absorbed c data len (len - n) c1"
      unfolding c1_def using Cons.prems(1) Cons.hyps(2) [symmetric] n by (intro absorbed_reuse) auto
    have run: "free_loop (free_cks c1) (drop (unat n) data) (len - n) c1 = (ret, c')"
      using Cons.prems(3) Cons.hyps(2) [symmetric] False bs
      by (auto simp: c1_def n_def Let_def word_gt_0 min_def split: if_splits)
        (cases fs; simp)+
    have le: "unat (len - n) \<le> length (drop (unat n) data)"
      using n Cons.prems(2) by (simp add: unat_sub)
    have "absorbed c1 (drop (unat n) data) (len - n) ret c'"
      using run le a1 by (intro Cons.hyps(1)) (auto simp: c1_def absorbed_def)
    moreover have "len - (len - n) = n" by simp
    ultimately show ?thesis using absorbed_trans [OF a1] by simp
  qed
qed

lemma copyDataIntoFreeCK_absorbed:
  assumes "chunks_inv c" and "unat len \<le> length data" and "copyDataIntoFreeCK data len c = (ret, c')"
  shows "absorbed c data len ret c'"
  using assms free_loop_absorbed [of c len data ret c']
  by (auto simp: copyDataIntoFreeCK_def absorbed_refl split: if_splits)

section \<open>Sizes of new chunks\<close>

lemma low_bit_free:
  assumes "n < 2 ^ Suc j" and "\<not> bit n j"
  shows "(n :: nat) < 2 ^ j"
proof -
  have "n div 2 ^ j < 2" using assms(1) by (simp add: div_less_iff_less_mult mult.commute)
  moreover have "even (n div 2 ^ j)" using assms(2) by (simp add: bit_iff_odd)
  ultimately have "n div 2 ^ j = 0" by (cases "n div 2 ^ j = 1") auto
  then show ?thesis by (simp add: div_eq_0_iff)
qed

lemma high_bit_spec:
  assumes "j < 32" and "unat i < 2 ^ Suc j" and "i \<noteq> 0"
  shows "\<exists>m \<le> j. high_bit (2 ^ j) i = 2 ^ m \<and> 2 ^ m \<le> unat i \<and> unat i < 2 ^ Suc m"
  using assms
proof (induction j)
  case 0
  have "0 < unat i" using \<open>i \<noteq> 0\<close> by (simp add: unat_gt_0)
  with 0(2) have "unat i = unat (1 :: u32)" by simp
  then have "i = 1" by (rule unsigned_word_eqI)
  then show ?case by (subst high_bit.simps) simp
next
  case (Suc j)
  have nz: "(2 :: u32) ^ Suc j \<noteq> 0" 
    using exp_eq_zero_iff [where 'a = 32, of "Suc j"] Suc.prems(1) by (simp del: power_Suc)
  have sh: "drop_bit 1 (2 ^ Suc j :: u32) = 2 ^ j"
    using Suc.prems(1) by (intro bit_word_eqI) (auto simp: bit_drop_bit_eq bit_exp_iff simp del: power_Suc)
  have tst: "2 ^ Suc j AND i = 0 \<longleftrightarrow> \<not> bit i (Suc j)"
    by (simp only: and.commute [of "2 ^ Suc j"] and_exp_eq_0_iff_not_bit)
  show ?case
  proof (cases "bit i (Suc j)")
    case True
    then have "bit (unat i) (Suc j)" by (simp add: bit_unsigned_iff)
    then have "2 ^ Suc j \<le> unat i" 
      by (cases "unat i < 2 ^ Suc j") (auto simp: bit_iff_odd simp del: power_Suc)
    moreover have "high_bit (2 ^ Suc j) i = 2 ^ Suc j"
      by (subst high_bit.simps) (simp only: tst True simp_thms if_False)
    ultimately show ?thesis using Suc.prems(2) by blast
  next
    case False
    then have "unat i < 2 ^ Suc j"
      using Suc.prems(2) by - (rule low_bit_free, assumption, simp add: bit_unsigned_iff)
    moreover have "high_bit (2 ^ Suc j) i = high_bit (2 ^ j) i"
      by (subst high_bit.simps) (simp only: tst nz sh False simp_thms if_True)
    moreover have "j < 32" using Suc.prems(1) by simp
    ultimately show ?thesis
      using Suc.IH Suc.prems(3) le_SucI by metis
  qed
qed

lemma unat_two_power: "n < 32 \<Longrightarrow> unat (2 ^ n :: u32) = 2 ^ n"
proof -
  assume "n < 32"
  then have "unat (word_of_nat (2 ^ n) :: u32) = 2 ^ n"
    by (simp add: unsigned_of_nat take_bit_nat_eq_self del: of_nat_power)
  then show ?thesis by simp
qed

text \<open>
  \<^verbatim>\<open>ck_ceil_to_k\<close> rounds up to a power of two that is larger than its argument, at least the
  threshold and at most twice the argument.
\<close>

lemma ck_ceil_to_k_bounds:
  assumes "threshold c = 1024" and "unat i < 2 ^ 30"
  shows "unat i < unat (ck_ceil_to_k i c)" and "unat (ck_ceil_to_k i c) \<le> max 1024 (2 * unat i)"
    and "unat (ck_ceil_to_k i c) \<le> 2 ^ 30"
proof -
  have "unat i < unat (ck_ceil_to_k i c) \<and> unat (ck_ceil_to_k i c) \<le> max 1024 (2 * unat i) \<and>
        unat (ck_ceil_to_k i c) \<le> 2 ^ 30"
  proof (cases "i < 1024")
    case True
    then show ?thesis using assms(1) by (simp add: ck_ceil_to_k_def word_less_nat_alt)
  next
    case False
    then have "i \<noteq> 0" by auto
    have "unat i < 2 ^ Suc 31" using assms(2) by simp
    from high_bit_spec [OF _ this \<open>i \<noteq> 0\<close>] obtain m where
      m: "m \<le> 31" "high_bit (2 ^ 31) i = 2 ^ m" "2 ^ m \<le> unat i" "unat i < 2 ^ Suc m" by auto
    have "(2 :: nat) ^ m < 2 ^ 30" using m(3) assms(2) by linarith
    then have "m < 30" by (rule power_less_imp_less_exp [of "2 :: nat", rotated]) simp
    have "ck_ceil_to_k i c = 2 ^ Suc m"
      using False m(2) assms(1) by (simp add: ck_ceil_to_k_def push_bit_eq_mult)
    then have u: "unat (ck_ceil_to_k i c) = 2 ^ Suc m" using unat_two_power [of "Suc m"] \<open>m < 30\<close> by simp
    have "(2 :: nat) ^ Suc m \<le> 2 ^ 30" using \<open>m < 30\<close> by (intro power_increasing) auto
    with u m show ?thesis by (simp add: max_def)
  qed
  then show "unat i < unat (ck_ceil_to_k i c)" and "unat (ck_ceil_to_k i c) \<le> max 1024 (2 * unat i)"
    and "unat (ck_ceil_to_k i c) \<le> 2 ^ 30" by auto
qed

lemma copyDataIntoNewChunk_absorbed:
  assumes inv: "chunks_inv c" and len: "unat len \<le> length data" "0 < len" "unat len + 12 < 2 ^ 30"
    and run: "copyDataIntoNewChunk malloc data len c = (r, c')"
  shows "(r = 0 \<and> absorbed c data len 0 c') \<or> (r = - 1 \<and> c' = c)"
proof -
  let ?sz = "ck_ceil_to_k (sizeof_DataChunk + len) c"
  have u: "unat (sizeof_DataChunk + len) = 12 + unat len"
    using len(3) by (subst unat_add_lem [THEN iffD1]) auto
  have sz: "12 + unat len < unat ?sz" "unat ?sz \<le> 2 ^ 30"
    using ck_ceil_to_k_bounds [of c "sizeof_DataChunk + len"] inv len(3) u by (auto simp: chunks_inv_def)
  have b: "unat (?sz - 12) = unat ?sz - 12" using sz(1) by (subst unat_sub) (auto simp: word_le_nat_alt)
  have "map (mem_write m 0 (take (unat len) data)) [0..<unat len] = take (unat len) data" for m
    using mem_write_read [of 0 0 m "take (unat len) data"] len(1) by (simp add: min.absorb2)
  then show ?thesis
    using inv run len(2) sz b
    by (auto simp: copyDataIntoNewChunk_def Let_def absorbed_def chunks_inv_def content_def ck_bytes_def
        ready_ok_def word_less_nat_alt word_le_nat_alt split: option.splits)
qed

text \<open>Copying as a whole: all of the data is appended, or memory ran out after a proper prefix.\<close>

lemma copyDataIntoChunks_cases:
  assumes inv: "chunks_inv c" and len: "length data = unat len" "unat len + 12 < 2 ^ 30"
    and run: "copyDataIntoChunks malloc data len c = (r, c')"
  shows "(r = 0 \<and> chunks_inv c' \<and> content c' = content c @ data) \<or>
         (r = - 1 \<and> chunks_inv c' \<and> (\<exists>k < length data. content c' = content c @ take k data))"
proof -
  obtain r1 c1 where s1: "copyDataIntoReadyCK data len c = (r1, c1)" by fastforce
  define d1 where "d1 = drop (unat (len - r1)) data"
  obtain r2 c2 where s2: "copyDataIntoFreeCK d1 r1 c1 = (r2, c2)" by fastforce
  define d2 where "d2 = drop (unat (r1 - r2)) d1"
  obtain r3 c3 where s3: "copyDataIntoNewChunk malloc d2 r2 c2 = (r3, c3)" by fastforce
  have a1: "absorbed c data len r1 c1" using inv len s1 by (intro copyDataIntoReadyCK_absorbed) auto
  then have l1: "unat r1 \<le> length d1" "chunks_inv c1" "r1 \<le> len"
    using len by (auto simp: absorbed_def d1_def unat_sub word_le_nat_alt)
  have a2: "absorbed c1 d1 r1 r2 c2" using l1 s2 by (intro copyDataIntoFreeCK_absorbed) auto
  then have l2: "unat r2 \<le> length d2" "chunks_inv c2" "r2 \<le> r1"
    using l1 by (auto simp: absorbed_def d2_def unat_sub word_le_nat_alt)
  have a12: "absorbed c data len r2 c2" using a1 a2 unfolding d1_def by (rule absorbed_trans)
  have d2': "d2 = drop (unat (len - r2)) data"
    using l1 l2 by (simp add: d2_def d1_def unat_sub word_le_nat_alt add.commute)
  have a3: "r2 \<noteq> 0 \<Longrightarrow> (r3 = 0 \<and> absorbed c2 d2 r2 0 c3) \<or> (r3 = - 1 \<and> c3 = c2)"
    using l1 l2 len s3 by (intro copyDataIntoNewChunk_absorbed) (auto simp: word_gt_0 word_le_nat_alt)
  consider "r1 = 0" "r = 0" "c' = c1" | "r2 = 0" "r = 0" "c' = c2" 
    | "r2 \<noteq> 0" "r = (if r3 = - 1 then - 1 else 0)" "c' = c3"
    using run s1 s2 s3 by (auto simp: copyDataIntoChunks_def d1_def d2_def Let_def split: if_splits)
  then show ?thesis
  proof cases
    case 3
    show ?thesis
    proof (cases "r3 = - 1")
      case True
      have "0 < unat r2" using 3(1) by (simp add: unat_gt_0)
      then have "unat (len - r2) < length data" using len l1 l2 by (simp add: unat_sub word_le_nat_alt)
      then show ?thesis using True 3 a3 a12 by (auto simp: absorbed_def)
    next
      case False
      then have "absorbed c data len 0 c3" using 3 a3 a12 unfolding d2' by (auto intro: absorbed_trans)
      then show ?thesis using False 3 len by (auto dest: absorbed_done)
    qed
  qed (use a1 a12 len in \<open>auto dest: absorbed_done\<close>)
qed

section \<open>Draining and resetting\<close>

lemma reduceFreeCK_inv:
  assumes "chunks_inv c"
  shows "chunks_inv (reduceFreeCK c)" and "ready_cks (reduceFreeCK c) = ready_cks c"
  using assms by (auto simp: reduceFreeCK_def chunks_inv_def split: list.splits)

lemma checkWaterLevel_inv:
  assumes "chunks_inv c"
  shows "chunks_inv (checkWaterLevel c) \<and> ready_cks (checkWaterLevel c) = ready_cks c \<and>
         c_resident_size (checkWaterLevel c) = c_resident_size c \<and>
         (ck_alloc_size (checkWaterLevel c) \<le> c_resident_size c \<or> free_cks (checkWaterLevel c) = [])"
  using assms
proof (induction c rule: checkWaterLevel.induct)
  case (1 c)
  have "c_resident_size (reduceFreeCK c) = c_resident_size c"
    by (simp add: reduceFreeCK_def split: list.splits)
  with 1 reduceFreeCK_inv [of c] show ?case
    unfolding checkWaterLevel.simps [of c] by auto
qed

lemma checkWaterLevel_content [simp]: "chunks_inv c \<Longrightarrow> content (checkWaterLevel c) = content c"
  by (simp add: content_def checkWaterLevel_inv)

definition release_front :: "data_chunk \<Rightarrow> data_chunk list \<Rightarrow> chunks \<Rightarrow> chunks" where
  "release_front cur rs c = c\<lparr>ck_free_ck_capacity := ck_free_ck_capacity c + block_size cur,
     free_cks := cur\<lparr>l_ofs := 0, r_ofs := 0\<rparr> # free_cks c, ready_cks := rs\<rparr>"

lemma ready_ok_block: "ready_ok ck \<Longrightarrow> 0 < block_size ck \<and> block_size ck < 2 ^ 31"
  by (auto simp: ready_ok_def word_less_nat_alt word_le_nat_alt)

lemma release_front_inv:
  assumes "chunks_inv c" and "ready_cks c = cur # rs"
  shows "chunks_inv (release_front cur rs c)" and "content c = ck_bytes cur @ content (release_front cur rs c)"
  using assms ready_ok_block [of cur]
  by (auto simp: release_front_def chunks_inv_def free_ok_def content_def algebra_simps)

lemma cur_size:
  assumes "ready_ok ck"
  shows "sint (r_ofs ck - l_ofs ck) = int (length (ck_bytes ck))"
proof -
  have le: "l_ofs ck \<le> r_ofs ck" and lt: "unat (r_ofs ck) < 2 ^ 31"
    using assms by (auto simp: ready_ok_def word_less_nat_alt word_le_nat_alt)
  then have "unat (r_ofs ck - l_ofs ck) < 2 ^ 31" using unat_sub [OF le] by simp
  then show ?thesis using unat_sub [OF le] by (simp add: sint_small_32 ck_bytes_def)
qed

lemma advance_front_inv:
  assumes "chunks_inv c" and "ready_cks c = cur # rs" and "0 < n" and "n < int (length (ck_bytes cur))"
  defines "c' \<equiv> c\<lparr>ready_cks := cur\<lparr>l_ofs := l_ofs cur + word_of_int n\<rparr> # rs\<rparr>"
  shows "chunks_inv c'" and "content c = take (nat n) (ck_bytes cur) @ content c'"
proof -
  have ok: "ready_ok cur" using assms(1,2) by (simp add: chunks_inv_def)
  define w :: u32 where "w = word_of_int n"
  have n: "nat n < unat (r_ofs cur) - unat (l_ofs cur)"
    using assms(3,4) by (simp add: ck_bytes_def)
  have "nat n < 2 ^ 32" using n unat_less_32 [of "r_ofs cur"] by simp
  then have w: "unat w = nat n"
    using assms(3) by (simp add: w_def unsigned_of_int take_bit_int_eq_self)
  then have "unat (l_ofs cur + w) = unat (l_ofs cur) + nat n"
    using n unat_less_32 [of "r_ofs cur"] by (subst unat_add_lem [THEN iffD1]) auto
  then have "ready_ok (cur\<lparr>l_ofs := l_ofs cur + w\<rparr>)"
    and "ck_bytes (cur\<lparr>l_ofs := l_ofs cur + w\<rparr>) = drop (nat n) (ck_bytes cur)"
    using ok n by (auto simp: ready_ok_def ck_bytes_def word_less_nat_alt drop_map)
  then show "chunks_inv c'" and "content c = take (nat n) (ck_bytes cur) @ content c'"
    using assms(1,2) by (simp_all add: c'_def chunks_inv_def content_def flip: w_def)
qed

text \<open>
  The contract of the callback: it never claims more bytes than it was given, what leaves is a piece
  of the front, and unless it fails exactly the bytes it claims have left.  It asks to be called
  again (\<open>armed\<close>) exactly when it did not take everything.
\<close>

locale sink =
  fixes pipe :: "'p \<Rightarrow> bytes \<Rightarrow> int \<times> 'p"
    and sent :: "'p \<Rightarrow> bytes"
    and armed :: "'p \<Rightarrow> bool"
  assumes pipe_bound: "pipe p d = (n, p') \<Longrightarrow> - 1 \<le> n \<and> n \<le> int (length d)"
    and pipe_sent: "pipe p d = (n, p') \<Longrightarrow> \<exists>m. sent p' = sent p @ take m d \<and> (0 \<le> n \<longrightarrow> m = nat n)"
    and pipe_armed: "pipe p d = (n, p') \<Longrightarrow> 0 \<le> n \<Longrightarrow> armed p' \<longleftrightarrow> n < int (length d)"
begin

text \<open>What a call of the drain with result \<open>r\<close> has done to the queue.\<close>

definition drained :: "'p \<Rightarrow> chunks \<Rightarrow> int \<Rightarrow> 'p \<Rightarrow> chunks \<Rightarrow> bool" where
  "drained p c r p' c' \<longleftrightarrow> (r = 0 \<or> r = - 1) \<and> chunks_inv c' \<and> (\<exists>z. sent p' @ z = sent p @ content c) \<and>
     (r = 0 \<longrightarrow> sent p' @ content c' = sent p @ content c \<and> (content c' \<noteq> [] \<longrightarrow> armed p'))"

lemma drained_after:
  assumes "drained p1 c1 r p' c'" and "sent p1 = sent p @ d" and "content c = d @ content c1"
  shows "drained p c r p' c'"
  using assms by (auto simp: drained_def)

lemma drain_loop_fifo:
  assumes "chunks_inv c"
  shows "\<exists>r p' c'. drain_loop pipe p c = Some (r, p', c') \<and> drained p c r p' c' \<and>
           (content c \<noteq> [] \<and> content c' = [] \<longrightarrow> r = 0 \<and> \<not> armed p')"
  using assms
proof (induction "length (content c)" arbitrary: c p rule: less_induct)
  case less
  show ?case
  proof (cases "ready_cks c")
    case Nil
    then show ?thesis
      using less.prems checkWaterLevel_inv [OF less.prems]
      by (auto simp: drain_loop.simps [of pipe p c] drained_def content_def)
  next
    case (Cons cur rs)
    obtain n p1 where p1: "pipe p (ck_bytes cur) = (n, p1)" by fastforce
    have ok: "ready_ok cur" using less.prems Cons by (simp add: chunks_inv_def)
    note sz = cur_size [OF ok] and bound = pipe_bound [OF p1] and armed1 = pipe_armed [OF p1]
    obtain m where sent1: "sent p1 = sent p @ take m (ck_bytes cur)" "0 \<le> n \<longrightarrow> m = nat n"
      using pipe_sent [OF p1] by blast
    have front: "content c = ck_bytes cur @ concat (map ck_bytes rs)" "ck_bytes cur \<noteq> []"
      using Cons ok by (simp_all add: content_def ck_bytes_nonempty)
    consider (stop) "n \<le> 0" | (whole) "0 < n" "n = int (length (ck_bytes cur))"
      | (part) "0 < n" "n < int (length (ck_bytes cur))" using bound by linarith
    then show ?thesis
    proof cases
      case stop
      have "sent p1 @ (drop m (ck_bytes cur) @ concat (map ck_bytes rs)) = sent p @ content c"
        unfolding sent1(1) front(1) by (metis append.assoc append_take_drop_id)
      then have "\<exists>z. sent p1 @ z = sent p @ content c" by blast
      moreover have "sent p1 = sent p \<and> armed p1" if "n = 0" using that sent1 armed1 front(2) by simp
      ultimately have "drained p c n p1 c" using stop bound less.prems by (auto simp: drained_def)
      then show ?thesis using stop Cons p1 front by (auto simp: drain_loop.simps [of pipe p c])
    next
      case whole
      note rel = release_front_inv [OF less.prems Cons]
      have step: "drain_loop pipe p c = drain_loop pipe p1 (release_front cur rs c)"
        using whole Cons p1 sz by (simp add: drain_loop.simps [of pipe p c] release_front_def)
      obtain r p' c' where run: "drain_loop pipe p1 (release_front cur rs c) = Some (r, p', c')"
          and d: "drained p1 (release_front cur rs c) r p' c'"
          and e: "content (release_front cur rs c) \<noteq> [] \<and> content c' = [] \<longrightarrow> r = 0 \<and> \<not> armed p'"
        using less.hyps [of "release_front cur rs c" p1] rel whole by auto
      have "\<not> armed p1" using armed1 whole by simp
      moreover have "r = 0 \<and> p' = p1" if "content (release_front cur rs c) = []"
        using run that rel(1) content_Nil_iff [of "release_front cur rs c"]
        by (auto simp: drain_loop.simps [of pipe p1 "release_front cur rs c"])
      ultimately show ?thesis
        using step run e drained_after [OF d, of p "ck_bytes cur" c] sent1 rel(2) whole by auto
    next
      case part
      let ?c = "c\<lparr>ready_cks := cur\<lparr>l_ofs := l_ofs cur + word_of_int n\<rparr> # rs\<rparr>"
      note adv = advance_front_inv [OF less.prems Cons part]
      have step: "drain_loop pipe p c = drain_loop pipe p1 ?c"
        using part Cons p1 sz by (simp add: drain_loop.simps [of pipe p c])
      have "content ?c \<noteq> []" using content_Nil_iff [OF adv(1)] by simp
      then obtain r p' c' where "drain_loop pipe p1 ?c = Some (r, p', c')" "drained p1 ?c r p' c'"
          "content c' = [] \<longrightarrow> r = 0 \<and> \<not> armed p'"
        using less.hyps [of ?c p1] adv part by auto
      then show ?thesis
        using step drained_after [of p1 ?c r p' c' p "take (nat n) (ck_bytes cur)" c] sent1 adv(2) part by auto
    qed
  qed
qed

lemma drain_fifo:
  assumes "chunks_inv c"
  shows "\<exists>r p' c'. drainOutWithPipe pipe p c = Some (r, p', c') \<and> drained p c r p' c' \<and>
           (content c \<noteq> [] \<and> content c' = [] \<longrightarrow> r = 0 \<and> \<not> armed p')"
proof (cases "ready_cks c = []")
  case True
  with assms show ?thesis by (simp add: drainOutWithPipe_def drained_def content_def)
next
  case False
  then show ?thesis using drain_loop_fifo [OF assms, of p] by (simp add: drainOutWithPipe_def)
qed

end

text \<open>What every call of the callback keeps, the drain keeps.\<close>

lemma drain_loop_keeps:
  assumes "drain_loop pipe p c = Some (r, p', c')" and "P p" and "\<And>p d. P p \<Longrightarrow> P (snd (pipe p d))"
  shows "P p'"
proof -
  have "P p \<longrightarrow> (\<forall>p d. P p \<longrightarrow> P (snd (pipe p d))) \<longrightarrow> P (fst (snd z))" if "drain_loop pipe p c = Some z" for z
    using that
  proof (induction rule: drain_loop.raw_induct [rotated, consumes 1, case_names step])
    case (step loop pipe p c z)
    show ?case
    proof (intro impI)
      assume p: "P p" and keep: "\<forall>p d. P p \<longrightarrow> P (snd (pipe p d))"
      show "P (fst (snd z))"
      proof (cases "ready_cks c")
        case Nil
        then show ?thesis using step(2) p by auto
      next
        case (Cons cur rs)
        obtain n p1 where p1: "pipe p (ck_bytes cur) = (n, p1)" by fastforce
        have "P p1" using keep p p1 by (metis snd_conv)
        then show ?thesis
          using step(2) step(1) keep unfolding Cons list.case Let_def p1 prod.case
          by (auto split: if_splits)
      qed
    qed
  qed
  then show ?thesis using assms by (metis fst_conv snd_conv)
qed

lemma drain_keeps:
  assumes "drainOutWithPipe pipe p c = Some (r, p', c')" and "P p" and "\<And>p d. P p \<Longrightarrow> P (snd (pipe p d))"
  shows "P p'"
  using drain_loop_keeps [of pipe p c r p' c' P] assms by (auto simp: drainOutWithPipe_def split: if_splits)

lemma reset_loop_inv:
  assumes "chunks_inv c" and "ready_cks c = rs"
  shows "chunks_inv (reset_loop rs c) \<and> ready_cks (reset_loop rs c) = [] \<and>
         c_resident_size (reset_loop rs c) = c_resident_size c"
  using assms
proof (induction rs arbitrary: c)
  case (Cons ck rs)
  have "chunks_inv (c\<lparr>ready_cks := rs, ck_free_ck_capacity := ck_free_ck_capacity c + block_size ck,
          free_cks := free_cks c @ [ck\<lparr>l_ofs := 0, r_ofs := 0\<rparr>]\<rparr>)"
    using Cons.prems ready_ok_block [of ck] by (auto simp: chunks_inv_def free_ok_def algebra_simps)
  then show ?case by (simp add: Cons.IH)
qed simp

lemma resetChunks_inv:
  assumes "chunks_inv c"
  shows "chunks_inv (resetChunks c)" and "content (resetChunks c) = []"
    and "ck_alloc_size (resetChunks c) \<le> c_resident_size c"
proof -
  let ?c = "reset_loop (ready_cks c) c"
  have *: "chunks_inv ?c" "ready_cks ?c = []" "c_resident_size ?c = c_resident_size c"
    using reset_loop_inv [OF assms] by auto
  note w = checkWaterLevel_inv [OF *(1)]
  show "chunks_inv (resetChunks c)" "content (resetChunks c) = []"
    using w * by (simp_all add: resetChunks_def content_def)
  show "ck_alloc_size (resetChunks c) \<le> c_resident_size c"
    using w * by (auto simp: resetChunks_def chunks_inv_def)
qed

section \<open>Memory held by the buffer\<close>

definition blocks :: "chunks \<Rightarrow> u32 list" where
  "blocks c = map block_size (ready_cks c @ free_cks c)"

definition heap_bytes :: "chunks \<Rightarrow> nat" where
  "heap_bytes c = (\<Sum>b \<leftarrow> blocks c. unat b + 12)"

definition config :: "chunks \<Rightarrow> u32 \<times> u32" where
  "config c = (c_max_size c, c_resident_size c)"

lemma sum_list_unat: "word_of_nat (\<Sum>b \<leftarrow> bs. unat b + 12) = (\<Sum>b \<leftarrow> bs. b + (12 :: u32))"
  by (induction bs) auto

lemma alloc_heap_bytes:
  assumes "chunks_inv c" and "heap_bytes c < 2 ^ 32"
  shows "unat (ck_alloc_size c) = heap_bytes c"
proof -
  have "ck_alloc_size c = word_of_nat (heap_bytes c)"
    using assms(1) unfolding heap_bytes_def sum_list_unat
    by (simp add: chunks_inv_def blocks_def comp_def)
  then show ?thesis using assms(2) by (simp add: unsigned_of_nat take_bit_nat_eq_self)
qed

lemma copyDataIntoReadyCK_blocks:
  "blocks (snd (copyDataIntoReadyCK data len c)) = blocks c"
  "config (snd (copyDataIntoReadyCK data len c)) = config c"
proof -
  have "map block_size (butlast rs @ [fill_ck (last rs) d n]) = map block_size rs" if "rs \<noteq> []" for rs d n
    using that by (induction rs) auto
  from this [of "ready_cks c"] show "blocks (snd (copyDataIntoReadyCK data len c)) = blocks c"
    by (auto simp: copyDataIntoReadyCK_def Let_def blocks_def)
qed (auto simp: copyDataIntoReadyCK_def Let_def config_def)

lemma free_loop_blocks:
  assumes "free_cks c = fs"
  shows "blocks (snd (free_loop fs data len c)) = blocks c \<and>
         config (snd (free_loop fs data len c)) = config c"
  using assms
proof (induction fs arbitrary: c data len)
  case (Cons ck fs)
  then show ?case
    by (auto simp: Let_def Cons.IH) (auto simp: blocks_def config_def)
qed simp

lemma copyDataIntoFreeCK_blocks:
  "blocks (snd (copyDataIntoFreeCK data len c)) = blocks c"
  "config (snd (copyDataIntoFreeCK data len c)) = config c"
  by (simp_all add: copyDataIntoFreeCK_def free_loop_blocks)

lemma copyDataIntoNewChunk_heap:
  assumes "threshold c = 1024" and "unat len + 12 < 2 ^ 30"
  shows "heap_bytes (snd (copyDataIntoNewChunk malloc data len c)) \<le> heap_bytes c + max 1024 (24 + 2 * unat len)"
    and "config (snd (copyDataIntoNewChunk malloc data len c)) = config c"
proof -
  let ?i = "sizeof_DataChunk + len" let ?sz = "ck_ceil_to_k ?i c"
  have u: "unat ?i = 12 + unat len" using assms(2) by (subst unat_add_lem [THEN iffD1]) auto
  have sz: "12 + unat len < unat ?sz" "unat ?sz \<le> max 1024 (24 + 2 * unat len)"
    using ck_ceil_to_k_bounds [of c ?i] assms u by auto
  have "unat (?sz - 12) = unat ?sz - 12" using sz(1) by (subst unat_sub) (auto simp: word_le_nat_alt)
  then show "heap_bytes (snd (copyDataIntoNewChunk malloc data len c)) \<le> heap_bytes c + max 1024 (24 + 2 * unat len)"
    using sz by (auto simp: copyDataIntoNewChunk_def Let_def heap_bytes_def blocks_def split: option.splits)
qed (auto simp: copyDataIntoNewChunk_def Let_def config_def split: option.splits)

lemma free_loop_enough:
  assumes "list_all free_ok fs" and "unat len \<le> (\<Sum>ck \<leftarrow> fs. unat (block_size ck))"
  shows "fst (free_loop fs data len c) = 0"
  using assms
proof (induction fs arbitrary: data len c)
  case Nil
  then show ?case by (simp add: unat_eq_zero)
next
  case (Cons ck fs)
  have bs: "block_size ck - r_ofs ck = block_size ck" using Cons.prems(1) by (auto simp: free_ok_def)
  show ?case
  proof (cases "len \<le> block_size ck")
    case True
    then show ?thesis using bs by (cases fs) (auto simp: Let_def word_gt_0)
  next
    case False
    then have "unat (len - block_size ck) \<le> (\<Sum>ck \<leftarrow> fs. unat (block_size ck))"
      using Cons.prems(2) by (simp add: unat_sub word_le_nat_alt)
    with False show ?thesis using bs Cons by (auto simp: Let_def free_ok_def)
  qed
qed

lemma capacity_of_le: "unat (capacity_of cks) \<le> (\<Sum>ck \<leftarrow> cks. unat (block_size ck))"
proof (induction cks)
  case (Cons ck cks)
  have "unat (block_size ck + capacity_of cks) \<le> unat (block_size ck) + unat (capacity_of cks)"
    by (simp add: unat_word_ariths)
  with Cons show ?case by simp
qed simp

lemma useExistingChunk_no_alloc:
  assumes inv: "chunks_inv c" and use: "useExistingChunk len c"
  shows "\<exists>c'. blocks c' = blocks c \<and> config c' = config c \<and>
           (\<forall>malloc. copyDataIntoChunks malloc data len c = (0, c'))"
proof (cases "ready_cks c = []")
  case True
  then have r: "copyDataIntoReadyCK data len c = (len, c)" by (simp add: copyDataIntoReadyCK_def)
  obtain ret c' where f: "copyDataIntoFreeCK data len c = (ret, c')" by fastforce
  have "unat len \<le> (\<Sum>ck \<leftarrow> free_cks c. unat (block_size ck))"
    using use True inv capacity_of_le [of "free_cks c"]
    by (simp add: useExistingChunk_def chunks_inv_def word_le_nat_alt)
  then have "len = 0 \<or> ret = 0"
    using f inv free_loop_enough [of "free_cks c" len data c]
    by (cases "free_cks c = []") (auto simp: copyDataIntoFreeCK_def chunks_inv_def unat_eq_zero)
  moreover have "blocks c' = blocks c" "config c' = config c"
    using copyDataIntoFreeCK_blocks [of data len c] f by auto
  ultimately show ?thesis using r f by (cases "len = 0") (auto simp: copyDataIntoChunks_def)
next
  case False
  obtain ret c' where r: "copyDataIntoReadyCK data len c = (ret, c')" by fastforce
  moreover have "ret = 0"
    using False use r by (auto simp: useExistingChunk_def copyDataIntoReadyCK_def Let_def split: if_splits)
  moreover have "blocks c' = blocks c" "config c' = config c"
    using copyDataIntoReadyCK_blocks [of data len c] r by auto
  ultimately show ?thesis by (auto simp: copyDataIntoChunks_def)
qed

lemma heap_bytes_blocks: "blocks c = blocks c' \<Longrightarrow> heap_bytes c = heap_bytes c'"
  by (simp add: heap_bytes_def)

lemma copyDataIntoChunks_heap:
  assumes inv: "chunks_inv c" and len: "length data = unat len" "unat len + 12 < 2 ^ 30"
  shows "heap_bytes (snd (copyDataIntoChunks malloc data len c)) \<le> heap_bytes c + max 1024 (24 + 2 * unat len)"
    and "config (snd (copyDataIntoChunks malloc data len c)) = config c"
proof -
  obtain r1 c1 where s1: "copyDataIntoReadyCK data len c = (r1, c1)" by fastforce
  define d1 where "d1 = drop (unat (len - r1)) data"
  obtain r2 c2 where s2: "copyDataIntoFreeCK d1 r1 c1 = (r2, c2)" by fastforce
  define d2 where "d2 = drop (unat (r1 - r2)) d1"
  obtain r3 c3 where s3: "copyDataIntoNewChunk malloc d2 r2 c2 = (r3, c3)" by fastforce
  have a1: "absorbed c data len r1 c1" using inv len s1 by (intro copyDataIntoReadyCK_absorbed) auto
  then have l1: "unat r1 \<le> length d1" "chunks_inv c1" "r1 \<le> len"
    using len by (auto simp: absorbed_def d1_def unat_sub word_le_nat_alt)
  have a2: "absorbed c1 d1 r1 r2 c2" using l1 s2 by (intro copyDataIntoFreeCK_absorbed) auto
  have h: "heap_bytes c1 = heap_bytes c" "heap_bytes c2 = heap_bytes c" "config c1 = config c" "config c2 = config c"
    using s1 s2 copyDataIntoReadyCK_blocks [of data len c] copyDataIntoFreeCK_blocks [of d1 r1 c1]
    by (auto simp: heap_bytes_def)
  have "unat r2 \<le> unat len" using a2 l1(3) by (auto simp: absorbed_def word_le_nat_alt)
  then have "heap_bytes c3 \<le> heap_bytes c + max 1024 (24 + 2 * unat len) \<and> config c3 = config c"
    using copyDataIntoNewChunk_heap [of c2 r2 malloc d2] s3 a2 len(2) h by (auto simp: absorbed_def chunks_inv_def)
  then show "heap_bytes (snd (copyDataIntoChunks malloc data len c)) \<le> heap_bytes c + max 1024 (24 + 2 * unat len)"
    and "config (snd (copyDataIntoChunks malloc data len c)) = config c"
    using s1 s2 s3 h by (auto simp: copyDataIntoChunks_def Let_def simp flip: d1_def d2_def)
qed

lemma checkWaterLevel_heap:
  "heap_bytes (checkWaterLevel c) \<le> heap_bytes c \<and> config (checkWaterLevel c) = config c"
proof (induction c rule: checkWaterLevel.induct)
  case (1 c)
  have "heap_bytes (reduceFreeCK c) \<le> heap_bytes c" "config (reduceFreeCK c) = config c"
    by (auto simp: reduceFreeCK_def heap_bytes_def blocks_def config_def split: list.splits)
  with 1 show ?case unfolding checkWaterLevel.simps [of c] by auto
qed

lemma release_front_heap:
  "ready_cks c = cur # rs \<Longrightarrow> heap_bytes (release_front cur rs c) = heap_bytes c"
  "config (release_front cur rs c) = config c"
  by (auto simp: release_front_def heap_bytes_def blocks_def config_def)

text \<open>Whatever the callback does, a drain that returns keeps the invariant and allocates nothing.\<close>

lemma drain_loop_heap:
  assumes "drain_loop pipe p c = Some (r, p', c')" and "chunks_inv c"
  shows "chunks_inv c' \<and> heap_bytes c' \<le> heap_bytes c \<and> config c' = config c"
proof -
  have "chunks_inv c \<longrightarrow> chunks_inv (snd (snd z)) \<and> heap_bytes (snd (snd z)) \<le> heap_bytes c \<and>
          config (snd (snd z)) = config c" if "drain_loop pipe p c = Some z" for z
    using that
  proof (induction rule: drain_loop.raw_induct [rotated, consumes 1, case_names step])
    case (step loop pipe p c z)
    show ?case
    proof (rule impI)
      assume inv: "chunks_inv c"
      show "chunks_inv (snd (snd z)) \<and> heap_bytes (snd (snd z)) \<le> heap_bytes c \<and>
              config (snd (snd z)) = config c"
      proof (cases "ready_cks c")
        case Nil
        then show ?thesis using step(2) checkWaterLevel_inv [OF inv] checkWaterLevel_heap [of c] by auto
      next
        case (Cons cur rs)
        obtain n p1 where p1: "pipe p (ck_bytes cur) = (n, p1)" by fastforce
        have ok: "ready_ok cur" using inv Cons by (simp add: chunks_inv_def)
        let ?adv = "c\<lparr>ready_cks := cur\<lparr>l_ofs := l_ofs cur + word_of_int n\<rparr> # rs\<rparr>"
        have adv: "heap_bytes ?adv = heap_bytes c" "config ?adv = config c"
          using Cons by (auto simp: heap_bytes_def blocks_def config_def)
        have eq: "(if n \<le> 0 then Some (n, p1, c)
                   else if n = int (length (ck_bytes cur)) then loop pipe p1 (release_front cur rs c)
                   else if n < int (length (ck_bytes cur)) then loop pipe p1 ?adv
                   else loop pipe p1 c) = Some z"
          using step(2) unfolding Cons list.case Let_def p1 prod.case cur_size [OF ok] release_front_def .
        consider "Some (n, p1, c) = Some z" | "loop pipe p1 (release_front cur rs c) = Some z"
          | "0 < n" "n < int (length (ck_bytes cur))" "loop pipe p1 ?adv = Some z"
          | "loop pipe p1 c = Some z"
          using eq by (metis not_le)
        then show ?thesis
        proof cases
          case 1
          then show ?thesis using inv by auto
        next
          case 2
          then show ?thesis
            using step(1) [OF 2] release_front_inv [OF inv Cons] release_front_heap(1) [OF Cons] 
              release_front_heap(2) [of cur rs c] by simp
        next
          case 3
          then show ?thesis
            using step(1) [OF 3(3)] advance_front_inv(1) [OF inv Cons 3(1,2)] adv by simp
        next
          case 4
          then show ?thesis using step(1) [OF 4] inv by simp
        qed
      qed
    qed
  qed
  with assms show ?thesis by fastforce
qed

section \<open>Guarded use of the buffer\<close>

text \<open>
  The buffer as its client uses it: data of at most \<open>L\<close> bytes is copied in only after
  \<^verbatim>\<open>checkCapacity\<close> said yes, and drains and resets happen at any time.
\<close>

inductive buffer_step :: "nat \<Rightarrow> ('p \<Rightarrow> bytes \<Rightarrow> int \<times> 'p) \<Rightarrow> chunks \<Rightarrow> chunks \<Rightarrow> bool"
  for L pipe where
  put: "checkCapacity len c \<Longrightarrow> length data = unat len \<Longrightarrow> unat len \<le> L \<Longrightarrow>
          buffer_step L pipe c (snd (copyDataIntoChunks malloc data len c))"
| drain: "drainOutWithPipe pipe p c = Some (r, p', c') \<Longrightarrow> buffer_step L pipe c c'"
| reset: "buffer_step L pipe c (resetChunks c)"

lemma reset_loop_heap:
  "ready_cks c = rs \<Longrightarrow> heap_bytes (reset_loop rs c) = heap_bytes c \<and> config (reset_loop rs c) = config c"
proof (induction rs arbitrary: c)
  case (Cons ck rs)
  then show ?case
    by (simp add: Cons.IH) (simp add: heap_bytes_def blocks_def config_def)
qed simp

lemma buffer_step_bounded:
  assumes "buffer_step L pipe c c'" and "chunks_inv c"
    and "heap_bytes c \<le> unat (c_max_size c) + L + 1024"
    and "unat (c_max_size c) + 2 * L + 1024 < 2 ^ 32" and "L + 12 < 2 ^ 30"
  shows "chunks_inv c' \<and> config c' = config c \<and> heap_bytes c' \<le> unat (c_max_size c) + L + 1024"
  using assms(1)
proof cases
  case (put len data malloc)
  have inv': "chunks_inv c'"
    using copyDataIntoChunks_cases [of c data len malloc "fst (copyDataIntoChunks malloc data len c)" c']
      put assms(2,5) by (auto simp: prod_eq_iff)
  have cfg: "config c' = config c"
    using copyDataIntoChunks_heap(2) [of c data len malloc] put assms(2,5) by simp
  have "heap_bytes c' \<le> unat (c_max_size c) + L + 1024"
  proof (cases "useExistingChunk len c")
    case True
    then show ?thesis
      using useExistingChunk_no_alloc [OF assms(2) True, of data] put(1) assms(3)
      by (auto simp: heap_bytes_def)
  next
    case False
    have a: "unat (ck_alloc_size c) = heap_bytes c"
      using assms(2-4) by (intro alloc_heap_bytes) auto
    have "ck_alloc_size c + len \<le> c_max_size c"
      using False put(2) by (auto simp: checkCapacity_def not_less split: if_splits)
    moreover have "unat (ck_alloc_size c + len) = unat (ck_alloc_size c) + unat len"
      using a assms(3,4) put(4) by (intro unat_add_lem [THEN iffD1]) simp
    ultimately have "heap_bytes c + unat len \<le> unat (c_max_size c)"
      using a by (simp add: word_le_nat_alt)
    moreover have "heap_bytes c' \<le> heap_bytes c + max 1024 (24 + 2 * unat len)"
      using copyDataIntoChunks_heap(1) [of c data len malloc] put assms(2,5) by simp
    ultimately show ?thesis using put(4) by (simp add: max_def split: if_splits)
  qed
  with inv' cfg show ?thesis by simp
next
  case (drain p r p')
  then show ?thesis
    using drain_loop_heap [of pipe p c r p' c'] assms(2,3)
    by (auto simp: drainOutWithPipe_def split: if_splits)
next
  case reset
  then show ?thesis
    using resetChunks_inv [OF assms(2)] reset_loop_heap [of c "ready_cks c"] assms(3)
      checkWaterLevel_heap [of "reset_loop (ready_cks c) c"]
    by (simp add: resetChunks_def)
qed

lemma new_Chunks_inv: "new_Chunks m r = Inr c \<Longrightarrow> chunks_inv c \<and> heap_bytes c = 0 \<and> c_max_size c = m"
  by (auto simp: new_Chunks_def chunks_inv_def heap_bytes_def blocks_def split: if_splits)

section \<open>Properties\<close>

text \<open>
  C13: Copying data into the buffer appends exactly that data to the bytes waiting to be sent, in
  order and without touching the bytes already there; it reports -1 only when the allocator fails,
  and then a proper prefix has been appended.  The invariant on offsets, block sizes and counters
  is kept in every case, so no write leaves its block.
\<close>

theorem copy_appends:
  assumes "chunks_inv c" and "length data = unat len" and "unat len + 12 < 2 ^ 30"
    and "copyDataIntoChunks malloc data len c = (r, c')"
  shows "chunks_inv c' \<and>
         (r = 0 \<and> content c' = content c @ data \<or>
          r = - 1 \<and> (\<exists>n. malloc n = None) \<and> (\<exists>k < length data. content c' = content c @ take k data))"
proof -
  have "r = - 1 \<Longrightarrow> \<exists>n. malloc n = None"
    using assms(4) by (auto simp: copyDataIntoChunks_def copyDataIntoNewChunk_def Let_def
        split: prod.splits if_splits option.splits)
  then show ?thesis using copyDataIntoChunks_cases [OF assms] by auto
qed

text \<open>An allocator that always succeeds, for concrete runs.\<close>

definition zero_alloc :: allocator where
  "zero_alloc n = Some (\<lambda>_. CHR 0x00)"

definition empty_chunks :: chunks where
  "empty_chunks = \<lparr>ready_cks = [], free_cks = [], c_resident_size = 1024, c_max_size = 4096,
     threshold = 1024, ck_alloc_size = 0, ck_free_ck_capacity = 0\<rparr>"

lemma empty_chunks_new: "new_Chunks 4096 1024 = Inr empty_chunks"
  by (simp add: new_Chunks_def empty_chunks_def)

lemma empty_chunks_inv: "chunks_inv empty_chunks" "content empty_chunks = []"
  using new_Chunks_inv [OF empty_chunks_new] by (auto simp: content_def empty_chunks_def)

theorem copy_appends_witness:
  "content (snd (copyDataIntoChunks zero_alloc ''ping'' 4 empty_chunks)) = ''ping''"
proof -
  obtain r c' where run: "copyDataIntoChunks zero_alloc ''ping'' 4 empty_chunks = (r, c')" by fastforce
  have "chunks_inv c' \<and> (r = 0 \<and> content c' = content empty_chunks @ ''ping'' \<or>
          r = - 1 \<and> (\<exists>n. zero_alloc n = None) \<and>
          (\<exists>k < length ''ping''. content c' = content empty_chunks @ take k ''ping''))"
    by (rule copy_appends [OF empty_chunks_inv(1) _ _ run]) simp_all
  then show ?thesis by (simp add: run empty_chunks_inv zero_alloc_def)
qed

text \<open>
  C20: However the buffer is used, as long as every copy is guarded by \<^verbatim>\<open>checkCapacity\<close>, the memory
  it holds (chunk headers included) never exceeds the configured maximum by more than the length
  of one message plus 1024 bytes.
\<close>

theorem buffer_memory_bounded:
  assumes "new_Chunks max_size resident_size = Inr c0" and "(buffer_step L pipe)\<^sup>*\<^sup>* c0 c"
    and "unat max_size + 2 * L + 1024 < 2 ^ 32" and "L + 12 < 2 ^ 30"
  shows "chunks_inv c \<and> heap_bytes c \<le> unat max_size + L + 1024"
proof -
  have "chunks_inv c \<and> c_max_size c = max_size \<and> heap_bytes c \<le> unat max_size + L + 1024"
    using assms(2)
  proof (induction rule: rtranclp_induct)
    case base
    then show ?case using new_Chunks_inv [OF assms(1)] by simp
  next
    case (step c c')
    then show ?case
      using buffer_step_bounded [OF step(2)] assms(3,4) by (auto simp: config_def)
  qed
  then show ?thesis by simp
qed

theorem buffer_memory_bounded_witness:
  "heap_bytes (resetChunks (snd (copyDataIntoChunks zero_alloc ''ping'' 4 empty_chunks))) \<le> 4096 + 4 + 1024"
proof -
  let ?pipe = "\<lambda>(p :: unit) (d :: bytes). (0 :: int, p)"
  let ?c = "snd (copyDataIntoChunks zero_alloc ''ping'' 4 empty_chunks)"
  have "buffer_step 4 ?pipe empty_chunks ?c"
    by (rule buffer_step.put) (simp_all add: checkCapacity_def empty_chunks_def)
  moreover have "buffer_step 4 ?pipe ?c (resetChunks ?c)" by (rule buffer_step.reset)
  ultimately have "(buffer_step 4 ?pipe)\<^sup>*\<^sup>* empty_chunks (resetChunks ?c)" by simp
  from buffer_memory_bounded [OF empty_chunks_new this] show ?thesis by simp
qed

text \<open>
  When \<^verbatim>\<open>useExistingChunk\<close> says yes, the copy succeeds without calling the allocator and leaves
  the block sizes as they are, so it is safe to skip the limit in \<^verbatim>\<open>checkCapacity\<close>.
\<close>

lemma use_existing_sound:
  assumes "chunks_inv c" and "useExistingChunk len c"
  shows "\<exists>c'. blocks c' = blocks c \<and> (\<forall>malloc. copyDataIntoChunks malloc data len c = (0, c'))"
  using useExistingChunk_no_alloc [OF assms, of data] by blast

text \<open>A buffer with one half-full block and nothing to reuse.\<close>

definition half_full :: chunks where
  "half_full = empty_chunks\<lparr>ready_cks := [\<lparr>block_size = 1012, l_ofs = 0, r_ofs = 512, ck_mem = (\<lambda>_. CHR ''x'')\<rparr>],
     ck_alloc_size := 1024, c_max_size := 1024\<rparr>"

lemma half_full_inv: "chunks_inv half_full"
  by (simp add: chunks_inv_def half_full_def empty_chunks_def ready_ok_def)

text \<open>
  C40: The test is not complete: with nothing to reuse, whenever the last ready block has strictly
  more room than asked for, the subtraction of that room wraps around and \<^verbatim>\<open>useExistingChunk\<close>
  says no, although a copy would fit in the block without any allocation.
\<close>

theorem use_existing_misses_room:
  assumes "chunks_inv c" and "ready_cks c \<noteq> []" and "free_cks c = []"
    and "len < block_size (last (ready_cks c)) - r_ofs (last (ready_cks c))"
  shows "\<not> useExistingChunk len c \<and>
         (\<exists>c'. blocks c' = blocks c \<and> (\<forall>malloc. copyDataIntoChunks malloc data len c = (0, c')))"
proof
  show "\<not> useExistingChunk len c"
    using assms by (auto simp: useExistingChunk_def chunks_inv_def Let_def)
  have "fst (copyDataIntoReadyCK data len c) = 0"
    using assms(2,4) less_imp_le [OF assms(4)] by (simp add: copyDataIntoReadyCK_def)
  then show "\<exists>c'. blocks c' = blocks c \<and> (\<forall>malloc. copyDataIntoChunks malloc data len c = (0, c'))"
    using copyDataIntoReadyCK_blocks(1) [of data len c]
    by (cases "copyDataIntoReadyCK data len c") (auto simp: copyDataIntoChunks_def)
qed

theorem use_existing_misses_room_witness:
  "\<not> useExistingChunk 100 half_full \<and> \<not> checkCapacity 100 half_full"
proof -
  have "\<not> useExistingChunk 100 half_full \<and>
         (\<exists>c'. blocks c' = blocks half_full \<and>
           (\<forall>malloc. copyDataIntoChunks malloc [] 100 half_full = (0, c')))"
    by (rule use_existing_misses_room [OF half_full_inv]) (simp_all add: half_full_def empty_chunks_def)
  then show ?thesis by (simp add: checkCapacity_def half_full_def empty_chunks_def)
qed

end
