(* ===== verification/Trans_Layer.thy ===== *)
theory Trans_Layer
  imports Chunks
begin

text \<open>
  The connection to the collector (\<^verbatim>\<open>ConnectionPool/TransLayer.h\<close>, \<^verbatim>\<open>TransLayer.cpp\<close>, \<^verbatim>\<open>sockets.h\<close>): a
  send buffer that is drained into a non-blocking socket, a receive buffer cut into messages by a
  header of eight bytes, and the event loop that drives both.

  The operating system is a list of answers for each system call it offers.  Whatever it answers is
  within what the calls document: \<^verbatim>\<open>send\<close> takes a non-empty piece of the front of the data or fails,
  \<^verbatim>\<open>recv\<close> returns at most as many bytes as there is room for and keeps the rest for the next call.
  When a list is used up the call would block (\<^verbatim>\<open>send\<close>, \<^verbatim>\<open>recv\<close>), times out (\<^verbatim>\<open>select\<close>) or fails.
\<close>

unbundle bit_operations_syntax

section \<open>The operating system\<close>

abbreviation (input) EINTR :: int where "EINTR \<equiv> 4"
abbreviation (input) EAGAIN :: int where "EAGAIN \<equiv> 11"
abbreviation (input) EALREADY :: int where "EALREADY \<equiv> 114"
abbreviation (input) EINPROGRESS :: int where "EINPROGRESS \<equiv> 115"

datatype send_answer = Accepts nat | SendsNothing | SendFails int
datatype recv_answer = Arrives char bytes | PeerCloses | RecvFails int
datatype select_answer = SelectFails | Elapses | Signals bool bool bool

text \<open>
  Besides the answers, \<open>k_waits\<close> keeps the limits handed to \<^verbatim>\<open>select\<close> (seconds and microseconds),
  \<open>k_out\<close> the bytes that \<^verbatim>\<open>send\<close> has taken, \<open>k_dialled\<close> the addresses handed to the resolver or to
  \<^verbatim>\<open>connect\<close>, and \<open>k_closed\<close> the descriptors closed.
\<close>

record kernel =
  k_sends :: "send_answer list"
  k_recvs :: "recv_answer list"
  k_selects :: "select_answer list"
  k_times :: "int list"
  k_resolves :: "nat option list"
  k_sockets :: "int list"
  k_connects :: "int list"
  k_waits :: "(int \<times> int) list"
  k_out :: bytes
  k_dialled :: "string list"
  k_closed :: "int list"

definition sys_send :: "bytes \<Rightarrow> kernel \<Rightarrow> int \<times> int \<times> kernel" where
  "sys_send d k =
     (case k_sends k of
        [] \<Rightarrow> (- 1, EAGAIN, k)
      | Accepts n # as \<Rightarrow>
          (let m = min (Suc n) (length d) in (int m, 0, k\<lparr>k_sends := as, k_out := k_out k @ take m d\<rparr>))
      | SendsNothing # as \<Rightarrow> (0, 0, k\<lparr>k_sends := as\<rparr>)
      | SendFails e # as \<Rightarrow> (- 1, e, k\<lparr>k_sends := as\<rparr>))"

definition sys_recv :: "nat \<Rightarrow> kernel \<Rightarrow> int \<times> int \<times> bytes \<times> kernel" where
  "sys_recv room k =
     (case k_recvs k of
        [] \<Rightarrow> (- 1, EAGAIN, [], k)
      | Arrives b bs # as \<Rightarrow>
          (let d = take room (b # bs) in
           (int (length d), 0, d,
            k\<lparr>k_recvs := (case drop room (b # bs) of [] \<Rightarrow> as | b # bs \<Rightarrow> Arrives b bs # as)\<rparr>))
      | PeerCloses # as \<Rightarrow> (0, 0, [], k\<lparr>k_recvs := as\<rparr>)
      | RecvFails e # as \<Rightarrow> (- 1, e, [], k\<lparr>k_recvs := as\<rparr>))"

definition sys_select :: "int \<times> int \<Rightarrow> kernel \<Rightarrow> select_answer \<times> kernel" where
  "sys_select tv k =
     (let k = k\<lparr>k_waits := k_waits k @ [tv]\<rparr> in
      case k_selects k of [] \<Rightarrow> (Elapses, k) | a # as \<Rightarrow> (a, k\<lparr>k_selects := as\<rparr>))"

definition sys_time :: "kernel \<Rightarrow> int \<times> kernel" where
  "sys_time k = (case k_times k of [] \<Rightarrow> (0, k) | t # ts \<Rightarrow> (t, k\<lparr>k_times := ts\<rparr>))"

definition sys_getaddrinfo :: "string \<Rightarrow> string \<Rightarrow> kernel \<Rightarrow> nat option \<times> kernel" where
  "sys_getaddrinfo host port k =
     (let k = k\<lparr>k_dialled := k_dialled k @ [host @ '':'' @ port]\<rparr> in
      case k_resolves k of [] \<Rightarrow> (None, k) | r # rs \<Rightarrow> (r, k\<lparr>k_resolves := rs\<rparr>))"

definition sys_socket :: "kernel \<Rightarrow> int \<times> kernel" where
  "sys_socket k =
     (case k_sockets k of [] \<Rightarrow> (- 1, k) | fd # fds \<Rightarrow> (if fd < 0 then - 1 else fd, k\<lparr>k_sockets := fds\<rparr>))"

text \<open>The errno of \<^verbatim>\<open>connect\<close>, 0 when it succeeds.\<close>

definition sys_connect :: "kernel \<Rightarrow> int \<times> int \<times> kernel" where
  "sys_connect k =
     (case k_connects k of
        [] \<Rightarrow> (- 1, EALREADY, k)
      | e # es \<Rightarrow> (if e = 0 then 0 else - 1, e, k\<lparr>k_connects := es\<rparr>))"

definition close_socket :: "int \<Rightarrow> kernel \<Rightarrow> kernel" where
  "close_socket fd k = k\<lparr>k_closed := k_closed k @ [fd]\<rparr>"

definition nonblock_error :: "int \<Rightarrow> bool" where
  "nonblock_error err \<longleftrightarrow> err = EAGAIN \<or> err = EINTR \<or> err = EINPROGRESS"

section \<open>State\<close>

text \<open>
  The layer.  \<open>in_buf\<close> is the part of the receive buffer in use, so \<^verbatim>\<open>in_buf_size_\<close> is its length.
  A callback is a name \<open>'h\<close>; what it does to the rest of the program, a state \<open>'a\<close>, is in \<open>callbacks\<close>.
\<close>

record 'h trans_layer =
  co_host :: string
  t_chunks :: chunks
  t_state :: u32
  in_buf :: bytes
  statusChangedCallback :: "'h option"
  msgRouteMap :: "int \<rightharpoonup> 'h"
  lastConnectTime :: int
  c_fd :: int

record ('h, 'a) callbacks =
  on_message :: "'h \<Rightarrow> int \<Rightarrow> bytes \<Rightarrow> ('a, int) proc"
  on_status :: "'h \<Rightarrow> int \<Rightarrow> 'a \<Rightarrow> 'a"

record ('h, 'a) net =
  layer :: "'h trans_layer"
  kern :: kernel
  env :: 'a

abbreviation (input) S_WRITING :: u32 where "S_WRITING \<equiv> 1"
abbreviation (input) S_READING :: u32 where "S_READING \<equiv> 2"
abbreviation (input) S_ERROR :: u32 where "S_ERROR \<equiv> 4"
abbreviation (input) E_OFFLINE :: int where "E_OFFLINE \<equiv> 1"
abbreviation (input) IN_MSG_BUF_SIZE :: nat where "IN_MSG_BUF_SIZE \<equiv> 4096"
abbreviation (input) RECONNECT_TIME_SEC :: int where "RECONNECT_TIME_SEC \<equiv> 5"
abbreviation (input) FD_SETSIZE :: int where "FD_SETSIZE \<equiv> 1024"

definition writing :: "u32 \<Rightarrow> bool" where "writing st \<longleftrightarrow> st AND S_WRITING \<noteq> 0"
definition reading :: "u32 \<Rightarrow> bool" where "reading st \<longleftrightarrow> st AND S_READING \<noteq> 0"
definition watching :: "u32 \<Rightarrow> bool" where "watching st \<longleftrightarrow> st AND S_ERROR \<noteq> 0"

definition new_TransLayer :: "string \<Rightarrow> cpp_exn + 'h trans_layer" where
  "new_TransLayer host =
     map_sum (\<lambda>e. e) (\<lambda>c. \<lparr>co_host = host, t_chunks = c, t_state = 0, in_buf = [], statusChangedCallback = None,
        msgRouteMap = (\<lambda>_. None), lastConnectTime = 0, c_fd = - 1\<rparr>)
       (new_Chunks (10 * 1024 * 1024) (40 * 1024))"

definition RegPeerMsgCallback :: "int \<Rightarrow> 'h \<Rightarrow> 'h trans_layer \<Rightarrow> 'h trans_layer" where
  "RegPeerMsgCallback ty h t = t\<lparr>msgRouteMap := (msgRouteMap t)(ty \<mapsto> h)\<rparr>"

definition RegStatusChangedCallBack :: "'h \<Rightarrow> 'h trans_layer \<Rightarrow> 'h trans_layer" where
  "RegStatusChangedCallBack h t = t\<lparr>statusChangedCallback := Some h\<rparr>"

definition ResetMsgHandler :: "'h trans_layer \<Rightarrow> 'h trans_layer" where
  "ResetMsgHandler t = t\<lparr>statusChangedCallback := None, msgRouteMap := (\<lambda>_. None)\<rparr>"

definition delete_TransLayer :: "'h trans_layer \<Rightarrow> kernel \<Rightarrow> kernel" where
  "delete_TransLayer t k = (if c_fd t \<noteq> - 1 then close_socket (c_fd t) k else k)"

section \<open>Writing\<close>

function write_loop :: "bytes \<Rightarrow> nat \<Rightarrow> u32 \<times> kernel \<Rightarrow> int \<times> u32 \<times> kernel" where
  "write_loop data buf_ofs (st, k) =
     (if buf_ofs < length data then
        (case sys_send (drop buf_ofs data) k of
           (ret, err, k) \<Rightarrow>
             if 0 < ret then write_loop data (buf_ofs + nat ret) (st, k)
             else if ret = - 1 then
               (if nonblock_error err then (int buf_ofs, st OR S_WRITING, k) else (- 1, st, k))
             else (- 1, st, k))
      else (int (length data), st AND NOT S_WRITING, k))"
  by pat_completeness auto
termination
  by (relation "measure (\<lambda>(data, buf_ofs, p). length data - buf_ofs)") auto

declare write_loop.simps [simp del]

text \<open>\<^verbatim>\<open>_do_write_data\<close>, on the part of the state it works on: the event mask and the system.\<close>

definition do_write_data :: "u32 \<times> kernel \<Rightarrow> bytes \<Rightarrow> int \<times> u32 \<times> kernel" where
  "do_write_data p data = write_loop data 0 p"

definition send_msg_to_collector :: "'h trans_layer \<Rightarrow> kernel \<Rightarrow> (int \<times> 'h trans_layer \<times> kernel) option" where
  "send_msg_to_collector t k =
     (case drainOutWithPipe do_write_data (t_state t, k) (t_chunks t) of
        None \<Rightarrow> None
      | Some (r, (st, k), c) \<Rightarrow> Some (r, t\<lparr>t_state := st, t_chunks := c\<rparr>, k))"

section \<open>Framing\<close>

text \<open>Numbers in network byte order, and the header: the type, then the length of the body.\<close>

definition htonl :: "u32 \<Rightarrow> bytes" where
  "htonl w = map (\<lambda>i. char_of (unat (drop_bit i w))) [24, 16, 8, 0]"

definition ntohl :: "bytes \<Rightarrow> u32" where
  "ntohl bs = foldl (\<lambda>w b. push_bit 8 w OR of_char b) 0 bs"

definition header :: "u32 \<Rightarrow> u32 \<Rightarrow> bytes" where
  "header ty len = htonl ty @ htonl len"

definition copy_into_send_buffer :: "allocator \<Rightarrow> bytes \<Rightarrow> 'h trans_layer \<Rightarrow> bool \<times> 'h trans_layer" where
  "copy_into_send_buffer malloc data t =
     (if \<not> checkCapacity (word_of_nat (8 + length data)) (t_chunks t) then (False, t)
      else
        let c = snd (copyDataIntoChunks malloc (header 1 (word_of_nat (length data))) 8 (t_chunks t));
            c = snd (copyDataIntoChunks malloc data (word_of_nat (length data)) c)
        in (True, t\<lparr>t_chunks := c, t_state := t_state t OR S_WRITING\<rparr>))"

text \<open>The loop of \<^verbatim>\<open>HandleMsgStream\<close> from \<open>offset\<close> on.\<close>

function msg_loop :: "('h, 'a) callbacks \<Rightarrow> (int \<rightharpoonup> 'h) \<Rightarrow> bytes \<Rightarrow> nat \<Rightarrow> ('a, int) proc" where
  "msg_loop cb route buf offset a =
     (if 8 \<le> length buf - offset then
        let ty = ntohl (take 4 (drop offset buf));
            body_len = unat (ntohl (take 4 (drop (offset + 4) buf))) in
        if IN_MSG_BUF_SIZE - 8 < body_len then (Inr (- 1), a)
        else if length buf - offset < 8 + body_len then (Inr (int offset), a)
        else
          (case route (sint ty) of
             None \<Rightarrow> msg_loop cb route buf (offset + (8 + body_len)) a
           | Some h \<Rightarrow>
               (case on_message cb h (sint ty) (take body_len (drop (offset + 8) buf)) a of
                  (Inl e, a) \<Rightarrow> (Inl e, a)
                | (Inr ret, a) \<Rightarrow>
                    if ret = - 1 then (Inr (- 1), a)
                    else msg_loop cb route buf (offset + (8 + body_len)) a))
      else (Inr (int offset), a))"
  by pat_completeness auto
termination
  by (relation "measure (\<lambda>(cb, route, buf, offset, a). length buf - offset)") auto

declare msg_loop.simps [simp del]

definition HandleMsgStream :: "('h, 'a) callbacks \<Rightarrow> (int \<rightharpoonup> 'h) \<Rightarrow> bytes \<Rightarrow> ('a, int) proc" where
  "HandleMsgStream cb route buf = msg_loop cb route buf 0"

section \<open>Reading\<close>

definition pending :: "kernel \<Rightarrow> nat" where
  "pending k = (\<Sum>a \<leftarrow> k_recvs k. case a of Arrives b bs \<Rightarrow> Suc (length bs) | _ \<Rightarrow> 1)"

lemma sys_recv_pending:
  assumes "sys_recv room k = (ret, err, d, k')" and "0 < ret"
  shows "pending k' + length d = pending k \<and> d \<noteq> [] \<and> length d \<le> room \<and> ret = int (length d)"
proof -
  from assms obtain b bs as where k: "k_recvs k = Arrives b bs # as"
    by (auto simp: sys_recv_def split: list.splits recv_answer.splits)
  have len: "length (drop room (b # bs)) + length (take room (b # bs)) = Suc (length bs)" by simp
  show ?thesis
    using assms k len by (cases "drop room (b # bs)") (auto simp: sys_recv_def pending_def Let_def)
qed

text \<open>The loop of \<^verbatim>\<open>recvByteStream\<close>; the first component of the state is the receive buffer.\<close>

function recv_loop :: "('h, 'a) callbacks \<Rightarrow> (int \<rightharpoonup> 'h) \<Rightarrow> bytes \<Rightarrow> kernel \<Rightarrow> 'a \<Rightarrow> (cpp_exn + int) \<times> bytes \<times> kernel \<times> 'a" where
  "recv_loop cb route buf k a =
     (if length buf < IN_MSG_BUF_SIZE then
        (case sys_recv (IN_MSG_BUF_SIZE - length buf) k of
           (ret, err, d, k') \<Rightarrow>
             if 0 < ret then
               (case HandleMsgStream cb route (buf @ d) a of
                  (Inl e, a') \<Rightarrow> (Inl e, buf, k', a')
                | (Inr msg_offset, a') \<Rightarrow>
                    if msg_offset < 0 then (Inr (- 1), buf, k', a')
                    else recv_loop cb route (drop (nat msg_offset) (buf @ d)) k' a')
             else if ret = 0 then (Inr (- 1), buf, k', a)
             else if nonblock_error err then (Inr 0, buf, k', a)
             else (Inr (- 1), buf, k', a))
      else (Inr (- 1), buf, k, a))"
  by pat_completeness auto
termination
proof (relation "measure (\<lambda>(cb, route, buf, k, a). pending k)", goal_cases)
  case 2
  then show ?case by (auto dest!: sys_recv_pending [OF sym] simp: neq_Nil_conv)
qed simp

declare recv_loop.simps [simp del]

definition recvByteStream :: "('h, 'a) callbacks \<Rightarrow> (('h, 'a) net, int) proc" where
  "recvByteStream cb n =
     (case recv_loop cb (msgRouteMap (layer n)) (in_buf (layer n)) (kern n) (env n) of
        (r, buf, k, a) \<Rightarrow> (r, n\<lparr>layer := (layer n)\<lparr>in_buf := buf\<rparr>, kern := k, env := a\<rparr>))"

section \<open>Connecting\<close>

definition schar :: "char \<Rightarrow> int" where
  "schar c = (let n = of_char c in if n < 128 then n else n - 256)"

definition toupper :: "int \<Rightarrow> int" where
  "toupper c = (if 97 \<le> c \<and> c \<le> 122 then c - 32 else c)"

fun strcasecmp :: "string \<Rightarrow> string \<Rightarrow> int" where
  "strcasecmp (a # s1) (b # s2) =
     (if toupper (schar a) \<noteq> toupper (schar b) then schar a - schar b else strcasecmp s1 s2)"
| "strcasecmp s1 [] = 0"
| "strcasecmp [] (b # s2) = - 1"

text \<open>The search for the last colon, from \<open>offset\<close> downwards; the first character is not looked at.\<close>

fun colon_from :: "string \<Rightarrow> nat \<Rightarrow> nat option" where
  "colon_from remote offset =
     (if remote ! offset = CHR '':'' then Some offset
      else if offset \<le> 1 then None
      else colon_from remote (offset - 1))"

declare colon_from.simps [simp del]

fun dial_loop :: "nat \<Rightarrow> kernel \<Rightarrow> int \<times> kernel" where
  "dial_loop 0 k = (- 1, k)"
| "dial_loop (Suc n) k =
     (case sys_socket k of
        (sfd, k) \<Rightarrow>
          if sfd = - 1 then dial_loop n k
          else
            (case sys_connect k of
               (ret, err, k) \<Rightarrow>
                 if ret = 0 \<or> ret = - 1 \<and> nonblock_error err then (sfd, k)
                 else dial_loop n (close_socket sfd k)))"

text \<open>
  \<^verbatim>\<open>connect_stream_remote\<close> on the address behind \<open>tcp:\<close>.  For the empty address the search starts one
  character too early, at the colon of the prefix, and the length -1 of the host name makes
  \<^verbatim>\<open>std::string\<close> throw a \<^verbatim>\<open>std::length_error\<close>, which is a \<^verbatim>\<open>std::logic_error\<close>.
\<close>

definition connect_stream_remote :: "string \<Rightarrow> (kernel, int) proc" where
  "connect_stream_remote remote k =
     (if remote = [] then (Inl Logic_error, k)
      else
        case colon_from remote (length remote - 1) of
          None \<Rightarrow> (Inr (- 1), k)
        | Some offset \<Rightarrow>
            (case sys_getaddrinfo (take offset remote) (drop (offset + 1) remote) k of
               (None, k) \<Rightarrow> (Inr (- 1), k)
             | (Some n, k) \<Rightarrow> (case dial_loop n k of (sfd, k) \<Rightarrow> (Inr sfd, k))))"

text \<open>The room for the path in the address is 108 bytes, the last of which stays zero.\<close>

definition connect_unix_remote :: "string \<Rightarrow> kernel \<Rightarrow> int \<times> kernel" where
  "connect_unix_remote remote k =
     (case sys_socket k of
        (fd, k) \<Rightarrow>
          if fd < 0 then (- 1, k)
          else
            (case sys_connect (k\<lparr>k_dialled := k_dialled k @ [take 107 remote]\<rparr>) of
               (ret, err, k) \<Rightarrow>
                 if ret \<noteq> 0 \<and> (err \<noteq> EALREADY \<or> err \<noteq> EINPROGRESS)
                 then (- 1, if 0 < fd then close_socket fd k else k)
                 else (fd, k)))"

definition connect_remote :: "string \<Rightarrow> ('h trans_layer \<times> kernel, int) proc" where
  "connect_remote statement s =
     (let (t, k) = s in
      if statement = [] then (Inr (- 1), t, k)
      else
        let (now, k) = sys_time k in
        if now < lastConnectTime t + RECONNECT_TIME_SEC then (Inr (- 1), t, k)
        else
          let (now, k) = sys_time k; t = t\<lparr>lastConnectTime := now\<rparr>;
              connected = (\<lambda>fd t k. (Inr fd, t\<lparr>c_fd := fd, t_state := t_state t OR (S_ERROR OR S_READING OR S_WRITING)\<rparr>, k)) in
          if strcasecmp statement ''unix:'' = 0 then
            (case connect_unix_remote (drop 4 statement) k of (fd, k) \<Rightarrow> connected fd t k)
          else if strcasecmp statement ''tcp:'' = 0 then
            (case connect_stream_remote (drop 4 statement) k of
               (Inl e, k) \<Rightarrow> (Inl e, t, k)
             | (Inr fd, k) \<Rightarrow> connected fd t k)
          else (Inr (- 1), t, k))"

section \<open>The event loop\<close>

definition reset_remote :: "('h, 'a) callbacks \<Rightarrow> ('h, 'a) net \<Rightarrow> ('h, 'a) net" where
  "reset_remote cb n =
     (let t = (layer n)\<lparr>in_buf := []\<rparr>;
          (t, k) = (if c_fd t \<noteq> - 1 then (t\<lparr>c_fd := - 1, t_state := 0\<rparr>, close_socket (c_fd t) (kern n)) else (t, kern n));
          a = (case statusChangedCallback t of None \<Rightarrow> env n | Some h \<Rightarrow> on_status cb h E_OFFLINE (env n))
      in n\<lparr>layer := t\<lparr>t_chunks := resetChunks (t_chunks t)\<rparr>, kern := k, env := a\<rparr>)"

definition connect_net :: "(('h, 'a) net, int) proc" where
  "connect_net n =
     (case connect_remote (c_str (co_host (layer n))) (layer n, kern n) of
        (r, t, k) \<Rightarrow> (r, n\<lparr>layer := t, kern := k\<rparr>))"

text \<open>The error exit of \<^verbatim>\<open>PoolEventOnce\<close>.\<close>

definition network_error :: "('h, 'a) callbacks \<Rightarrow> (('h, 'a) net, int) proc" where
  "network_error cb n = bindP connect_net (\<lambda>_. returnP (- 1)) (reset_remote cb n)"

text \<open>What follows a positive answer of \<^verbatim>\<open>select\<close>: the error event, then reading, then writing.\<close>

definition write_event :: "('h, 'a) callbacks \<Rightarrow> bool \<Rightarrow> ('h, 'a) net \<Rightarrow> ((cpp_exn + int) \<times> ('h, 'a) net) option" where
  "write_event cb w n =
     (if writing (t_state (layer n)) \<and> w then
        (case send_msg_to_collector (layer n) (kern n) of
           None \<Rightarrow> None
         | Some (r, t, k) \<Rightarrow>
             (let n = n\<lparr>layer := t, kern := k\<rparr> in
              Some (if r = - 1 then network_error cb n else (Inr 0, n))))
      else Some (Inr 0, n))"

definition handle_events :: "('h, 'a) callbacks \<Rightarrow> bool \<Rightarrow> bool \<Rightarrow> bool \<Rightarrow> ('h, 'a) net \<Rightarrow> ((cpp_exn + int) \<times> ('h, 'a) net) option" where
  "handle_events cb e r w n =
     (if watching (t_state (layer n)) \<and> e then Some (network_error cb n)
      else if reading (t_state (layer n)) \<and> r then
        (case recvByteStream cb n of
           (Inl x, n) \<Rightarrow> Some (Inl x, n)
         | (Inr ret, n) \<Rightarrow> if ret = - 1 then Some (network_error cb n) else write_event cb w n)
      else write_event cb w n)"

text \<open>The \<^verbatim>\<open>timeval\<close>: an unsigned division, and the remainder of the number read as a signed one.\<close>

definition timeval :: "u32 \<Rightarrow> int \<times> int" where
  "timeval timeout = (uint (timeout div 1000), sgn (sint timeout) * (\<bar>sint timeout\<bar> mod 1000))"

definition poll_once :: "('h, 'a) callbacks \<Rightarrow> u32 \<Rightarrow> ('h, 'a) net \<Rightarrow> ((cpp_exn + int) \<times> ('h, 'a) net) option" where
  "poll_once cb timeout n =
     (let fd = c_fd (layer n) in
      if fd < 0 \<or> FD_SETSIZE \<le> fd then Some (Inr (- 1), reset_remote cb n)
      else
        let wset = writing (t_state (layer n)) in
        (case sys_select (timeval timeout) (kern n) of
           (SelectFails, k) \<Rightarrow> Some (Inr (- 1), n\<lparr>kern := k\<rparr>)
         | (Elapses, k) \<Rightarrow> Some (Inr 0, n\<lparr>kern := k\<rparr>)
         | (Signals e r w, k) \<Rightarrow> handle_events cb e r (w \<and> wset) (n\<lparr>kern := k\<rparr>)))"

definition PoolEventOnce :: "('h, 'a) callbacks \<Rightarrow> u32 \<Rightarrow> ('h, 'a) net \<Rightarrow> ((cpp_exn + int) \<times> ('h, 'a) net) option" where
  "PoolEventOnce cb timeout n =
     (if c_fd (layer n) = - 1 then
        (case connect_net n of
           (Inl e, n) \<Rightarrow> Some (Inl e, n)
         | (Inr _, n) \<Rightarrow> if c_fd (layer n) = - 1 then Some (Inr (- 1), n) else poll_once cb timeout n)
      else poll_once cb timeout n)"

text \<open>The loop of \<^verbatim>\<open>SyncSendAll\<close> with the number of tries that are left.\<close>

primrec sync_loop :: "('h, 'a) callbacks \<Rightarrow> u32 \<Rightarrow> nat \<Rightarrow> ('h, 'a) net \<Rightarrow> ((cpp_exn + unit) \<times> ('h, 'a) net) option" where
  "sync_loop cb timeout 0 n = Some (Inr (), n)"
| "sync_loop cb timeout (Suc tries) n =
     (if writing (t_state (layer n)) then
        (case PoolEventOnce cb timeout n of
           None \<Rightarrow> None
         | Some (Inl e, n) \<Rightarrow> Some (Inl e, n)
         | Some (Inr _, n) \<Rightarrow> sync_loop cb timeout tries n)
      else Some (Inr (), n))"

definition SyncSendAll :: "('h, 'a) callbacks \<Rightarrow> u32 \<Rightarrow> ('h, 'a) net \<Rightarrow> ((cpp_exn + unit) \<times> ('h, 'a) net) option" where
  "SyncSendAll cb maxTimeout n = sync_loop cb maxTimeout 20 n"

end
