(* ===== verification/Layer_Streams.thy ===== *)
theory Layer_Streams
  imports Trans_Layer
begin

text \<open>
  What the connection to the collector promises: bytes leave the send buffer in the order they were
  put in, a buffer that is not empty always waits for the socket to become writable, and the
  messages of the peer are delivered whole and in order, however the network cuts them.
\<close>

unbundle bit_operations_syntax

section \<open>The write callback is a sink\<close>

lemma of_char_byte: "(of_char (char_of (unat (x :: u32))) :: u32) = take_bit 8 x"
proof -
  have "(of_char (char_of (unat x)) :: u32) = of_nat (of_char (char_of (unat x) :: char))" by (simp only: of_nat_of_char)
  also have "\<dots> = of_nat (unat x mod 2 ^ 8)" by (simp only: of_char_of) simp
  also have "unat x mod 2 ^ 8 = unat (take_bit 8 x)" by (metis take_bit_eq_mod unsigned_take_bit_eq)
  also have "word_of_nat (unat (take_bit 8 x)) = take_bit 8 x" by simp
  finally show ?thesis .
qed

lemma bytes_of_word: "push_bit 8 (push_bit 8 (push_bit 8 (take_bit 8 (drop_bit 24 w)) OR take_bit 8 (drop_bit 16 w)) OR
    take_bit 8 (drop_bit 8 w)) OR take_bit 8 w = (w :: u32)"
proof (rule bit_word_eqI)
  fix n :: nat
  assume "n < LENGTH(32)"
  then consider "n < 8" | "8 \<le> n" "n < 16" | "16 \<le> n" "n < 24" | "24 \<le> n" "n < 32" by fastforce
  then show "bit (push_bit 8 (push_bit 8 (push_bit 8 (take_bit 8 (drop_bit 24 w)) OR take_bit 8 (drop_bit 16 w)) OR
    take_bit 8 (drop_bit 8 w)) OR take_bit 8 w) n = bit w n"
    by cases (auto simp: bit_simps)
qed

lemma ntohl_htonl: "ntohl (htonl w) = w"
  using bytes_of_word [of w] by (simp add: ntohl_def htonl_def of_char_byte)
lemma htonl_length [simp]: "length (htonl w) = 4" by (simp add: htonl_def)
lemma header_length [simp]: "length (header ty n) = 8" by (simp add: header_def)

lemma writing_mask [simp]: "writing (st OR 1)" "\<not> writing (st AND - 2)"
  by (simp_all add: writing_def bit_eq_iff bit_simps) (auto simp: bit_simps intro: exI [of _ 0])

lemma write_loop_spec:
  assumes "write_loop d i (st, k) = (n, st', k')" and "i \<le> length d"
  shows "- 1 \<le> n \<and> n \<le> int (length d) \<and> (\<exists>m. k_out k' = k_out k @ take m (drop i d) \<and> (0 \<le> n \<longrightarrow> i + m = nat n)) \<and>
     (0 \<le> n \<longrightarrow> (writing st' \<longleftrightarrow> n < int (length d)))"
  using assms
proof (induction d i "(st, k)" arbitrary: st k rule: write_loop.induct)
  case (1 d i st k)
  show ?case 
  proof (cases "i < length d")
    case False
    with 1 show ?thesis by (auto simp: write_loop.simps [of d i])
  next
    case True
    obtain ret err k1 where s: "sys_send (drop i d) k = (ret, err, k1)" by (cases "sys_send (drop i d) k")
    show ?thesis
    proof (cases "0 < ret")
      case True
      then obtain m where m: "ret = int m" "0 < m" "m \<le> length d - i" "k_out k1 = k_out k @ take m (drop i d)"
        using s by (auto simp: sys_send_def Let_def split: list.splits send_answer.splits)
      have *: "take m (drop i d) @ take j (drop (i + m) d) = take (m + j) (drop i d)" for j
        unfolding take_add by (simp add: add.commute)
      show ?thesis 
        using 1(1) [OF \<open>i < length d\<close> s [symmetric] _ True] m 1(2,3) \<open>i < length d\<close> True s
        by (force simp: write_loop.simps [of d i] * add.assoc)
    next
      case F: False
      then have "k_out k1 = k_out k" using s True
        by (auto simp: sys_send_def Let_def split: list.splits send_answer.splits)
      then show ?thesis using True F s 1(2) by (auto simp: write_loop.simps [of d i] split: if_splits)
    qed
  qed
qed

interpretation collector: sink do_write_data "\<lambda>p. k_out (snd p)" "\<lambda>p. writing (fst p)"
proof
  fix p d n p'
  assume run: "do_write_data p d = (n, p')"
  obtain st k where p: "p = (st, k)" by fastforce
  obtain st' k' where p': "p' = (st', k')" by fastforce
  note spec = write_loop_spec [of d 0 st k n st' k']
  show "- 1 \<le> n \<and> n \<le> int (length d)" using spec run p p' by (simp add: do_write_data_def)
  show "\<exists>m. k_out (snd p') = k_out (snd p) @ take m d \<and> (0 \<le> n \<longrightarrow> m = nat n)"
    using spec run p p' by (simp add: do_write_data_def)
  show "0 \<le> n \<Longrightarrow> writing (fst p') \<longleftrightarrow> n < int (length d)" using spec run p p' by (simp add: do_write_data_def)
qed

section \<open>The event loop\<close>

text \<open>
  The invariant: the send buffer is well formed, the receive buffer has room, and as long as there is
  something to send the layer waits for the socket to become writable.
\<close>

definition layer_inv :: "'h trans_layer \<Rightarrow> bool" where
  "layer_inv t \<longleftrightarrow> chunks_inv (t_chunks t) \<and> length (in_buf t) < 4096 \<and>
     (content (t_chunks t) \<noteq> [] \<longrightarrow> writing (t_state t))"

definition unsent :: "('h, 'a) net \<Rightarrow> bytes" where
  "unsent n = content (t_chunks (layer n))"

definition wire :: "('h, 'a) net \<Rightarrow> bytes" where
  "wire n = k_out (kern n)"

definition setup_of :: "('h, 'a) net \<Rightarrow> string \<times> 'h option \<times> (int \<rightharpoonup> 'h)" where
  "setup_of n = (co_host (layer n), statusChangedCallback (layer n), msgRouteMap (layer n))"

lemma send_msg_spec:
  assumes "chunks_inv (t_chunks t)"
  shows "\<exists>r st c k'. send_msg_to_collector t k = Some (r, t\<lparr>t_state := st, t_chunks := c\<rparr>, k') \<and> (r = 0 \<or> r = - 1) \<and>
     chunks_inv c \<and> (r = 0 \<longrightarrow> k_out k' @ content c = k_out k @ content (t_chunks t) \<and> (content c \<noteq> [] \<longrightarrow> writing st))"
  using collector.drain_fifo [OF assms, of "(t_state t, k)"]
  by (auto simp: send_msg_to_collector_def collector.drained_def)


lemma msg_loop_range:
  assumes "msg_loop cb route buf i a = (Inr r, a')" and "i \<le> length buf" and "r \<noteq> - 1"
  shows "0 \<le> r \<and> r \<le> int (length buf) \<and> length buf - nat r < 4096"
  using assms
proof (induction cb route buf i a rule: msg_loop.induct)
  case (1 cb route buf i a)
  let ?len = "unat (ntohl (take 4 (drop (i + 4) buf)))"
  consider (short) "\<not> 8 \<le> length buf - i" | (large) "8 \<le> length buf - i" "4088 < ?len"
    | (part) "8 \<le> length buf - i" "?len \<le> 4088" "length buf - i < 8 + ?len"
    | (whole) "8 \<le> length buf - i" "?len \<le> 4088" "8 + ?len \<le> length buf - i" by linarith
  then show ?case
  proof cases
    case whole
    have le: "i + (8 + ?len) \<le> length buf" using whole by linarith
    then obtain a1 where "msg_loop cb route buf (i + (8 + ?len)) a1 = (Inr r, a')" and
      "msg_loop cb route buf (i + (8 + ?len)) a1 = (Inr r, a') \<Longrightarrow> 0 \<le> r \<and> r \<le> int (length buf) \<and> length buf - nat r < 4096"
    proof (cases "route (sint (ntohl (take 4 (drop i buf))))")
      case None
      then show ?thesis
        using that [of a] 1(1) [OF whole(1) refl refl _ _ None] 1(3,5) whole le by (simp add: msg_loop.simps [of cb route buf i])
    next
      case (Some h)
      let ?call = "on_message cb h (sint (ntohl (take 4 (drop i buf)))) (take ?len (drop (i + 8) buf)) a"
      obtain ret a1 where call: "?call = (Inr ret, a1)" "ret \<noteq> - 1"
        using 1(3,5) whole Some by (cases ?call; cases "fst ?call") (auto simp: msg_loop.simps [of cb route buf i] split: if_splits)
      show ?thesis
        using that [of a1] 1(2) [OF whole(1) refl refl _ _ Some call(1) [symmetric] refl call(2)] 1(3,5) whole le call Some
        by (simp add: msg_loop.simps [of cb route buf i])
    qed
    then show ?thesis by blast
  qed (use 1(3-5) in \<open>auto simp: msg_loop.simps [of cb route buf i] Let_def\<close>)
qed

lemma recv_loop_buf:
  assumes "recv_loop cb route buf k a = (r, buf', k', a')" and "length buf < 4096"
  shows "length buf' < 4096 \<and> k_out k' = k_out k \<and> k_waits k' = k_waits k"
  using assms
proof (induction cb route buf k a rule: recv_loop.induct)
  case (1 cb route buf k a)
  obtain ret err d k1 where s: "sys_recv (4096 - length buf) k = (ret, err, d, k1)" by (metis prod_cases4)
  have out: "k_out k1 = k_out k \<and> k_waits k1 = k_waits k"
    using s by (auto simp: sys_recv_def Let_def split: list.splits recv_answer.splits)
  obtain h a1 where h: "HandleMsgStream cb route (buf @ d) a = (h, a1)" by fastforce
  show ?case
  proof (cases "0 < ret \<and> (\<exists>off. h = Inr off \<and> 0 \<le> off)")
    case True
    then obtain off where off: "h = Inr off" "0 \<le> off" by blast
    have "length (drop (nat off) (buf @ d)) < 4096"
      using msg_loop_range [OF h [unfolded HandleMsgStream_def off]] off unfolding length_drop by simp
    then show ?thesis
      using 1(1) [OF 1(3) s [symmetric] refl refl _ h [symmetric] off(1)] 1(2,3) s h off True out
      by (simp add: recv_loop.simps [of cb route buf])
  next
    case False
    then show ?thesis
      using 1(2,3) s h out by (auto simp: recv_loop.simps [of cb route buf] split: sum.splits if_splits)
  qed
qed


text \<open>
  What a round of events may do: it keeps the invariant and the set-up.  When it reports 0, no byte is
  lost, repeated or reordered between the buffer and the wire; when it reports a failure, either
  nothing has happened to the buffer or the buffer has been emptied together with its connection.
\<close>

definition event_spec :: "('h, 'a) net \<Rightarrow> cpp_exn + int \<Rightarrow> ('h, 'a) net \<Rightarrow> bool" where
  "event_spec n r n' \<longleftrightarrow> layer_inv (layer n') \<and> setup_of n' = setup_of n \<and>
     (if r = Inr 0 then wire n' @ unsent n' = wire n @ unsent n
      else unsent n' = [] \<or> unsent n' = unsent n \<and> wire n' = wire n)"

lemma writing_or [simp]: "writing (a OR b) \<longleftrightarrow> writing a \<or> writing b"
  by (auto simp: writing_def bit_eq_iff bit_simps)

lemma writing_0 [simp]: "\<not> writing 0" "writing 1" "writing 7"
  by (simp_all add: writing_def)

lemma reset_remote_spec:
  assumes "chunks_inv (t_chunks (layer n))"
  shows "layer_inv (layer (reset_remote cb n)) \<and> unsent (reset_remote cb n) = [] \<and>
         setup_of (reset_remote cb n) = setup_of n \<and> wire (reset_remote cb n) = wire n"
  using assms resetChunks_inv [of "t_chunks (layer n)"]
  by (auto simp: reset_remote_def layer_inv_def unsent_def setup_of_def wire_def Let_def close_socket_def)

lemma dial_loop_out: "dial_loop m k = (fd, k') \<Longrightarrow> k_out k' = k_out k"
  by (induction m arbitrary: k)
    (auto simp: sys_socket_def sys_connect_def close_socket_def split: list.splits if_splits prod.splits)

lemma connect_out:
  "connect_stream_remote r k = (x, k') \<Longrightarrow> k_out k' = k_out k"
  "connect_unix_remote r k = (fd, k') \<Longrightarrow> k_out k' = k_out k"
  by (auto simp: connect_stream_remote_def connect_unix_remote_def sys_getaddrinfo_def sys_socket_def sys_connect_def close_socket_def Let_def
    dest: dial_loop_out split: list.splits if_splits prod.splits option.splits)

lemma connect_remote_spec:
  assumes "connect_remote st (t, k) = (r, t', k')"
  shows "k_out k' = k_out k \<and> (\<exists>time fd mask. t' = t\<lparr>lastConnectTime := time, c_fd := fd, t_state := t_state t OR mask\<rparr>)"
proof -
  have self: "\<exists>time fd mask. t\<lparr>lastConnectTime := x\<rparr> = t\<lparr>lastConnectTime := time, c_fd := fd, t_state := t_state t OR mask\<rparr>" for x
    by (rule exI [of _ x], rule exI [of _ "c_fd t"], rule exI [of _ 0]) simp
  have same: "\<exists>time fd mask. t = t\<lparr>lastConnectTime := time, c_fd := fd, t_state := t_state t OR mask\<rparr>"
    using self [of "lastConnectTime t"] by simp
  have upd: "\<exists>time fd mask. t\<lparr>lastConnectTime := x, t_state := t_state t OR m, c_fd := y\<rparr> =
      t\<lparr>lastConnectTime := time, c_fd := fd, t_state := t_state t OR mask\<rparr>" for x y m
    by (rule exI [of _ x], rule exI [of _ y], rule exI [of _ m]) simp
  have time: "k_out k1 = k_out k0" if "sys_time k0 = (x, k1)" for k0 k1 x
    using that by (auto simp: sys_time_def split: list.splits)
  obtain now k1 where t1: "sys_time k = (now, k1)" by fastforce
  obtain now' k2 where t2: "sys_time k1 = (now', k2)" by fastforce
  have out: "k_out k2 = k_out k" "k_out k1 = k_out k" using time [OF t1] time [OF t2] by simp_all
  let ?r = "drop 4 st"
  obtain u ku where u: "connect_unix_remote ?r k2 = (u, ku)" by fastforce
  obtain v kv where v: "connect_stream_remote ?r k2 = (v, kv)" by fastforce
  have outs: "k_out ku = k_out k" "k_out kv = k_out k" using connect_out u v out by simp_all
  show ?thesis
    using assms same self upd out outs
    by (cases v) (auto simp: connect_remote_def Let_def t1 t2 u v split: if_splits)
qed

lemma connect_net_spec:
  assumes "connect_net n = (r, n')" and "layer_inv (layer n)"
  shows "layer_inv (layer n') \<and> setup_of n' = setup_of n \<and> unsent n' = unsent n \<and> wire n' = wire n \<and> env n' = env n"
proof -
  obtain t k where run: "connect_remote (c_str (co_host (layer n))) (layer n, kern n) = (r, t, k)" "n' = n\<lparr>layer := t, kern := k\<rparr>"
    using assms(1) by (auto simp: connect_net_def split: prod.splits)
  show ?thesis
    using connect_remote_spec [OF run(1)] assms(2) run(2)
    by (auto simp: layer_inv_def setup_of_def unsent_def wire_def)
qed

lemma network_error_spec:
  assumes "network_error cb n = (r, n')" and "chunks_inv (t_chunks (layer n))"
  shows "layer_inv (layer n') \<and> setup_of n' = setup_of n \<and> unsent n' = [] \<and> r \<noteq> Inr 0"
  using assms reset_remote_spec [OF assms(2), of cb] connect_net_spec [of "reset_remote cb n"]
  by (auto simp: network_error_def bindP_def split: prod.splits sum.splits)

lemma network_error_event:
  assumes "chunks_inv (t_chunks (layer n))" and "setup_of n = setup_of n0"
  shows "\<exists>r n'. network_error cb n = (r, n') \<and> event_spec n0 r n'"
  using network_error_spec [OF _ assms(1)] assms(2) by (cases "network_error cb n") (auto simp: event_spec_def)

lemma write_event_spec:
  assumes "layer_inv (layer n)" and "setup_of n = setup_of n0" and "wire n = wire n0" and "unsent n = unsent n0"
  shows "\<exists>r n'. write_event cb w n = Some (r, n') \<and> event_spec n0 r n'"
proof (cases "writing (t_state (layer n)) \<and> w")
  case True
  have inv: "chunks_inv (t_chunks (layer n))" using assms(1) by (simp add: layer_inv_def)
  then obtain r st c k' where run: "send_msg_to_collector (layer n) (kern n) = Some (r, (layer n)\<lparr>t_state := st, t_chunks := c\<rparr>, k')"
      "r = 0 \<or> r = - 1" "chunks_inv c"
      "r = 0 \<longrightarrow> k_out k' @ content c = k_out (kern n) @ content (t_chunks (layer n)) \<and> (content c \<noteq> [] \<longrightarrow> writing st)"
    using send_msg_spec [of "layer n" "kern n"] by blast
  let ?n = "n\<lparr>layer := (layer n)\<lparr>t_state := st, t_chunks := c\<rparr>, kern := k'\<rparr>"
  show ?thesis
  proof (cases "r = 0")
    case R: True
    have "event_spec n0 (Inr 0) ?n"
      using run(3,4) R assms by (auto simp: event_spec_def layer_inv_def setup_of_def unsent_def wire_def)
    then show ?thesis using True run(1) R by (simp add: write_event_def)
  next
    case False
    have "\<exists>r n'. network_error cb ?n = (r, n') \<and> event_spec n0 r n'"
      using run(3) assms(2) by (intro network_error_event) (simp_all add: setup_of_def)
    then show ?thesis using True run(1,2) False by (simp add: write_event_def)
  qed
next
  case False
  then show ?thesis using assms by (auto simp: write_event_def event_spec_def)
qed


lemma recvByteStream_spec:
  assumes "recvByteStream cb n = (r, n')" and "layer_inv (layer n)"
  shows "layer_inv (layer n') \<and> setup_of n' = setup_of n \<and> unsent n' = unsent n \<and> wire n' = wire n"
proof -
  obtain buf k a where run: "recv_loop cb (msgRouteMap (layer n)) (in_buf (layer n)) (kern n) (env n) = (r, buf, k, a)"
      "n' = n\<lparr>layer := (layer n)\<lparr>in_buf := buf\<rparr>, kern := k, env := a\<rparr>"
    using assms(1) by (auto simp: recvByteStream_def split: prod.splits)
  show ?thesis
    using recv_loop_buf [OF run(1)] assms(2) run(2) by (simp add: layer_inv_def setup_of_def unsent_def wire_def)
qed

lemma layer_inv_chunks: "layer_inv t \<Longrightarrow> chunks_inv (t_chunks t)"
  by (simp add: layer_inv_def)

lemma handle_events_spec:
  assumes "layer_inv (layer n)" and "setup_of n = setup_of n0" and "wire n = wire n0" and "unsent n = unsent n0"
  shows "\<exists>r n'. handle_events cb e rd w n = Some (r, n') \<and> event_spec n0 r n'"
proof -
  obtain x n1 where recv: "recvByteStream cb n = (x, n1)" by fastforce
  note n1 = recvByteStream_spec [OF recv assms(1)]
  have err: "\<exists>r n'. network_error cb m = (r, n') \<and> event_spec n0 r n'" if "layer_inv (layer m)" "setup_of m = setup_of n0" for m
    using network_error_event [OF layer_inv_chunks [OF that(1)] that(2)] .
  have wr: "\<exists>r n'. write_event cb w m = Some (r, n') \<and> event_spec n0 r n'"
    if "layer_inv (layer m)" "setup_of m = setup_of n0" "wire m = wire n0" "unsent m = unsent n0" for m
    using write_event_spec [OF that] .
  show ?thesis
  proof (cases x)
    case (Inl y)
    then have "event_spec n0 (Inl y) n1" using n1 assms by (simp add: event_spec_def)
    then show ?thesis using err [of n] wr [of n] assms Inl recv by (simp add: handle_events_def)
  next
    case (Inr ret)
    then show ?thesis using err [of n] wr [of n] err [of n1] wr [of n1] n1 assms recv by (simp add: handle_events_def)
  qed
qed

lemma poll_once_spec:
  assumes "layer_inv (layer n)" and "setup_of n = setup_of n0" and "wire n = wire n0" and "unsent n = unsent n0"
  shows "\<exists>r n'. poll_once cb timeout n = Some (r, n') \<and> event_spec n0 r n'"
proof -
  obtain ans k where sel: "sys_select (timeval timeout) (kern n) = (ans, k)" by fastforce
  have "k_out k = k_out (kern n)" using sel by (auto simp: sys_select_def Let_def split: list.splits)
  then have k: "layer_inv (layer (n\<lparr>kern := k\<rparr>))" "setup_of (n\<lparr>kern := k\<rparr>) = setup_of n0"
      "wire (n\<lparr>kern := k\<rparr>) = wire n0" "unsent (n\<lparr>kern := k\<rparr>) = unsent n0"
    using assms by (simp_all add: setup_of_def wire_def unsent_def)
  have quiet: "event_spec n0 r (n\<lparr>kern := k\<rparr>)" for r using k by (simp add: event_spec_def)
  have reset: "event_spec n0 (Inr (- 1)) (reset_remote cb n)"
    using reset_remote_spec [OF layer_inv_chunks [OF assms(1)], of cb] assms(2) by (simp add: event_spec_def)
  show ?thesis
    using reset quiet handle_events_spec [OF k] by (cases ans) (simp_all add: poll_once_def Let_def sel)
qed

lemma PoolEventOnce_spec:
  assumes "layer_inv (layer n)"
  shows "\<exists>r n'. PoolEventOnce cb timeout n = Some (r, n') \<and> event_spec n r n'"
proof -
  obtain x n1 where con: "connect_net n = (x, n1)" by fastforce
  note n1 = connect_net_spec [OF con assms]
  have "event_spec n r n1" for r using n1 by (simp add: event_spec_def)
  then show ?thesis
    using poll_once_spec [of n n cb timeout] poll_once_spec [of n1 n cb timeout] n1 assms
    by (cases x) (simp_all add: PoolEventOnce_def con)
qed

text \<open>Rounds of events compose, up to the reset of the connection.\<close>

lemma sync_loop_spec:
  assumes "layer_inv (layer n)"
  shows "\<exists>r n'. sync_loop cb timeout tries n = Some (r, n') \<and> layer_inv (layer n') \<and> setup_of n' = setup_of n"
  using assms
proof (induction tries arbitrary: n)
  case (Suc tries)
  obtain r n1 where e: "PoolEventOnce cb timeout n = Some (r, n1)" "event_spec n r n1"
    using PoolEventOnce_spec [OF Suc.prems] by blast
  then have n1: "layer_inv (layer n1)" "setup_of n1 = setup_of n" by (simp_all add: event_spec_def)
  show ?case using Suc.IH [OF n1(1)] Suc.prems e n1 by (cases r) simp_all
qed simp


section \<open>Messages\<close>

definition packet :: "u32 \<times> bytes \<Rightarrow> bytes" where
  "packet m = header (fst m) (word_of_nat (length (snd m))) @ snd m"

abbreviation packets :: "(u32 \<times> bytes) list \<Rightarrow> bytes" where
  "packets ms \<equiv> concat (map packet ms)"

abbreviation small :: "u32 \<times> bytes \<Rightarrow> bool" where
  "small m \<equiv> length (snd m) \<le> 4088"

text \<open>The messages handed to their callbacks one after the other, until one of them fails.\<close>

fun deliver :: "('h, 'a) callbacks \<Rightarrow> (int \<rightharpoonup> 'h) \<Rightarrow> (u32 \<times> bytes) list \<Rightarrow> ('a, int) proc" where
  "deliver cb route [] a = (Inr 0, a)"
| "deliver cb route (m # ms) a =
     (case route (sint (fst m)) of
        None \<Rightarrow> deliver cb route ms a
      | Some h \<Rightarrow>
          (case on_message cb h (sint (fst m)) (snd m) a of
             (Inl e, a) \<Rightarrow> (Inl e, a)
           | (Inr ret, a) \<Rightarrow> if ret = - 1 then (Inr (- 1), a) else deliver cb route ms a))"

definition body_length :: "bytes \<Rightarrow> nat" where
  "body_length z = unat (ntohl (take 4 (drop 4 z)))"

definition incomplete :: "bytes \<Rightarrow> bool" where
  "incomplete z \<longleftrightarrow> length z < 8 \<or> body_length z \<le> 4088 \<and> length z < 8 + body_length z"

lemma packet_length [simp]: "length (packet m) = 8 + length (snd m)"
  by (simp add: packet_def)

text \<open>A length that the header can hold, and bytes that end before their packet does.\<close>

abbreviation sized :: "u32 \<times> bytes \<Rightarrow> bool" where
  "sized m \<equiv> length (snd m) < 4294967296"

definition cut_short :: "bytes \<Rightarrow> bool" where
  "cut_short z \<longleftrightarrow> length z < 8 \<or> length z < 8 + body_length z"

lemma sized_unat: "sized m \<Longrightarrow> unat (word_of_nat (length (snd m)) :: u32) = length (snd m)"
  by (simp add: unsigned_of_nat take_bit_nat_eq_self)

lemma packet_parts:
  assumes "sized m"
  shows "ntohl (take 4 (packet m @ y)) = fst m" and "body_length (packet m @ y) = length (snd m)"
    and "take (length (snd m)) (drop 8 (packet m @ y)) = snd m"
  using sized_unat [OF assms] by (simp_all add: packet_def header_def body_length_def ntohl_htonl)

lemma body_length_append: "8 \<le> length b \<Longrightarrow> body_length (b @ w) = body_length b"
  by (simp add: body_length_def)

lemma cut_short_prefix: "cut_short (b @ w) \<Longrightarrow> cut_short b"
  using body_length_append [of b w] by (cases "length b < 8") (auto simp: cut_short_def)

lemma cut_short_packet:
  assumes "sized m" and "b @ w = packet m @ y" and "length b < length (packet m)"
  shows "cut_short b"
  using packet_parts(2) [OF assms(1), of y] body_length_append [of b w] assms
  by (cases "length b < 8") (auto simp: cut_short_def)

text \<open>The front of a stream of packets is some of the packets and a beginning of the next one.\<close>

lemma split_stream:
  assumes "b @ w = packets ms @ z" and "list_all sized ms" and "cut_short z"
  shows "\<exists>ms1 ms2 b'. ms = ms1 @ ms2 \<and> b = packets ms1 @ b' \<and> b' @ w = packets ms2 @ z \<and> cut_short b'"
  using assms
proof (induction ms arbitrary: b)
  case Nil
  then show ?case using cut_short_prefix [of b w] by auto
next
  case (Cons m ms)
  show ?case
  proof (cases "length (packet m) \<le> length b")
    case True
    have *: "b @ w = packet m @ (packets ms @ z)" using Cons.prems(1) by simp
    then have "take (length (packet m)) b = packet m" using True
      by (metis append_eq_conv_conj take_append diff_is_0_eq take_0 append_Nil2)
    then obtain b1 where b1: "b = packet m @ b1" by (metis append_take_drop_id)
    then obtain ms1 ms2 b' where "ms = ms1 @ ms2 \<and> b1 = packets ms1 @ b' \<and> b' @ w = packets ms2 @ z \<and> cut_short b'"
      using Cons.IH [of b1] Cons.prems * by auto
    then have "m # ms = (m # ms1) @ ms2 \<and> b = packets (m # ms1) @ b' \<and> b' @ w = packets ms2 @ z \<and> cut_short b'"
      using b1 by simp
    then show ?thesis by blast
  next
    case False
    then have "cut_short b" using cut_short_packet [of m b w "packets ms @ z"] Cons.prems by simp
    then have "m # ms = [] @ (m # ms) \<and> b = packets [] @ b \<and> b @ w = packets (m # ms) @ z \<and> cut_short b"
      using Cons.prems by simp
    then show ?thesis by blast
  qed
qed

lemma incomplete_iff: "incomplete z \<longleftrightarrow> cut_short z \<and> (8 \<le> length z \<longrightarrow> body_length z \<le> 4088)"
  by (auto simp: incomplete_def cut_short_def)

lemma split_packets:
  assumes "b @ w = packets ms @ z" and "list_all small ms" and "incomplete z"
  shows "\<exists>ms1 ms2 b'. ms = ms1 @ ms2 \<and> b = packets ms1 @ b' \<and> b' @ w = packets ms2 @ z \<and> incomplete b'"
proof -
  have sz: "list_all sized ms" using assms(2) by (rule list.pred_mono_strong) simp
  then obtain ms1 ms2 b' where s: "ms = ms1 @ ms2" "b = packets ms1 @ b'" "b' @ w = packets ms2 @ z" "cut_short b'"
    using split_stream [OF assms(1)] assms(3) incomplete_iff by blast
  have "body_length b' \<le> 4088" if l: "8 \<le> length b'"
  proof (cases ms2)
    case Nil
    then show ?thesis using s(3) assms(3) l body_length_append [OF l, of w] by (auto simp: incomplete_iff)
  next
    case (Cons m ms)
    then show ?thesis
      using s(1,3) assms(2) sz body_length_append [OF l, of w] packet_parts(2) [of m "packets ms @ z"] by auto
  qed
  then show ?thesis using s incomplete_iff by blast
qed

lemma msg_loop_stop:
  assumes "incomplete (drop i buf)"
  shows "msg_loop cb route buf i a = (Inr (int i), a)"
  using assms by (auto simp: msg_loop.simps [of cb route buf i] incomplete_def body_length_def Let_def add.commute)

lemma msg_loop_step:
  assumes "drop i buf = packet m @ y" and "small m"
  shows "msg_loop cb route buf i a =
    (case route (sint (fst m)) of
       None \<Rightarrow> msg_loop cb route buf (i + length (packet m)) a
     | Some h \<Rightarrow>
         (case on_message cb h (sint (fst m)) (snd m) a of
            (Inl e, a) \<Rightarrow> (Inl e, a)
          | (Inr ret, a) \<Rightarrow> if ret = - 1 then (Inr (- 1), a) else msg_loop cb route buf (i + length (packet m)) a))"
proof -
  have len: "length buf - i = 8 + length (snd m) + length y"
    using arg_cong [OF assms(1), of length] by simp
  have parts: "ntohl (take 4 (drop i buf)) = fst m" "unat (ntohl (take 4 (drop (i + 4) buf))) = length (snd m)"
      "take (length (snd m)) (drop (i + 8) buf) = snd m"
    using packet_parts [of m y] assms(2) unfolding assms(1) [symmetric]
    by (simp_all add: body_length_def add.commute)
  show ?thesis
    unfolding msg_loop.simps [of cb route buf i] Let_def parts
    using len assms(2) packet_length [of m] by (simp only:) simp
qed

lemma msg_loop_packets:
  assumes "drop i buf = packets ms @ z" and "list_all small ms" and "incomplete z" and "i \<le> length buf"
  shows "msg_loop cb route buf i a =
    (case deliver cb route ms a of (r, a') \<Rightarrow> (if r = Inr 0 then Inr (int (length buf - length z)) else r, a'))"
  using assms
proof (induction ms arbitrary: i a)
  case Nil
  have "length buf - length z = i" using arg_cong [OF Nil(1), of length] Nil(4) by simp
  then show ?case using Nil msg_loop_stop [of i buf cb route a] by simp
next
  case (Cons m ms)
  have d: "drop i buf = packet m @ (packets ms @ z)" using Cons.prems(1) by simp
  have d': "drop (i + length (packet m)) buf = packets ms @ z"
    using arg_cong [OF d, of "drop (length (packet m))"] by (simp add: add.commute)
  have le: "i + length (packet m) \<le> length buf" using arg_cong [OF d, of length] Cons.prems(4) by simp
  have rest: "msg_loop cb route buf (i + length (packet m)) a =
    (case deliver cb route ms a of (r, a') \<Rightarrow> (if r = Inr 0 then Inr (int (length buf - length z)) else r, a'))" for a
    using Cons.IH [OF d' _ Cons.prems(3) le] Cons.prems(2) by simp
  show ?case
    using msg_loop_step [OF d, of cb route a] Cons.prems(2) rest
    by (simp split: option.splits prod.splits sum.splits)
qed

lemma msg_loop_oversized:
  assumes "drop i buf = packets ms @ z" and "list_all small ms" and "8 \<le> length z" and "4088 < body_length z"
    and "fst (deliver cb route ms a) = Inr 0"
  shows "msg_loop cb route buf i a = (Inr (- 1), snd (deliver cb route ms a))"
  using assms
proof (induction ms arbitrary: i a)
  case Nil
  have "drop (i + 4) buf = drop 4 z" using Nil(1) by (metis append_Nil concat.simps(1) list.map(1) add.commute drop_drop)
  then have "8 \<le> length buf - i" "4088 < unat (ntohl (take 4 (drop (i + 4) buf)))"
    using arg_cong [OF Nil(1), of length] Nil(3,4) by (simp_all add: body_length_def)
  then show ?case by (simp add: msg_loop.simps [of cb route buf i])
next
  case (Cons m ms)
  have d: "drop i buf = packet m @ (packets ms @ z)" using Cons.prems(1) by simp
  have d': "drop (i + length (packet m)) buf = packets ms @ z"
    using arg_cong [OF d, of "drop (length (packet m))"] by (simp add: add.commute)
  show ?case
    using msg_loop_step [OF d, of cb route a] Cons.prems Cons.IH [OF d']
    by (auto split: option.splits prod.splits sum.splits if_splits)
qed

lemma deliver_append:
  "deliver cb route (ms1 @ ms2) a =
     (case deliver cb route ms1 a of (r, a') \<Rightarrow> if r = Inr 0 then deliver cb route ms2 a' else (r, a'))"
  by (induction ms1 arbitrary: a) (simp_all split: option.splits prod.splits sum.splits)

lemma deliver_result: "fst (deliver cb route ms a) = Inr r \<Longrightarrow> r = 0 \<or> r = - 1"
  by (induction ms arbitrary: a) (auto split: option.splits prod.splits sum.splits if_splits)

text \<open>However the bytes of a stream arrive, the same messages are delivered.\<close>

definition segments :: "bytes list \<Rightarrow> recv_answer list" where
  "segments ds = map (\<lambda>d. Arrives (hd d) (tl d)) ds"

lemma sys_recv_segments:
  assumes "k_recvs k = segments ds" and "[] \<notin> set ds" and "ds \<noteq> []" and "0 < room"
  shows "\<exists>d ds'. sys_recv room k = (int (length d), 0, d, k\<lparr>k_recvs := segments ds'\<rparr>) \<and> d \<noteq> [] \<and>
     [] \<notin> set ds' \<and> concat ds = d @ concat ds'"
proof -
  obtain e es where ds: "ds = e # es" using assms(3) by (cases ds) auto
  then obtain b bs where e: "e = b # bs" using assms(2) by (cases e) auto
  show ?thesis
  proof (cases "drop room e")
    case Nil
    then show ?thesis using assms ds e
      by (intro exI [of _ e] exI [of _ es]) (auto simp: sys_recv_def segments_def)
  next
    case (Cons c cs)
    have "take room e @ c # cs = e" using Cons append_take_drop_id [of room e] by simp
    then show ?thesis using assms ds e Cons
      by (intro exI [of _ "take room e"] exI [of _ "(c # cs) # es"]) (auto simp: sys_recv_def segments_def Let_def)
  qed
qed

lemma recv_loop_stream:
  assumes "k_recvs k = segments ds" and "[] \<notin> set ds" and "buf @ concat ds = packets ms @ z"
    and "list_all small ms" and "incomplete z" and "incomplete buf"
    and "deliver cb route ms a = (r, a')"
  shows "\<exists>buf' k'. recv_loop cb route buf k a = (r, buf', k', a') \<and> (r = Inr 0 \<longrightarrow> buf' = z \<and> k_recvs k' = [])"
  using assms
proof (induction "length (concat ds)" arbitrary: buf k ds ms a rule: less_induct)
  case less
  have room: "length buf < 4096" using less.prems(6) by (auto simp: incomplete_def)
  show ?case
  proof (cases ds)
    case Nil
    have "ms = []"
    proof (rule ccontr)
      assume "ms \<noteq> []"
      then obtain m ms' where ms: "ms = m # ms'" by (cases ms) auto
      have "buf = packet m @ (packets ms' @ z)" "small m" using less.prems Nil ms by simp_all
      then show False using less.prems(6) packet_parts(2) [of m "packets ms' @ z"] by (auto simp: incomplete_def)
    qed
    then have "buf = z" "k_recvs k = []" "r = Inr 0" "a' = a" using less.prems Nil by (simp_all add: segments_def)
    then show ?thesis
      using room by (simp add: recv_loop.simps [of cb route z k a] sys_recv_def nonblock_error_def)
  next
    case (Cons e es)
    then obtain d ds' where recv: "sys_recv (4096 - length buf) k = (int (length d), 0, d, k\<lparr>k_recvs := segments ds'\<rparr>)"
        "d \<noteq> []" "[] \<notin> set ds'" "concat ds = d @ concat ds'"
      using sys_recv_segments [of k ds "4096 - length buf"] less.prems room by auto
    let ?k = "k\<lparr>k_recvs := segments ds'\<rparr>"
    have "(buf @ d) @ concat ds' = packets ms @ z" using less.prems(3) recv(4) by simp
    then obtain ms1 ms2 b' where s: "ms = ms1 @ ms2" "buf @ d = packets ms1 @ b'" "b' @ concat ds' = packets ms2 @ z" "incomplete b'"
      using split_packets [of "buf @ d" "concat ds'" ms z] less.prems by blast
    obtain r1 a1 where d1: "deliver cb route ms1 a = (r1, a1)" by fastforce
    have h: "HandleMsgStream cb route (buf @ d) a = (if r1 = Inr 0 then Inr (int (length (packets ms1))) else r1, a1)"
      using msg_loop_packets [of 0 "buf @ d" ms1 b' cb route a] s less.prems(4) d1
      by (simp add: HandleMsgStream_def)
    show ?thesis
    proof (cases "r1 = Inr 0")
      case True
      have "recv_loop cb route buf k a = recv_loop cb route b' ?k a1"
        using True recv h s(2) room by (simp add: recv_loop.simps [of cb route buf k a])
      moreover have "deliver cb route ms2 a1 = (r, a')" using less.prems(7) s(1) d1 True by (simp add: deliver_append)
      ultimately show ?thesis
        using less.hyps [of ds' ?k b' ms2 a1] recv(2-4) s less.prems by simp
    next
      case False
      have "r = r1" "a' = a1" using less.prems(7) s(1) d1 False by (simp_all add: deliver_append)
      moreover have "r1 = Inr x \<Longrightarrow> x = - 1" for x using deliver_result [of cb route ms1 a x] d1 False by auto
      ultimately show ?thesis
        using False recv h room by (cases r1) (auto simp: recv_loop.simps [of cb route buf k a])
    qed
  qed
qed


section \<open>Sending\<close>

lemma copy_into_send_buffer_spec:
  assumes "layer_inv t" and "length data + 12 < 2 ^ 30" and "\<And>x. malloc x \<noteq> None"
    and "copy_into_send_buffer malloc data t = (b, t')"
  shows "layer_inv t' \<and> content (t_chunks t') = content (t_chunks t) @ (if b then packet (1, data) else []) \<and>
    co_host t' = co_host t \<and> c_fd t' = c_fd t \<and> (b \<longrightarrow> writing (t_state t'))"
proof (cases b)
  case False
  then show ?thesis using assms(1,4) by (auto simp: copy_into_send_buffer_def Let_def split: if_splits)
next
  case True
  obtain r1 c1 where s1: "copyDataIntoChunks malloc (header 1 (word_of_nat (length data))) 8 (t_chunks t) = (r1, c1)" by fastforce
  obtain r2 c2 where s2: "copyDataIntoChunks malloc data (word_of_nat (length data)) c1 = (r2, c2)" by fastforce
  have t': "t' = t\<lparr>t_chunks := c2, t_state := t_state t OR 1\<rparr>"
    using assms(4) s1 s2 True by (auto simp: copy_into_send_buffer_def Let_def split: if_splits)
  have len: "unat (word_of_nat (length data) :: u32) = length data"
    using assms(2) by (simp add: unsigned_of_nat take_bit_nat_eq_self)
  have ok: "fst (copyDataIntoChunks malloc d l c) \<noteq> - 1" for d l c
    by (auto simp: copyDataIntoChunks_def copyDataIntoNewChunk_def Let_def assms(3) split: prod.splits option.splits)
  have c1: "chunks_inv c1 \<and> content c1 = content (t_chunks t) @ header 1 (word_of_nat (length data))"
    using copyDataIntoChunks_cases [OF layer_inv_chunks [OF assms(1)] _ _ s1] ok [of "header 1 (word_of_nat (length data))" 8 "t_chunks t"] s1 by auto
  have c2: "chunks_inv c2 \<and> content c2 = content c1 @ data"
    using copyDataIntoChunks_cases [OF _ _ _ s2] c1 ok [of data "word_of_nat (length data)" c1] s2 len assms(2) by auto
  show ?thesis using c1 c2 t' True assms(1) by (simp add: layer_inv_def packet_def)
qed

text \<open>Also when the allocator fails, the invariant stays.\<close>

lemma copy_into_send_buffer_inv:
  assumes "layer_inv t" and "length data + 12 < 2 ^ 30"
  shows "layer_inv (snd (copy_into_send_buffer malloc data t))"
proof -
  have len: "unat (word_of_nat (length data) :: u32) = length data"
    using assms(2) by (simp add: unsigned_of_nat take_bit_nat_eq_self)
  obtain r1 c1 where s1: "copyDataIntoChunks malloc (header 1 (word_of_nat (length data))) 8 (t_chunks t) = (r1, c1)" by fastforce
  obtain r2 c2 where s2: "copyDataIntoChunks malloc data (word_of_nat (length data)) c1 = (r2, c2)" by fastforce
  have "chunks_inv c1" using copyDataIntoChunks_cases [OF layer_inv_chunks [OF assms(1)] _ _ s1] by auto
  then have "chunks_inv c2" using copyDataIntoChunks_cases [OF _ _ _ s2] len assms(2) by auto
  then show ?thesis using assms(1) s1 s2 by (simp add: copy_into_send_buffer_def layer_inv_def)
qed

definition takes :: "kernel \<Rightarrow> nat \<Rightarrow> bool" where
  "takes k m \<longleftrightarrow> (\<exists>ns rest. k_sends k = map Accepts ns @ rest \<and> m \<le> length ns)"

lemma takes_mono: "takes k m \<Longrightarrow> m' \<le> m \<Longrightarrow> takes k m'"
  unfolding takes_def by fastforce

lemma sys_send_takes:
  assumes "takes k (Suc m)" and "d \<noteq> []"
  shows "\<exists>j k'. sys_send d k = (int (Suc j), 0, k') \<and> Suc j \<le> length d \<and> takes k' m"
proof -
  obtain ns rest where k: "k_sends k = map Accepts ns @ rest" "Suc m \<le> length ns" using assms(1) by (auto simp: takes_def)
  then obtain x xs where ns: "ns = x # xs" by (cases ns) auto
  obtain j where j: "min (Suc x) (length d) = Suc j" using assms(2) by (cases "min (Suc x) (length d)") (auto simp: min_def split: if_splits)
  then have "Suc j \<le> length d" by (metis min.cobounded2)
  then show ?thesis using k ns j
    by (intro exI [of _ j]) (auto simp: sys_send_def takes_def Let_def)
qed

lemma write_loop_all:
  assumes "takes k (length d - i + m)" and "i \<le> length d"
  shows "\<exists>st' k'. write_loop d i (st, k) = (int (length d), st', k') \<and> takes k' m"
  using assms
proof (induction "length d - i" arbitrary: i k rule: less_induct)
  case less
  show ?case
  proof (cases "i < length d")
    case False
    then have "i = length d" using less.prems by simp
    then show ?thesis using less.prems by (simp add: write_loop.simps [of d "length d"])
  next
    case True
    then have "Suc (length d - i - 1 + m) = length d - i + m" by simp
    then have "takes k (Suc (length d - i - 1 + m))" using less.prems(1) by (simp only:)
    then obtain j k' where s: "sys_send (drop i d) k = (int (Suc j), 0, k')" "Suc j \<le> length d - i" "takes k' (length d - i - 1 + m)"
      using sys_send_takes [of k _ "drop i d"] True by force
    then have "takes k' (length d - (i + Suc j) + m)" by (intro takes_mono [OF s(3)]) simp
    then show ?thesis
      using less.hyps [of "i + Suc j" k'] s True by (simp add: write_loop.simps [of d i] del: of_nat_Suc)
  qed
qed


lemma drain_loop_all:
  assumes "chunks_inv c" and "takes k (length (content c))"
  shows "\<exists>p' c'. drain_loop do_write_data (st, k) c = Some (0, p', c') \<and> content c' = []"
  using assms
proof (induction "length (content c)" arbitrary: c st k rule: less_induct)
  case less
  show ?case
  proof (cases "ready_cks c")
    case Nil
    then show ?thesis using less.prems by (simp add: drain_loop.simps [of do_write_data "(st, k)" c] content_def checkWaterLevel_inv)
  next
    case (Cons cur rs)
    have ok: "ready_ok cur" using less.prems Cons by (simp add: chunks_inv_def)
    note rel = release_front_inv [OF less.prems(1) Cons]
    obtain st' k' where w: "do_write_data (st, k) (ck_bytes cur) = (int (length (ck_bytes cur)), st', k')"
        "takes k' (length (content (release_front cur rs c)))"
      using write_loop_all [of k "ck_bytes cur" 0 "length (content (release_front cur rs c))" st] less.prems(2) rel(2)
      by (auto simp: do_write_data_def)
    have pos: "0 < length (ck_bytes cur)" using ck_bytes_nonempty [OF ok] by simp
    then have "drain_loop do_write_data (st, k) c = drain_loop do_write_data (st', k') (release_front cur rs c)"
      using Cons w cur_size [OF ok] by (simp add: drain_loop.simps [of do_write_data "(st, k)" c] release_front_def)
    then show ?thesis using less.hyps [of "release_front cur rs c" k' st'] rel w(2) pos by simp
  qed
qed

lemma send_msg_all:
  assumes "chunks_inv (t_chunks t)" and "takes k (length (content (t_chunks t)))" and "content (t_chunks t) \<noteq> []"
  shows "\<exists>st c k'. send_msg_to_collector t k = Some (0, t\<lparr>t_state := st, t_chunks := c\<rparr>, k') \<and>
     chunks_inv c \<and> content c = [] \<and> k_out k' = k_out k @ content (t_chunks t) \<and> \<not> writing st"
proof -
  have "ready_cks (t_chunks t) \<noteq> []" using assms(3) by (auto simp: content_def)
  then obtain p' c where d: "drainOutWithPipe do_write_data (t_state t, k) (t_chunks t) = Some (0, p', c)" "content c = []"
    using drain_loop_all [OF assms(1,2), of "t_state t"] by (auto simp: drainOutWithPipe_def)
  then show ?thesis
    using collector.drain_fifo [OF assms(1), of "(t_state t, k)"] assms(3)
    by (cases p') (auto simp: send_msg_to_collector_def collector.drained_def)
qed

section \<open>Connecting\<close>

lemma strcasecmp_prefix: "strcasecmp (p @ s) p = 0"
  by (induction p) auto

lemma colon_from_last:
  assumes "CHR '':'' \<notin> set port" and "host \<noteq> []" and "j \<le> length port"
  shows "colon_from (host @ CHR '':'' # port) (length host + j) = Some (length host)"
  using assms(3)
proof (induction j)
  case (Suc j)
  have "(host @ CHR '':'' # port) ! (length host + Suc j) = port ! j" by (simp add: nth_append)
  moreover have "port ! j \<noteq> CHR '':''" using assms(1) Suc.prems nth_mem [of j port] by (metis Suc_le_eq)
  moreover have "1 \<le> length host" using assms(2) by (cases host) auto
  ultimately show ?case using Suc assms(2) by (subst colon_from.simps) simp
qed (simp add: colon_from.simps)

lemma dial_loop_dialled: "dial_loop m k = (fd, k') \<Longrightarrow> k_dialled k' = k_dialled k"
  by (induction m arbitrary: k)
    (auto simp: sys_socket_def sys_connect_def close_socket_def split: list.splits if_splits prod.splits)

lemma connect_stream_dialled:
  assumes "CHR '':'' \<notin> set port" and "host \<noteq> []"
  shows "k_dialled (snd (connect_stream_remote (host @ CHR '':'' # port) k)) = k_dialled k @ [host @ CHR '':'' # port]"
  using colon_from_last [OF assms order_refl]
  by (auto simp: connect_stream_remote_def sys_getaddrinfo_def Let_def dest!: dial_loop_dialled split: prod.splits list.splits option.splits)


text \<open>Calls of \<^verbatim>\<open>select\<close>.\<close>

abbreviation waits :: "('h, 'a) net \<Rightarrow> nat" where
  "waits n \<equiv> length (k_waits (kern n))"

lemma write_loop_waits: "k_waits (snd (snd (write_loop d i (st, k)))) = k_waits k"
proof (induction d i "(st, k)" arbitrary: st k rule: write_loop.induct)
  case (1 d i st k)
  obtain ret err k1 where s: "sys_send (drop i d) k = (ret, err, k1)" by (cases "sys_send (drop i d) k")
  then have "k_waits k1 = k_waits k"
    by (auto simp: sys_send_def Let_def split: list.splits send_answer.splits)
  then show ?case using 1 [OF _ s [symmetric]] s by (auto simp: write_loop.simps [of d i])
qed

lemma send_msg_waits:
  assumes "send_msg_to_collector t k = Some (r, t', k')"
  shows "k_waits k' = k_waits k"
proof -
  obtain st c where d: "drainOutWithPipe do_write_data (t_state t, k) (t_chunks t) = Some (r, (st, k'), c)"
    using assms by (auto simp: send_msg_to_collector_def split: option.splits prod.splits)
  show ?thesis
    using drain_keeps [OF d, of "\<lambda>p. k_waits (snd p) = k_waits k"] write_loop_waits
    by (auto simp: do_write_data_def)
qed

lemma dial_loop_waits: "dial_loop m k = (fd, k') \<Longrightarrow> k_waits k' = k_waits k"
  by (induction m arbitrary: k)
    (auto simp: sys_socket_def sys_connect_def close_socket_def split: list.splits if_splits prod.splits)

lemma connect_waits:
  "connect_stream_remote r k = (x, k') \<Longrightarrow> k_waits k' = k_waits k"
  "connect_unix_remote r k = (fd, k') \<Longrightarrow> k_waits k' = k_waits k"
  by (auto simp: connect_stream_remote_def connect_unix_remote_def sys_getaddrinfo_def sys_socket_def sys_connect_def close_socket_def Let_def
    dest: dial_loop_waits split: list.splits if_splits prod.splits option.splits)

lemma sys_time_waits: "sys_time k = (x, k') \<Longrightarrow> k_waits k' = k_waits k"
  by (auto simp: sys_time_def split: list.splits)

lemma connect_net_waits: "connect_net n = (r, n') \<Longrightarrow> waits n' = waits n"
  by (auto simp: connect_net_def connect_remote_def Let_def dest!: sys_time_waits connect_waits
    split: prod.splits if_splits sum.splits)

lemma network_error_waits: "network_error cb n = (r, n') \<Longrightarrow> waits n' = waits n"
  using connect_net_waits [of "reset_remote cb n"]
  by (auto simp: network_error_def bindP_def reset_remote_def close_socket_def Let_def split: prod.splits sum.splits if_splits)

lemma write_event_waits:
  assumes "write_event cb w n = Some (r, n')"
  shows "waits n' = waits n"
proof (cases "writing (t_state (layer n)) \<and> w")
  case True
  then obtain x t k where s: "send_msg_to_collector (layer n) (kern n) = Some (x, t, k)"
    using assms by (auto simp: write_event_def split: option.splits)
  show ?thesis
    using assms True s send_msg_waits [OF s] network_error_waits [of cb "n\<lparr>layer := t, kern := k\<rparr>" r n']
    by (auto simp: write_event_def Let_def split: if_splits)
qed (use assms in \<open>auto simp: write_event_def\<close>)

lemma handle_events_waits:
  assumes "handle_events cb e rd w n = Some (r, n')" and "length (in_buf (layer n)) < 4096"
  shows "waits n' = waits n"
proof -
  obtain x n1 where recv: "recvByteStream cb n = (x, n1)" by fastforce
  have n1: "waits n1 = waits n"
    using recv assms(2) by (auto simp: recvByteStream_def dest!: recv_loop_buf split: prod.splits)
  show ?thesis
    using assms recv n1 network_error_waits [of cb n r n'] network_error_waits [of cb n1 r n'] write_event_waits
    by (cases x) (fastforce simp: handle_events_def split: if_splits)+
qed

lemma PoolEventOnce_waits:
  assumes "PoolEventOnce cb timeout n = Some (r, n')" and "layer_inv (layer n)"
  shows "waits n' \<le> Suc (waits n)"
proof -
  have poll: "waits n' \<le> Suc (waits m)" if run: "poll_once cb timeout m = Some (r, n')" and inv: "layer_inv (layer m)" for m
  proof -
    obtain ans k where sel: "sys_select (timeval timeout) (kern m) = (ans, k)" by fastforce
    then have k: "length (k_waits k) = Suc (waits m)" by (auto simp: sys_select_def Let_def split: list.splits)
    show ?thesis
      using run sel k inv handle_events_waits [of cb _ _ _ "m\<lparr>kern := k\<rparr>" r n']
      by (cases ans) (auto simp: poll_once_def reset_remote_def close_socket_def layer_inv_def Let_def split: if_splits)
  qed
  obtain x n1 where con: "connect_net n = (x, n1)" by fastforce
  show ?thesis
    using assms con poll [of n] poll [of n1] connect_net_waits [OF con] connect_net_spec [OF con assms(2)]
    by (cases x) (auto simp: PoolEventOnce_def split: if_splits)
qed

lemma sync_loop_waits:
  assumes "sync_loop cb timeout tries n = Some (r, n')" and "layer_inv (layer n)"
  shows "waits n' \<le> waits n + tries"
  using assms
proof (induction tries arbitrary: n)
  case (Suc tries)
  obtain x n1 where e: "PoolEventOnce cb timeout n = Some (x, n1)" "event_spec n x n1"
    using PoolEventOnce_spec [OF Suc.prems(2)] by blast
  then have n1: "layer_inv (layer n1)" "waits n1 \<le> Suc (waits n)"
    using PoolEventOnce_waits [OF e(1) Suc.prems(2)] by (simp_all add: event_spec_def)
  show ?case using Suc.IH [of n1] Suc.prems(1) e n1 by (cases x) (auto split: if_splits)
qed simp

section \<open>Every call returns\<close>

text \<open>
  Even with a damaged send buffer a call comes back, because every piece of data that is taken uses up
  an answer of the system.
\<close>

lemma write_loop_answers:
  assumes "write_loop d i (st, k) = (n, st', k')"
  shows "length (k_sends k') \<le> length (k_sends k) \<and> (int i < n \<and> i < length d \<longrightarrow> length (k_sends k') < length (k_sends k))"
  using assms
proof (induction d i "(st, k)" arbitrary: st k rule: write_loop.induct)
  case (1 d i st k)
  obtain ret err k1 where s: "sys_send (drop i d) k = (ret, err, k1)" by (cases "sys_send (drop i d) k")
  then have k1: "length (k_sends k1) \<le> length (k_sends k)" "0 < ret \<longrightarrow> length (k_sends k1) < length (k_sends k)"
    by (auto simp: sys_send_def Let_def split: list.splits send_answer.splits)
  show ?case
    using 1(1) [OF _ s [symmetric]] 1(2) s k1
    by (cases "i < length d"; cases "0 < ret") (fastforce simp: write_loop.simps [of d i] split: if_splits)+
qed

lemma drain_loop_returns: "\<exists>z. drain_loop do_write_data p c = Some z"
proof (induction "length (k_sends (snd p))" arbitrary: p c rule: less_induct)
  case less
  show ?case
  proof (cases "ready_cks c")
    case Nil
    then show ?thesis by (simp add: drain_loop.simps [of do_write_data p c])
  next
    case (Cons cur rs)
    obtain st k where p: "p = (st, k)" by fastforce
    obtain n st' k' where w: "do_write_data p (ck_bytes cur) = (n, st', k')" by (metis prod_cases3)
    show ?thesis
    proof (cases "n \<le> 0")
      case True
      then show ?thesis using Cons w by (simp add: drain_loop.simps [of do_write_data p c])
    next
      case False
      have "ck_bytes cur \<noteq> []" using False w p by (auto simp: do_write_data_def write_loop.simps)
      then have "length (k_sends k') < length (k_sends k)"
        using write_loop_answers [of "ck_bytes cur" 0 st k n st' k'] False w p by (simp add: do_write_data_def)
      then have "\<exists>z. drain_loop do_write_data (st', k') c' = Some z" for c' using less [of "(st', k')" c'] p by simp
      then show ?thesis using Cons w False by (simp add: drain_loop.simps [of do_write_data p c] Let_def)
    qed
  qed
qed

lemma send_msg_returns: "\<exists>r t' k'. send_msg_to_collector t k = Some (r, t', k')"
proof -
  obtain z where "drainOutWithPipe do_write_data (t_state t, k) (t_chunks t) = Some z"
    using drain_loop_returns [of "(t_state t, k)" "t_chunks t"]
    by (cases "ready_cks (t_chunks t) = []") (auto simp: drainOutWithPipe_def)
  then obtain r p' c' where "drainOutWithPipe do_write_data (t_state t, k) (t_chunks t) = Some (r, p', c')"
    by (metis prod_cases3)
  then show ?thesis by (cases p') (simp add: send_msg_to_collector_def)
qed

lemma write_event_returns: "\<exists>r n'. write_event cb w n = Some (r, n')"
  using send_msg_returns [of "layer n" "kern n"] surj_pair
  by (auto simp: write_event_def Let_def) 

lemma PoolEventOnce_returns: "\<exists>r n'. PoolEventOnce cb timeout n = Some (r, n')"
proof -
  have "\<exists>r n'. handle_events cb e rd w n = Some (r, n')" for e rd w n
    using write_event_returns surj_pair [of "network_error cb m" for m]
    by (auto simp: handle_events_def split: prod.splits sum.splits)
  then have "\<exists>r n'. poll_once cb timeout n = Some (r, n')" for n
    by (auto simp: poll_once_def Let_def split: prod.splits select_answer.splits)
  then show ?thesis by (auto simp: PoolEventOnce_def split: prod.splits sum.splits)
qed

lemma sync_loop_returns: "\<exists>r n'. sync_loop cb timeout tries n = Some (r, n')"
proof (induction tries arbitrary: n)
  case (Suc tries)
  obtain r n1 where "PoolEventOnce cb timeout n = Some (r, n1)" using PoolEventOnce_returns by blast
  then show ?case using Suc [of n1] by (cases r) auto
qed simp

section \<open>Properties\<close>


text \<open>A layer for concrete runs: connected, with a message in its buffer, and a system without answers.\<close>

definition quiet_kernel :: kernel where
  "quiet_kernel = \<lparr>k_sends = [], k_recvs = [], k_selects = [], k_times = [], k_resolves = [], k_sockets = [], k_connects = [],
     k_waits = [], k_out = [], k_dialled = [], k_closed = []\<rparr>"

definition sample_layer :: "unit trans_layer" where
  "sample_layer = \<lparr>co_host = ''tcp:localhost:9999'', t_chunks = half_full\<lparr>c_max_size := 4096\<rparr>, t_state = 7, in_buf = [], statusChangedCallback = None,
     msgRouteMap = [0 \<mapsto> ()], lastConnectTime = 0, c_fd = 3\<rparr>"

lemma sample_layer_inv: "layer_inv sample_layer" "length (content (t_chunks sample_layer)) = 512"
  using half_full_inv
  by (simp_all add: layer_inv_def sample_layer_def writing_def half_full_def empty_chunks_def content_def ck_bytes_def chunks_inv_def)

abbreviation sample_net :: "kernel \<Rightarrow> (unit, nat) net" where
  "sample_net k \<equiv> \<lparr>layer = sample_layer, kern = k, env = 0\<rparr>"


text \<open>
  C23: \<^verbatim>\<open>SyncSendAll\<close> is bounded: whatever the system answers, it comes back after at most twenty
  calls of \<^verbatim>\<open>select\<close>, so a collector that does not read cannot hold the traced program for longer.
\<close>

theorem sync_send_bounded:
  assumes "layer_inv (layer n)"
  shows "\<exists>r n'. SyncSendAll cb timeout n = Some (r, n') \<and> layer_inv (layer n') \<and>
    length (k_waits (kern n')) \<le> length (k_waits (kern n)) + 20"
  using sync_loop_spec [OF assms, of cb timeout 20] sync_loop_waits [OF _ assms, of cb timeout 20]
  by (fastforce simp: SyncSendAll_def)

theorem sync_send_bounded_witness:
  "\<exists>r n'. SyncSendAll undefined 500 (sample_net quiet_kernel) = Some (r, n') \<and> length (k_waits (kern n')) \<le> 20"
  using sync_send_bounded [of "sample_net quiet_kernel" undefined 500] sample_layer_inv by (auto simp: quiet_kernel_def)

lemma sync_send_waiting:
  assumes "layer_inv (layer n)" and "content (t_chunks (layer n)) \<noteq> []" and "0 \<le> c_fd (layer n)" and "c_fd (layer n) < 1024"
    and "k_selects (kern n) = Signals False False True # ss" and "k_sends (kern n) = map Accepts ns @ as"
    and "length (content (t_chunks (layer n))) \<le> length ns"
  shows "\<exists>n'. SyncSendAll cb timeout n = Some (Inr (), n') \<and> wire n' = wire n @ content (t_chunks (layer n)) \<and>
    unsent n' = [] \<and> \<not> writing (t_state (layer n'))"
proof -
  define k where "k = (kern n)\<lparr>k_waits := k_waits (kern n) @ [timeval timeout], k_selects := ss\<rparr>"
  have "k_sends k = map Accepts ns @ as" by (simp add: k_def assms(6))
  then have k: "takes k (length (content (t_chunks (layer n))))" "k_out k = k_out (kern n)"
    "sys_select (timeval timeout) (kern n) = (Signals False False True, k)"
    using assms(5,7) unfolding takes_def by (auto simp: sys_select_def k_def)
  have writing: "writing (t_state (layer n))" using assms(1,2) by (simp add: layer_inv_def)
  obtain st c k' where sent: "send_msg_to_collector (layer n) k = Some (0, (layer n)\<lparr>t_state := st, t_chunks := c\<rparr>, k')"
      "content c = []" "k_out k' = k_out (kern n) @ content (t_chunks (layer n))" "\<not> writing st"
    using send_msg_all [OF layer_inv_chunks [OF assms(1)] k(1) assms(2)] k(2) by auto
  let ?n = "n\<lparr>layer := (layer n)\<lparr>t_state := st, t_chunks := c\<rparr>, kern := k'\<rparr>"
  have "poll_once cb timeout n = Some (Inr 0, ?n)"
    using assms(3,4) writing sent(1) k(3) by (simp add: poll_once_def handle_events_def write_event_def)
  then have "PoolEventOnce cb timeout n = Some (Inr 0, ?n)"
    using assms(3) by (simp add: PoolEventOnce_def)
  then have "SyncSendAll cb timeout n = Some (Inr (), ?n)"
    using writing sent(4) by (simp add: SyncSendAll_def numeral_eq_Suc)
  then show ?thesis using sent by (simp add: wire_def unsent_def)
qed



text \<open>
  C3: The messages of the collector are delivered whole and in order, however the network cuts the
  stream.  If the bytes that arrive, in pieces of any size, make up the messages \<open>ms\<close> (with bodies of
  at most 4088 bytes) and the beginning \<open>z\<close> of a further one, then reading the socket runs the
  callbacks exactly as handing over the messages one by one would do, with the same result, and
  \<open>z\<close> is what the receive buffer keeps for the next time.
\<close>

theorem stream_reassembly:
  assumes "list_all small ms" and "incomplete z" and "[] \<notin> set ds" and "concat ds = packets ms @ z"
    and "in_buf (layer n) = []" and "k_recvs (kern n) = segments ds"
  shows "\<exists>n'. recvByteStream cb n = (fst (deliver cb (msgRouteMap (layer n)) ms (env n)), n') \<and>
    env n' = snd (deliver cb (msgRouteMap (layer n)) ms (env n)) \<and>
    (fst (deliver cb (msgRouteMap (layer n)) ms (env n)) = Inr 0 \<longrightarrow> in_buf (layer n') = z)"
proof -
  obtain r a where d: "deliver cb (msgRouteMap (layer n)) ms (env n) = (r, a)" by fastforce
  have "incomplete []" by (simp add: incomplete_def)
  then obtain buf k where "recv_loop cb (msgRouteMap (layer n)) [] (kern n) (env n) = (r, buf, k, a)" "r = Inr 0 \<longrightarrow> buf = z"
    using recv_loop_stream [of "kern n" ds "[]" ms z cb "msgRouteMap (layer n)" "env n" r a] assms d by auto
  then show ?thesis using assms(5) d by (simp add: recvByteStream_def)
qed

theorem stream_reassembly_witness:
  "\<exists>n'. recvByteStream \<lparr>on_message = (\<lambda>h ty body a. (Inr 0, a + length body)), on_status = (\<lambda>h s a. a)\<rparr>
       (sample_net (quiet_kernel\<lparr>k_recvs := segments [packet (0, ''ab'') @ ''xy'', ''z'']\<rparr>)) = (Inr 0, n') \<and>
     env n' = 2 \<and> in_buf (layer n') = ''xyz''"
  using stream_reassembly [of "[(0, ''ab'')]" "''xyz''" "[packet (0, ''ab'') @ ''xy'', ''z'']"
      "sample_net (quiet_kernel\<lparr>k_recvs := segments [packet (0, ''ab'') @ ''xy'', ''z'']\<rparr>)"
      "\<lparr>on_message = (\<lambda>h ty body a. (Inr 0, a + length body)), on_status = (\<lambda>h s a. a)\<rparr>"]
  by (simp add: incomplete_def sample_layer_def numeral_2_eq_2)

text \<open>
  C35: A message that claims a body of more than 4088 bytes is refused before anything is read from
  behind its header: the messages in front of it are delivered, then the stream is given up.
\<close>

theorem oversized_refused:
  assumes "list_all small ms" and "8 \<le> length z" and "4088 < body_length z"
    and "fst (deliver cb route ms a) = Inr 0"
  shows "HandleMsgStream cb route (packets ms @ z) a = (Inr (- 1), snd (deliver cb route ms a))"
  using assms msg_loop_oversized [of 0 "packets ms @ z" ms z cb route a] by (simp add: HandleMsgStream_def)

theorem oversized_refused_witness:
  "HandleMsgStream (undefined :: (unit, nat) callbacks) (\<lambda>_. None) (packets [] @ header 0 5000) 0 = (Inr (- 1), 0)"
  using oversized_refused [of "[]" "header 0 5000" "undefined :: (unit, nat) callbacks" "\<lambda>_. None" 0]
  by (simp add: body_length_def header_def ntohl_htonl)

text \<open>
  For an address \<open>tcp:host:port\<close> the layer dials exactly \<open>host:port\<close>, also when the host itself has
  colons, at most once in five seconds, and afterwards waits for every event.
\<close>

lemma tcp_address:
  assumes "host \<noteq> []" and "CHR '':'' \<notin> set port" and "k_times k = now # now' # ts"
  shows "\<exists>r t' k'. connect_remote (''tcp:'' @ host @ CHR '':'' # port) (t, k) = (r, t', k') \<and>
    k_dialled k' = k_dialled k @ (if now < lastConnectTime t + 5 then [] else [host @ CHR '':'' # port]) \<and>
    lastConnectTime t' = (if now < lastConnectTime t + 5 then lastConnectTime t else now') \<and>
    (lastConnectTime t + 5 \<le> now \<longrightarrow> r = Inr (c_fd t') \<and> writing (t_state t'))"
proof (cases "now < lastConnectTime t + 5")
  case True
  then show ?thesis using assms(3) by (simp add: connect_remote_def sys_time_def)
next
  case False
  obtain x k' where c: "connect_stream_remote (host @ CHR '':'' # port) (k\<lparr>k_times := ts\<rparr>) = (x, k')" by fastforce
  obtain fd where x: "x = Inr fd"
    using c by (auto simp: connect_stream_remote_def Let_def split: option.splits prod.splits)
  have "strcasecmp (''tcp:'' @ host @ CHR '':'' # port) ''tcp:'' = 0" by (rule strcasecmp_prefix)
  moreover have "strcasecmp (''tcp:'' @ host @ CHR '':'' # port) ''unix:'' \<noteq> 0" by (simp add: toupper_def schar_def)
  ultimately show ?thesis
    using False assms(3) c x connect_stream_dialled [OF assms(2,1), of "k\<lparr>k_times := ts\<rparr>"]
    by (simp add: connect_remote_def sys_time_def del: strcasecmp.simps)
qed

lemma tcp_address_example:
  "\<exists>r t' k'. connect_remote (''tcp:'' @ ''localhost'' @ CHR '':'' # ''9999'') (sample_layer, quiet_kernel\<lparr>k_times := [10, 11]\<rparr>) = (r, t', k') \<and>
     k_dialled k' = [''localhost:9999'']"
  using tcp_address [of "''localhost''" "''9999''" "quiet_kernel\<lparr>k_times := [10, 11]\<rparr>" 10 11 "[]" sample_layer]
  by (auto simp: sample_layer_def quiet_kernel_def)

text \<open>
  C36: For an address \<open>unix:path\<close> the layer connects to a path that still has the colon of the prefix
  in front, because the length of the prefix \<open>tcp:\<close> is cut off instead of that of \<open>unix:\<close>; and a
  connection that would be completed later is given up at once.
\<close>

theorem unix_address:
  assumes "k_times k = now # now' # ts" and "lastConnectTime t + 5 \<le> now" and "k_sockets k = fd # fds" and "0 < fd"
    and "k_connects k = e # es"
  shows "\<exists>t' k'. connect_remote (''unix:'' @ path) (t, k) = (Inr (if e = 0 then fd else - 1), t', k') \<and>
    k_dialled k' = k_dialled k @ [take 107 (CHR '':'' # path)] \<and> c_fd t' = (if e = 0 then fd else - 1) \<and>
    k_closed k' = k_closed k @ (if e = 0 then [] else [fd])"
proof -
  have "strcasecmp (''unix:'' @ path) ''unix:'' = 0" by (rule strcasecmp_prefix)
  then show ?thesis
    using assms by (simp add: connect_remote_def connect_unix_remote_def sys_time_def sys_socket_def sys_connect_def close_socket_def
        del: strcasecmp.simps)
qed

theorem unix_address_witness:
  "\<exists>t' k'. connect_remote (''unix:'' @ ''/tmp/c.sock'') (sample_layer, quiet_kernel\<lparr>k_times := [10, 11], k_sockets := [4], k_connects := [0]\<rparr>) =
       (Inr 4, t', k') \<and> k_dialled k' = ['':/tmp/c.sock'']"
  using unix_address [of "quiet_kernel\<lparr>k_times := [10, 11], k_sockets := [4], k_connects := [0]\<rparr>" 10 11 "[]" sample_layer 4 "[]" 0 "[]" "''/tmp/c.sock''"]
  by (auto simp: sample_layer_def quiet_kernel_def)

end
