(* ===== verification/Json_Writer.thy ===== *)
theory Json_Writer
  imports Json_Value
begin

text \<open>
  Printing JSON values: \<^verbatim>\<open>common/jsoncpp/lib_json/json_writer.cpp\<close>, the helpers of \<^verbatim>\<open>json_tool.h\<close>
  it uses, and the agent's \<^verbatim>\<open>NodeTreeWriter\<close>, which fixes the settings of the stream writer.
  What the C library does with floating-point numbers is a record of functions (\<open>float_ops\<close>).
  Values carry no comments, so the comment writers have nothing to print.
\<close>

unbundle bit_operations_syntax

section \<open>Numbers\<close>

text \<open>The do-while loop of \<^verbatim>\<open>uintToString\<close>, which fills the buffer from its end.\<close>

function uint_loop :: "u64 \<Rightarrow> string \<Rightarrow> string" where
  "uint_loop v current =
     (let current = char_of (unat (v mod 10) + 48) # current; v = v div 10
      in if v \<noteq> 0 then uint_loop v current else current)"
  by pat_completeness auto
termination
proof (relation "measure (\<lambda>(v, _). unat v)", goal_cases)
  case (2 v current x xa)
  then have "0 < unat v" by (cases "v = 0") (auto simp: unat_gt_0)
  with 2 show ?case by (simp add: unat_div)
qed simp

declare uint_loop.simps [simp del]

definition uintToString :: "u64 \<Rightarrow> string" where
  "uintToString v = uint_loop v []"

definition valueToString_int :: "i64 \<Rightarrow> string" where
  "valueToString_int v =
     (if v = - (2 ^ 63) then CHR ''-'' # uintToString (2 ^ 63 - 1 + 1)
      else if sint v < 0 then CHR ''-'' # uintToString (- v)
      else uintToString v)"

definition valueToString_uint :: "u64 \<Rightarrow> string" where
  "valueToString_uint v = uintToString v"

definition valueToString_bool :: "bool \<Rightarrow> string" where
  "valueToString_bool b = (if b then ''true'' else ''false'')"

record 'd float_ops =
  fp_finite :: "'d \<Rightarrow> bool"
  fp_nan :: "'d \<Rightarrow> bool"
  fp_negative :: "'d \<Rightarrow> bool"
  fp_printf :: "bool \<Rightarrow> nat \<Rightarrow> 'd \<Rightarrow> string"

definition fixNumericLocale :: "string \<Rightarrow> string" where
  "fixNumericLocale s = map (\<lambda>c. if c = CHR '','' then CHR ''.'' else c) s"

text \<open>\<^verbatim>\<open>fixZerosInTheEnd\<close> on the reversed buffer: drop zeros, but not the one after the point.\<close>

fun drop_zeros :: "string \<Rightarrow> string" where
  "drop_zeros [] = []"
| "drop_zeros (c # cs) =
     (if c \<noteq> CHR ''0'' then c # cs
      else case cs of
          d # _ \<Rightarrow> if d = CHR ''.'' then c # cs else drop_zeros cs
        | [] \<Rightarrow> drop_zeros cs)"

definition fixZerosInTheEnd :: "string \<Rightarrow> string" where
  "fixZerosInTheEnd s = rev (drop_zeros (rev s))"

text \<open>\<open>dec\<close> is the precision type: \<open>True\<close> for decimal places, \<open>False\<close> for significant digits.\<close>

definition valueToString_double :: "'d float_ops \<Rightarrow> bool \<Rightarrow> nat \<Rightarrow> bool \<Rightarrow> 'd \<Rightarrow> string" where
  "valueToString_double ops useSpecialFloats precision dec x =
     (if \<not> fp_finite ops x then
        (if useSpecialFloats
         then (if fp_nan ops x then ''NaN'' else if fp_negative ops x then ''-Infinity'' else ''Infinity'')
         else (if fp_nan ops x then ''null'' else if fp_negative ops x then ''-1e+9999'' else ''1e+9999''))
      else
        let buffer = fixNumericLocale (fp_printf ops dec precision x);
            buffer = (if dec then fixZerosInTheEnd buffer else buffer)
        in if CHR ''.'' \<notin> set buffer \<and> CHR ''e'' \<notin> set buffer then buffer @ ''.0'' else buffer)"

section \<open>Strings\<close>

abbreviation byte :: "char \<Rightarrow> nat" where
  "byte c \<equiv> of_char c"

definition doesAnyCharRequireEscaping :: "string \<Rightarrow> bool" where
  "doesAnyCharRequireEscaping s =
     list_ex (\<lambda>c. c = CHR 0x5C \<or> c = CHR 0x22 \<or> byte c < 0x20 \<or> 0x7F < byte c) s"

text \<open>
  \<^verbatim>\<open>utf8ToCodepoint\<close> at a non-empty rest of the string: the code point and the number of bytes the
  pointer is moved by.
\<close>

definition utf8ToCodepoint :: "string \<Rightarrow> nat \<times> nat" where
  "utf8ToCodepoint s =
     (let firstByte = byte (s ! 0) in
      if firstByte < 0x80 then (firstByte, 0)
      else if firstByte < 0xE0 then
        (if length s < 2 then (0xFFFD, 0)
         else
           let calculated = push_bit 6 (firstByte AND 0x1F) OR (byte (s ! 1) AND 0x3F)
           in (if calculated < 0x80 then 0xFFFD else calculated, 1))
      else if firstByte < 0xF0 then
        (if length s < 3 then (0xFFFD, 0)
         else
           let calculated = push_bit 12 (firstByte AND 0x0F) OR push_bit 6 (byte (s ! 1) AND 0x3F)
                 OR (byte (s ! 2) AND 0x3F)
           in (if 0xD800 \<le> calculated \<and> calculated \<le> 0xDFFF then 0xFFFD
               else if calculated < 0x800 then 0xFFFD else calculated, 2))
      else if firstByte < 0xF8 then
        (if length s < 4 then (0xFFFD, 0)
         else
           let calculated = push_bit 18 (firstByte AND 0x07) OR push_bit 12 (byte (s ! 1) AND 0x3F)
                 OR push_bit 6 (byte (s ! 2) AND 0x3F) OR (byte (s ! 3) AND 0x3F)
           in (if calculated < 0x10000 then 0xFFFD else calculated, 3))
      else (0xFFFD, 0))"

definition hex_digit :: "nat \<Rightarrow> char" where
  "hex_digit d = char_of (if d < 10 then 48 + d else 87 + d)"

text \<open>The table \<^verbatim>\<open>hex2\<close> holds the two lower-case hexadecimal digits of every byte.\<close>

definition hex2 :: "nat \<Rightarrow> char \<times> char" where
  "hex2 b = (hex_digit (b div 16), hex_digit (b mod 16))"

definition toHex16Bit :: "nat \<Rightarrow> string" where
  "toHex16Bit x =
     (let hi = drop_bit 8 x AND 0xff; lo = x AND 0xff
      in [fst (hex2 hi), snd (hex2 hi), fst (hex2 lo), snd (hex2 lo)])"

definition appendRaw :: "nat \<Rightarrow> string" where
  "appendRaw ch = [char_of ch]"

definition appendHex :: "nat \<Rightarrow> string" where
  "appendHex ch = [CHR 0x5C, CHR ''u''] @ toHex16Bit ch"

definition escape_default :: "bool \<Rightarrow> string \<Rightarrow> string \<times> nat" where
  "escape_default emitUTF8 s =
     (if emitUTF8 then
        let codepoint = byte (s ! 0) in
        (if codepoint < 0x20 then appendHex codepoint else appendRaw codepoint, 0)
      else
        let (codepoint, n) = utf8ToCodepoint s in
        (if codepoint < 0x20 then appendHex codepoint
         else if codepoint < 0x80 then appendRaw codepoint
         else if codepoint < 0x10000 then appendHex codepoint
         else
           let codepoint = codepoint - 0x10000 in
           appendHex (0xd800 + (drop_bit 10 codepoint AND 0x3ff)) @
           appendHex (0xdc00 + (codepoint AND 0x3ff)), n))"

function escape_loop :: "bool \<Rightarrow> string \<Rightarrow> string" where
  "escape_loop emitUTF8 [] = []"
| "escape_loop emitUTF8 (c # cs) =
     (if c = CHR 0x22 then [CHR 0x5C, CHR 0x22] @ escape_loop emitUTF8 cs
      else if c = CHR 0x5C then [CHR 0x5C, CHR 0x5C] @ escape_loop emitUTF8 cs
      else if c = CHR 0x08 then [CHR 0x5C, CHR ''b''] @ escape_loop emitUTF8 cs
      else if c = CHR 0x0C then [CHR 0x5C, CHR ''f''] @ escape_loop emitUTF8 cs
      else if c = CHR 0x0A then [CHR 0x5C, CHR ''n''] @ escape_loop emitUTF8 cs
      else if c = CHR 0x0D then [CHR 0x5C, CHR ''r''] @ escape_loop emitUTF8 cs
      else if c = CHR 0x09 then [CHR 0x5C, CHR ''t''] @ escape_loop emitUTF8 cs
      else
        let (out, n) = escape_default emitUTF8 (c # cs) in out @ escape_loop emitUTF8 (drop n cs))"
  by pat_completeness auto
termination
  by (relation "measure (\<lambda>(_, s). length s)") auto

definition valueToQuotedStringN :: "bool \<Rightarrow> string \<Rightarrow> string" where
  "valueToQuotedStringN emitUTF8 s =
     (if \<not> doesAnyCharRequireEscaping s then [CHR 0x22] @ c_str s @ [CHR 0x22]
      else [CHR 0x22] @ escape_loop emitUTF8 s @ [CHR 0x22])"

definition codePointToUTF8 :: "nat \<Rightarrow> string" where
  "codePointToUTF8 cp =
     (if cp \<le> 0x7f then [char_of cp]
      else if cp \<le> 0x7FF then
        [char_of (0xC0 OR (0x1f AND drop_bit 6 cp)), char_of (0x80 OR (0x3f AND cp))]
      else if cp \<le> 0xFFFF then
        [char_of (0xE0 OR (0xf AND drop_bit 12 cp)), char_of (0x80 OR (0x3f AND drop_bit 6 cp)),
         char_of (0x80 OR (0x3f AND cp))]
      else if cp \<le> 0x10FFFF then
        [char_of (0xF0 OR (0x7 AND drop_bit 18 cp)), char_of (0x80 OR (0x3f AND drop_bit 12 cp)),
         char_of (0x80 OR (0x3f AND drop_bit 6 cp)), char_of (0x80 OR (0x3f AND cp))]
      else [])"

section \<open>The stream writer\<close>

datatype comment_style = CsNone | CsMost | CsAll

text \<open>The members of \<^verbatim>\<open>BuiltStyledStreamWriter\<close>; \<open>sout\<close> is what has been written to the stream.\<close>

record styled_writer =
  sout :: string
  childValues :: "string list"
  indentString :: string
  rightMargin :: u32
  indentation :: string
  cs :: comment_style
  colonSymbol :: string
  nullSymbol :: string
  endingLineFeedSymbol :: string
  addChildValues :: bool
  indented :: bool
  useSpecialFloats :: bool
  emitUTF8 :: bool
  precision :: nat
  precisionDecimal :: bool

definition pushValue :: "string \<Rightarrow> styled_writer \<Rightarrow> styled_writer" where
  "pushValue x w =
     (if addChildValues w then w\<lparr>childValues := childValues w @ [x]\<rparr> else w\<lparr>sout := sout w @ x\<rparr>)"

definition put_out :: "string \<Rightarrow> styled_writer \<Rightarrow> styled_writer" where
  "put_out x w = w\<lparr>sout := sout w @ x\<rparr>"

definition writeIndent :: "styled_writer \<Rightarrow> styled_writer" where
  "writeIndent w = (if indentation w \<noteq> [] then put_out ([CHR 0x0A] @ indentString w) w else w)"

definition writeWithIndent :: "string \<Rightarrow> styled_writer \<Rightarrow> styled_writer" where
  "writeWithIndent x w =
     (let w = (if \<not> indented w then writeIndent w else w); w = put_out x w in w\<lparr>indented := False\<rparr>)"

definition indent :: "styled_writer \<Rightarrow> styled_writer" where
  "indent w = w\<lparr>indentString := indentString w @ indentation w\<rparr>"

definition unindent :: "styled_writer \<Rightarrow> styled_writer" where
  "unindent w = w\<lparr>indentString := take (length (indentString w) - length (indentation w)) (indentString w)\<rparr>"

definition big_child :: "'d jvalue \<Rightarrow> bool" where
  "big_child v = ((isArray v \<or> isObject v) \<and> \<not> empty_val v)"

text \<open>
  \<^verbatim>\<open>writeValue\<close> with the loops over members (\<open>writeMembers\<close>) and array elements (\<open>writeElems\<close>), and
  \<^verbatim>\<open>isMultilineArray\<close>, which prints the elements into \<open>childValues\<close> to measure the line
  (\<open>measureElems\<close>; its third argument is \<^verbatim>\<open>lineLength\<close>).
\<close>

fun writeValue :: "'d float_ops \<Rightarrow> 'd jvalue \<Rightarrow> styled_writer \<Rightarrow> styled_writer"
  and writeMembers :: "'d float_ops \<Rightarrow> (string \<times> 'd jvalue) list \<Rightarrow> styled_writer \<Rightarrow> styled_writer"
  and writeElems :: "'d float_ops \<Rightarrow> bool \<Rightarrow> nat \<Rightarrow> 'd jvalue list \<Rightarrow> styled_writer \<Rightarrow> styled_writer"
  and measureElems :: "'d float_ops \<Rightarrow> nat \<Rightarrow> 'd jvalue list \<Rightarrow> u32 \<Rightarrow> styled_writer \<Rightarrow> u32 \<times> styled_writer"
where
  "writeValue ops NullValue w = pushValue (nullSymbol w) w"
| "writeValue ops (IntValue i) w = pushValue (valueToString_int i) w"
| "writeValue ops (UIntValue u) w = pushValue (valueToString_uint u) w"
| "writeValue ops (RealValue x) w =
     pushValue (valueToString_double ops (useSpecialFloats w) (precision w) (precisionDecimal w) x) w"
| "writeValue ops (StringValue str) w = pushValue (valueToQuotedStringN (emitUTF8 w) str) w"
| "writeValue ops (BooleanValue b) w = pushValue (valueToString_bool b) w"
| "writeValue ops (ArrayValue xs) w =
     (if xs = [] then pushValue ''[]'' w
      else
        let n = word_of_nat (length xs) :: u32;
            (isMultiLine, w) =
              (if cs w = CsAll then (True, w)
               else
                 let multi = (rightMargin w \<le> n * 3 \<or> list_ex big_child xs);
                     w = w\<lparr>childValues := []\<rparr>
                 in if multi then (True, w)
                    else
                      let (lineLength, w) =
                            measureElems ops 0 xs (4 + (n - 1) * 2) (w\<lparr>addChildValues := True\<rparr>);
                          w = w\<lparr>addChildValues := False\<rparr>
                      in (rightMargin w \<le> lineLength, w))
        in if isMultiLine then
             let w = indent (writeWithIndent ''['' w); hasChildValue = (childValues w \<noteq> []);
                 w = writeElems ops hasChildValue 0 xs w
             in writeWithIndent '']'' (unindent w)
           else
             let sep = (if indentation w \<noteq> [] then '', '' else '','');
                 pad = (if indentation w \<noteq> [] then '' '' else [])
             in put_out (''['' @ pad @ join sep (map (\<lambda>i. childValues w ! i) [0..<length xs])
                  @ pad @ '']'') w)"
| "writeValue ops (ObjectValue ms) w =
     (if ms = [] then pushValue ''{}'' w
      else
        let w = indent (writeWithIndent ''{'' w); w = writeMembers ops ms w
        in writeWithIndent ''}'' (unindent w))"
| "writeMembers ops [] w = w"
| "writeMembers ops ((name, v) # ms) w =
     (let w = writeWithIndent (valueToQuotedStringN (emitUTF8 w) name) w;
          w = put_out (colonSymbol w) w;
          w = writeValue ops v w
      in if ms = [] then w else writeMembers ops ms (put_out '','' w))"
| "writeElems ops hasChildValue index [] w = w"
| "writeElems ops hasChildValue index (v # vs) w =
     (let w = (if hasChildValue then writeWithIndent (childValues w ! index) w
               else
                 let w = (if \<not> indented w then writeIndent w else w);
                     w = writeValue ops v (w\<lparr>indented := True\<rparr>)
                 in w\<lparr>indented := False\<rparr>)
      in if vs = [] then w else writeElems ops hasChildValue (Suc index) vs (put_out '','' w))"
| "measureElems ops index [] len w = (len, w)"
| "measureElems ops index (v # vs) len w =
     (let w = writeValue ops v w
      in measureElems ops (Suc index) vs (len + word_of_nat (length (childValues w ! index))) w)"

definition writer_write :: "'d float_ops \<Rightarrow> 'd jvalue \<Rightarrow> styled_writer \<Rightarrow> styled_writer" where
  "writer_write ops root w =
     (let w = w\<lparr>sout := [], addChildValues := False, indented := True, indentString := []\<rparr>;
          w = (if \<not> indented w then writeIndent w else w);
          w = writeValue ops root (w\<lparr>indented := True\<rparr>)
      in put_out (endingLineFeedSymbol w) w)"

section \<open>The agent's writer\<close>

text \<open>
  The settings of \<^verbatim>\<open>StreamWriterBuilder\<close> are themselves a JSON object: \<^verbatim>\<open>setDefaults\<close> fills it,
  \<^verbatim>\<open>NodeTreeWriter\<close> overrides two entries, and \<^verbatim>\<open>newStreamWriter\<close> reads it.
\<close>

definition jset :: "string \<Rightarrow> 'd jvalue \<Rightarrow> 'd jvalue \<Rightarrow> 'd jvalue" where
  "jset key x v = snd (set_key key x v)"

definition setDefaults :: "'d jvalue \<Rightarrow> 'd jvalue" where
  "setDefaults settings =
     (let s = jset ''commentStyle'' (StringValue ''All'') settings;
          s = jset ''indentation'' (StringValue [CHR 0x09]) s;
          s = jset ''enableYAMLCompatibility'' (BooleanValue False) s;
          s = jset ''dropNullPlaceholders'' (BooleanValue False) s;
          s = jset ''useSpecialFloats'' (BooleanValue False) s;
          s = jset ''emitUTF8'' (BooleanValue False) s;
          s = jset ''precision'' (IntValue 17) s
      in jset ''precisionType'' (StringValue ''significant'') s)"

text \<open>The conversions \<^verbatim>\<open>newStreamWriter\<close> applies to its settings.\<close>

definition asString :: "'d float_ops \<Rightarrow> 'd jvalue \<Rightarrow> cpp_exn + string" where
  "asString ops v =
     (case v of
        NullValue \<Rightarrow> Inr []
      | StringValue str \<Rightarrow> Inr str
      | BooleanValue b \<Rightarrow> Inr (if b then ''true'' else ''false'')
      | IntValue i \<Rightarrow> Inr (valueToString_int i)
      | UIntValue u \<Rightarrow> Inr (valueToString_uint u)
      | RealValue x \<Rightarrow> Inr (valueToString_double ops False 17 False x)
      | _ \<Rightarrow> Inl Logic_error)"

text \<open>
  The settings are never floating-point numbers here, for which \<^verbatim>\<open>asBool\<close> and \<^verbatim>\<open>asUInt\<close> classify and
  truncate the number: \<open>real_bool\<close> and \<open>real_uint\<close> stand for that.
\<close>

definition asBool :: "('d \<Rightarrow> bool) \<Rightarrow> 'd jvalue \<Rightarrow> cpp_exn + bool" where
  "asBool real_bool v =
     (case v of
        BooleanValue b \<Rightarrow> Inr b
      | NullValue \<Rightarrow> Inr False
      | IntValue i \<Rightarrow> Inr (i \<noteq> 0)
      | UIntValue u \<Rightarrow> Inr (u \<noteq> 0)
      | RealValue x \<Rightarrow> Inr (real_bool x)
      | _ \<Rightarrow> Inl Logic_error)"

definition asUInt :: "('d \<Rightarrow> u32 option) \<Rightarrow> 'd jvalue \<Rightarrow> cpp_exn + u32" where
  "asUInt real_uint v =
     (case v of
        IntValue i \<Rightarrow> if 0 \<le> sint i \<and> unat i < 2 ^ 32 then Inr (ucast i) else Inl Logic_error
      | UIntValue u \<Rightarrow> if unat u < 2 ^ 32 then Inr (ucast u) else Inl Logic_error
      | RealValue x \<Rightarrow> (case real_uint x of Some u \<Rightarrow> Inr u | None \<Rightarrow> Inl Logic_error)
      | NullValue \<Rightarrow> Inr 0
      | BooleanValue b \<Rightarrow> Inr (if b then 1 else 0)
      | _ \<Rightarrow> Inl Logic_error)"

definition setting :: "(('d jvalue) \<Rightarrow> cpp_exn + 'a) \<Rightarrow> string \<Rightarrow> 'd jvalue \<Rightarrow> cpp_exn + 'a" where
  "setting conv key settings = (case at_key key settings of Inl e \<Rightarrow> Inl e | Inr v \<Rightarrow> conv v)"

definition newStreamWriter :: "'d float_ops \<Rightarrow> ('d \<Rightarrow> bool) \<Rightarrow> ('d \<Rightarrow> u32 option) \<Rightarrow> 'd jvalue \<Rightarrow> cpp_exn + styled_writer" where
  "newStreamWriter ops rb ru settings =
     (case (setting (asString ops) ''indentation'' settings, setting (asString ops) ''commentStyle'' settings,
            setting (asString ops) ''precisionType'' settings, setting (asBool rb) ''enableYAMLCompatibility'' settings,
            setting (asBool rb) ''dropNullPlaceholders'' settings, setting (asBool rb) ''useSpecialFloats'' settings,
            setting (asBool rb) ''emitUTF8'' settings, setting (asUInt ru) ''precision'' settings) of
        (Inr ind, Inr cs_str, Inr pt_str, Inr eyc, Inr dnp, Inr usf, Inr utf8, Inr pre) \<Rightarrow>
          if cs_str \<noteq> ''All'' \<and> cs_str \<noteq> ''None'' then Inl Runtime_error
          else if pt_str \<noteq> ''significant'' \<and> pt_str \<noteq> ''decimal'' then Inl Runtime_error
          else Inr
            \<lparr>sout = [], childValues = [], indentString = [], rightMargin = 74, indentation = ind,
             cs = (if cs_str = ''All'' then CsAll else CsNone),
             colonSymbol = (if eyc then '': '' else if ind = [] then '':'' else '' : ''),
             nullSymbol = (if dnp then [] else ''null''), endingLineFeedSymbol = [],
             addChildValues = False, indented = False, useSpecialFloats = usf, emitUTF8 = utf8,
             precision = (if 17 < pre then 17 else unat pre), precisionDecimal = (pt_str = ''decimal'')\<rparr>
      | _ \<Rightarrow> Inl Logic_error)"

definition NodeTreeWriter :: "'d jvalue" where
  "NodeTreeWriter =
     (let b = setDefaults NullValue;
          b = jset ''commentStyle'' (StringValue ''None'') b
      in jset ''indentation'' (StringValue []) b)"

definition NodeTreeWriter_write :: "'d float_ops \<Rightarrow> ('d \<Rightarrow> bool) \<Rightarrow> ('d \<Rightarrow> u32 option) \<Rightarrow> 'd jvalue \<Rightarrow> cpp_exn + string" where
  "NodeTreeWriter_write ops rb ru v =
     (case newStreamWriter ops rb ru NodeTreeWriter of
        Inl e \<Rightarrow> Inl e
      | Inr w \<Rightarrow> Inr (sout (writer_write ops v w)))"

text \<open>The reference: no white space at all, members in the order of the map.\<close>

fun compact :: "'d float_ops \<Rightarrow> 'd jvalue \<Rightarrow> string" where
  "compact ops NullValue = ''null''"
| "compact ops (IntValue i) = valueToString_int i"
| "compact ops (UIntValue u) = valueToString_uint u"
| "compact ops (RealValue x) = valueToString_double ops False 17 False x"
| "compact ops (StringValue str) = valueToQuotedStringN False str"
| "compact ops (BooleanValue b) = valueToString_bool b"
| "compact ops (ArrayValue xs) = ''['' @ join '','' (map (compact ops) xs) @ '']''"
| "compact ops (ObjectValue ms) =
     ''{'' @ join '','' (map (\<lambda>(k, v). valueToQuotedStringN False k @ '':'' @ compact ops v) ms) @ ''}''"

definition compact_writer :: "styled_writer \<Rightarrow> bool" where
  "compact_writer w \<longleftrightarrow> indentation w = [] \<and> cs w = CsNone \<and> colonSymbol w = '':'' \<and> nullSymbol w = ''null'' \<and>
     endingLineFeedSymbol w = [] \<and> \<not> useSpecialFloats w \<and> \<not> emitUTF8 w \<and> precision w = 17 \<and> \<not> precisionDecimal w"

definition wrote :: "styled_writer \<Rightarrow> string \<Rightarrow> styled_writer \<Rightarrow> bool" where
  "wrote w x w' \<longleftrightarrow> compact_writer w' \<and> \<not> addChildValues w' \<and> sout w' = sout w @ x"

definition pushed :: "styled_writer \<Rightarrow> string list \<Rightarrow> styled_writer \<Rightarrow> bool" where
  "pushed w xs w' \<longleftrightarrow> compact_writer w' \<and> addChildValues w' \<and> sout w' = sout w \<and>
     childValues w' = childValues w @ xs"

lemma NodeTreeWriter_settings:
  "\<exists>w. newStreamWriter ops rb ru NodeTreeWriter = Inr w \<and> compact_writer w"
  by (simp add: newStreamWriter_def setting_def NodeTreeWriter_def setDefaults_def jset_def set_key_at
      asString_def asBool_def asUInt_def compact_writer_def)

text \<open>With an empty indentation the layout operations only copy their argument to the stream.\<close>

lemma wrote_steps:
  assumes "compact_writer w" and "\<not> addChildValues w"
  shows "wrote w x (pushValue x w)" and "wrote w x (put_out x w)" and "wrote w x (writeWithIndent x w)"
    and "wrote w [] (indent w)" and "wrote w [] (unindent w)" and "wrote w [] (writeIndent w)"
    and "wrote w [] (w\<lparr>indented := b\<rparr>)" and "wrote w [] (w\<lparr>childValues := cv\<rparr>)"
  using assms by (simp_all add: wrote_def compact_writer_def pushValue_def put_out_def writeWithIndent_def
      indent_def unindent_def writeIndent_def)

lemma wrote_trans: "wrote w x w1 \<Longrightarrow> wrote w1 y w2 \<Longrightarrow> wrote w (x @ y) w2"
  by (simp add: wrote_def)

lemma wrote_writer: "wrote w x w' \<Longrightarrow> compact_writer w' \<and> \<not> addChildValues w'"
  by (simp add: wrote_def)

text \<open>What is to be shown of a value: printed to the stream, or, if it fits on a line, into the child list.\<close>

definition prints :: "'d float_ops \<Rightarrow> 'd jvalue \<Rightarrow> bool" where
  "prints ops v \<longleftrightarrow>
     (\<forall>w. compact_writer w \<longrightarrow> \<not> addChildValues w \<longrightarrow> wrote w (compact ops v) (writeValue ops v w)) \<and>
     (\<forall>w. compact_writer w \<longrightarrow> addChildValues w \<longrightarrow> \<not> big_child v \<longrightarrow> pushed w [compact ops v] (writeValue ops v w))"

lemma pushValue_pushed:
  "compact_writer w \<Longrightarrow> addChildValues w \<Longrightarrow> pushed w [x] (pushValue x w)"
  by (simp add: pushed_def compact_writer_def pushValue_def)

lemma writeMembers_wrote:
  assumes "list_all (\<lambda>(k, v). prints ops v) ms" and "compact_writer w" and "\<not> addChildValues w"
  shows "wrote w (join '','' (map (\<lambda>(k, v). valueToQuotedStringN False k @ '':'' @ compact ops v) ms))
           (writeMembers ops ms w)"
  using assms
proof (induction ms arbitrary: w)
  case Nil
  then show ?case by (simp add: wrote_def)
next
  case (Cons kv ms)
  obtain k v where kv: "kv = (k, v)" by fastforce
  define w1 where "w1 = writeWithIndent (valueToQuotedStringN (emitUTF8 w) k) w"
  define w2 where "w2 = put_out (colonSymbol w1) w1"
  define w3 where "w3 = writeValue ops v w2"
  have u: "emitUTF8 w = False" using Cons.prems(2) by (simp add: compact_writer_def)
  have s1: "wrote w (valueToQuotedStringN False k) w1" using Cons.prems by (simp add: w1_def u wrote_steps)
  have s2: "wrote w1 '':'' w2"
    using wrote_writer [OF s1] wrote_steps(2) [of w1 "colonSymbol w1"] by (simp add: w2_def compact_writer_def)
  have s3: "wrote w2 (compact ops v) w3"
    using wrote_writer [OF s2] Cons.prems(1) by (simp add: w3_def kv prints_def)
  have s123: "wrote w (valueToQuotedStringN False k @ '':'' @ compact ops v) w3"
    using wrote_trans [OF wrote_trans [OF s1 s2] s3] by simp
  show ?case
  proof (cases "ms = []")
    case True
    then show ?thesis using s123 by (simp add: kv Let_def flip: w1_def w2_def w3_def)
  next
    case False
    have s4: "wrote w3 '','' (put_out '','' w3)" using wrote_writer [OF s3] by (simp add: wrote_steps)
    have "writeMembers ops (kv # ms) w = writeMembers ops ms (put_out '','' w3)"
      using False by (simp add: kv Let_def flip: w1_def w2_def w3_def)
    then show ?thesis
      using wrote_trans [OF wrote_trans [OF s123 s4] Cons.IH] wrote_writer [OF s4] Cons.prems(1) False
      by (simp add: kv join_Cons)
  qed
qed

lemma measureElems_pushed:
  assumes "list_all (prints ops) vs" and "\<not> list_ex big_child vs" and "compact_writer w" and "addChildValues w"
  shows "pushed w (map (compact ops) vs) (snd (measureElems ops i vs len w))"
  using assms
proof (induction vs arbitrary: w i len)
  case Nil
  then show ?case by (simp add: pushed_def)
next
  case (Cons v vs)
  have p: "pushed w [compact ops v] (writeValue ops v w)" using Cons.prems by (simp add: prints_def)
  then show ?case
    using Cons.IH [of "writeValue ops v w"] Cons.prems(1,2) by (simp add: Let_def pushed_def)
qed

lemma writeElems_children:
  assumes "compact_writer w" and "\<not> addChildValues w" and "\<forall>j < length vs. childValues w ! (i + j) = f (vs ! j)"
  shows "wrote w (join '','' (map f vs)) (writeElems ops True i vs w)"
  using assms
proof (induction vs arbitrary: w i)
  case Nil
  then show ?case by (simp add: wrote_def)
next
  case (Cons v vs)
  have cv: "childValues w ! i = f v" using Cons.prems(3) by (metis add_0_right length_greater_0_conv list.distinct(1) nth_Cons_0)
  define w1 where "w1 = writeWithIndent (childValues w ! i) w"
  have s1: "wrote w (f v) w1" and c1: "childValues w1 = childValues w"
    using Cons.prems wrote_steps(3) [of w "f v"] unfolding w1_def cv
    by (auto simp: writeWithIndent_def Let_def writeIndent_def put_out_def)
  show ?case
  proof (cases "vs = []")
    case True
    then show ?thesis using s1 by (simp flip: w1_def)
  next
    case False
    have s2: "wrote w1 '','' (put_out '','' w1)" using wrote_writer [OF s1] by (simp add: wrote_steps)
    have "\<forall>j < length vs. childValues (put_out '','' w1) ! (Suc i + j) = f (vs ! j)"
      using Cons.prems(3) c1 by (auto simp: put_out_def dest: spec [of _ "Suc _"])
    then have "wrote (put_out '','' w1) (join '','' (map f vs)) (writeElems ops True (Suc i) vs (put_out '','' w1))"
      using wrote_writer [OF s2] by (intro Cons.IH) auto
    then show ?thesis
      using wrote_trans [OF wrote_trans [OF s1 s2]] False by (simp add: join_Cons flip: w1_def)
  qed
qed

lemma writeElems_values:
  assumes "list_all (prints ops) vs" and "compact_writer w" and "\<not> addChildValues w"
  shows "wrote w (join '','' (map (compact ops) vs)) (writeElems ops False i vs w)"
  using assms
proof (induction vs arbitrary: w i)
  case Nil
  then show ?case by (simp add: wrote_def)
next
  case (Cons v vs)
  define w0 where "w0 = (if \<not> indented w then writeIndent w else w)\<lparr>indented := True\<rparr>"
  define w1 where "w1 = (writeValue ops v w0)\<lparr>indented := False\<rparr>"
  have s0: "wrote w [] w0" using Cons.prems by (simp add: w0_def wrote_def compact_writer_def writeIndent_def)
  have "wrote w0 (compact ops v) (writeValue ops v w0)"
    using wrote_writer [OF s0] Cons.prems(1) by (simp add: prints_def)
  then have s1: "wrote w (compact ops v) w1"
    using wrote_trans [OF s0] by (auto simp: w1_def wrote_def compact_writer_def)
  show ?case
  proof (cases "vs = []")
    case True
    then show ?thesis using s1 by (simp add: w0_def w1_def)
  next
    case False
    have s2: "wrote w1 '','' (put_out '','' w1)" using wrote_writer [OF s1] by (simp add: wrote_steps)
    have "writeElems ops False i (v # vs) w = writeElems ops False (Suc i) vs (put_out '','' w1)"
      using False by (simp add: w0_def w1_def)
    then show ?thesis
      using wrote_trans [OF wrote_trans [OF s1 s2] Cons.IH] wrote_writer [OF s2] Cons.prems(1) False
      by (simp add: join_Cons)
  qed
qed

lemma prints_array:
  assumes "list_all (prints ops) xs"
  shows "prints ops (ArrayValue xs)"
proof -
  have wr: "wrote w (compact ops (ArrayValue xs)) (writeValue ops (ArrayValue xs) w)"
    if w: "compact_writer w" "\<not> addChildValues w" and ne: "xs \<noteq> []" for w
  proof -
    define n :: u32 where "n = word_of_nat (length xs)"
    have cs: "cs w = CsNone" "indentation w = []" using w by (auto simp: compact_writer_def)
    have multi: "wrote w (compact ops (ArrayValue xs))
        (writeWithIndent '']'' (unindent (writeElems ops (childValues (indent (writeWithIndent ''['' w1)) \<noteq> []) 0 xs
           (indent (writeWithIndent ''['' w1)))))"
      if w1: "compact_writer w1" "\<not> addChildValues w1" "sout w1 = sout w"
        and cv: "childValues w1 = [] \<or> childValues w1 = map (compact ops) xs" for w1
    proof -
      define w2 where "w2 = indent (writeWithIndent ''['' w1)"
      define w3 where "w3 = writeElems ops (childValues w2 \<noteq> []) 0 xs w2"
      have s2: "wrote w1 ''['' w2"
        using w1 by (simp add: w2_def wrote_def compact_writer_def indent_def writeWithIndent_def Let_def
            writeIndent_def put_out_def)
      have c2: "childValues w2 = childValues w1"
        by (simp add: w2_def indent_def writeWithIndent_def Let_def writeIndent_def put_out_def)
      have s3: "wrote w2 (join '','' (map (compact ops) xs)) w3"
        using cv wrote_writer [OF s2] c2 ne assms
          writeElems_children [of w2 xs 0 "compact ops" ops] writeElems_values [of ops xs w2 0]
        by (auto simp: w3_def)
      have s4: "wrote w3 '']'' (writeWithIndent '']'' (unindent w3))"
        using wrote_writer [OF s3] by (simp add: wrote_def compact_writer_def unindent_def writeWithIndent_def Let_def
            writeIndent_def put_out_def)
      show ?thesis
        using wrote_trans [OF wrote_trans [OF s2 s3] s4] w1(3) by (simp add: wrote_def flip: w2_def w3_def)
    qed
    let ?w0 = "w\<lparr>childValues := []\<rparr>"
    show ?thesis
    proof (cases "rightMargin w \<le> n * 3 \<or> list_ex big_child xs")
      case True
      then show ?thesis
        using multi [of ?w0] w ne cs by (simp add: Let_def compact_writer_def flip: n_def)
    next
      case False
      obtain len w1 where m: "measureElems ops 0 xs (4 + (n - 1) * 2) (?w0\<lparr>addChildValues := True\<rparr>) = (len, w1)"
        by fastforce
      have p: "pushed (?w0\<lparr>addChildValues := True\<rparr>) (map (compact ops) xs) w1"
        using measureElems_pushed [of ops xs "?w0\<lparr>addChildValues := True\<rparr>" 0 "4 + (n - 1) * 2"] m False assms w
        by (simp add: compact_writer_def)
      define w2 where "w2 = w1\<lparr>addChildValues := False\<rparr>"
      have w2: "compact_writer w2" "\<not> addChildValues w2" "sout w2 = sout w" "childValues w2 = map (compact ops) xs"
        using p by (auto simp: pushed_def w2_def compact_writer_def)
      have "map (\<lambda>i. childValues w2 ! i) [0..<length xs] = map (compact ops) xs"
        using w2(4) by (intro nth_equalityI) auto
      then have flat: "wrote w (compact ops (ArrayValue xs))
          (put_out (''['' @ join '','' (map (\<lambda>i. childValues w2 ! i) [0..<length xs]) @ '']'') w2)"
        using w2 by (simp add: wrote_def put_out_def compact_writer_def)
      have i2: "indentation w2 = []" using w2(1) by (simp add: compact_writer_def)
      show ?thesis
        using multi [OF w2(1-3)] w2(4) flat False ne cs m i2
        by (simp add: Let_def flip: n_def w2_def)
    qed
  qed
  show ?thesis
  proof (cases "xs = []")
    case True
    then show ?thesis by (simp add: prints_def wrote_steps pushValue_pushed)
  next
    case False
    then have "big_child (ArrayValue xs)" by (simp add: big_child_def isArray_def empty_val_def size_of_def)
    with False wr show ?thesis by (simp add: prints_def del: writeValue.simps)
  qed
qed

lemma prints_object:
  assumes "list_all (\<lambda>(k, v). prints ops v) ms"
  shows "prints ops (ObjectValue ms)"
proof (cases "ms = []")
  case True
  then show ?thesis by (simp add: prints_def wrote_steps pushValue_pushed)
next
  case False
  have "wrote w (compact ops (ObjectValue ms)) (writeValue ops (ObjectValue ms) w)"
    if w: "compact_writer w" "\<not> addChildValues w" for w
  proof -
    define w1 where "w1 = indent (writeWithIndent ''{'' w)"
    define w2 where "w2 = writeMembers ops ms w1"
    have s1: "wrote w ''{'' w1"
      using w by (simp add: w1_def wrote_def compact_writer_def indent_def writeWithIndent_def Let_def
          writeIndent_def put_out_def)
    note s2 = writeMembers_wrote [OF assms conjunct1 [OF wrote_writer [OF s1]] conjunct2 [OF wrote_writer [OF s1]], folded w2_def]
    have s3: "wrote w2 ''}'' (writeWithIndent ''}'' (unindent w2))"
      using wrote_writer [OF s2] by (simp add: wrote_def compact_writer_def unindent_def writeWithIndent_def Let_def
          writeIndent_def put_out_def)
    show ?thesis using wrote_trans [OF wrote_trans [OF s1 s2] s3] False by (simp flip: w1_def w2_def)
  qed
  moreover have "big_child (ObjectValue ms)"
    using False by (simp add: big_child_def isObject_def empty_val_def size_of_def)
  ultimately show ?thesis by (simp add: prints_def del: writeValue.simps)
qed

lemma prints_all: "prints ops v"
proof (induction v)
  case (ArrayValue xs)
  then show ?case by (intro prints_array) (simp add: list_all_iff)
next
  case (ObjectValue ms)
  then show ?case by (intro prints_object) (fastforce simp: list_all_iff)
qed (auto simp: prints_def wrote_def pushed_def pushValue_def compact_writer_def)

lemma NodeTreeWriter_write_compact: "NodeTreeWriter_write ops rb ru v = Inr (compact ops v)"
proof -
  obtain w where w: "newStreamWriter ops rb ru NodeTreeWriter = Inr w" "compact_writer w"
    using NodeTreeWriter_settings by blast
  let ?w = "w\<lparr>sout := [], addChildValues := False, indentString := [], indented := True\<rparr>"
  have "wrote ?w (compact ops v) (writeValue ops v ?w)"
    using prints_all [of ops v] w(2) by (simp add: prints_def compact_writer_def)
  then show ?thesis
    using w(1) by (simp add: NodeTreeWriter_write_def writer_write_def wrote_def compact_writer_def put_out_def Let_def)
qed

text \<open>
  C21: With the settings of \<^verbatim>\<open>NodeTreeWriter\<close> the stream writer never fails, and whatever branch it
  takes for an array (one line, several lines, values printed twice to measure the line), what it
  writes is the compact text of the value: no white space, elements and members in order.
\<close>

theorem node_tree_writer_compact:
  "NodeTreeWriter_write ops rb ru v = Inr (compact ops v)"
  by (rule NodeTreeWriter_write_compact)

section \<open>Printed numbers\<close>

lemma uint_loop_decimal: "uint_loop v current = decimal (unat v) @ current"
proof (induction v current rule: uint_loop.induct)
  case (1 v current)
  have d: "unat (v div 10) = unat v div 10" "unat (v mod 10) = unat v mod 10"
    by (simp_all add: unat_div unat_mod)
  have c: "char_of (unat (v mod 10) + 48) = digit_char (unat v mod 10)"
    by (simp add: d digit_char_def add.commute)
  show ?case
  proof (cases "v div 10 = 0")
    case True
    then have "unat v div 10 = 0" using d(1) by simp
    then have "unat v < 10" by (simp add: div_eq_0_iff)
    then show ?thesis
      using True by (simp add: uint_loop.simps [of v current] c decimal.simps [of "unat v"])
  next
    case False
    then have "0 < unat (v div 10)" by (simp add: unat_gt_0)
    then have "\<not> unat v < 10" using d(1) by (simp add: div_greater_zero_iff)
    then show ?thesis
      using False 1 c d(1) by (simp add: uint_loop.simps [of v current] decimal.simps [of "unat v"])
  qed
qed

lemma decimal_length: "n < 10 ^ Suc k \<Longrightarrow> length (decimal n) \<le> Suc k"
proof (induction n arbitrary: k rule: decimal.induct)
  case (1 n)
  show ?case
  proof (cases "n < 10")
    case False
    then obtain k' where k': "k = Suc k'" using 1(2) by (cases k) auto
    then have "n div 10 < 10 ^ Suc k'" using 1(2) by (simp add: div_less_iff_less_mult mult.commute)
    then show ?thesis using 1(1) [of k'] False k' by (simp add: decimal.simps [of n])
  qed (simp add: decimal.simps [of n])
qed

lemma uintToString_eq: "uintToString v = decimal (unat v)"
  by (simp add: uintToString_def uint_loop_decimal)

lemma sint_neg_unat:
  fixes v :: i64
  assumes "sint v < 0"
  shows "int (unat (- v)) = - sint v"
proof -
  have r: "- (2 ^ 63) \<le> sint v" using sint_range_size [of v] by (simp add: word_size)
  have "- v = word_of_int (- sint v)" by simp
  then have "uint (- v) = take_bit 64 (- sint v)" by (simp only: uint_word_of_int_eq) simp
  also have "\<dots> = - sint v" using r assms by (intro take_bit_int_eq_self) auto
  finally show ?thesis by simp
qed

lemma sint_nonneg_unat: "0 \<le> sint (v :: i64) \<Longrightarrow> int (unat v) = sint v"
proof -
  assume a: "0 \<le> sint v"
  have r: "sint v < 2 ^ 63" using sint_range_size [of v] by (simp add: word_size)
  have "uint v = take_bit 64 (sint v)" by (simp add: uint_sint)
  also have "\<dots> = sint v" using r a by (intro take_bit_int_eq_self) auto
  finally show ?thesis by simp
qed

text \<open>The usual notation of an integer.\<close>

definition print_int :: "int \<Rightarrow> string" where
  "print_int i = (if i < 0 then CHR ''-'' # decimal (nat (- i)) else decimal (nat i))"

lemma valueToString_int_eq: "valueToString_int v = print_int (sint v)"
proof -
  have "unat (- v) = nat (- sint v)" if "sint v < 0"
    using sint_neg_unat [OF that] by linarith
  moreover have "unat v = nat (sint v)" if "0 \<le> sint v"
    using sint_nonneg_unat [OF that] by linarith
  ultimately show ?thesis
    by (auto simp: valueToString_int_def print_int_def uintToString_eq)
qed

lemma print_int_length:
  assumes "- (2 ^ 63) \<le> i" and "i < 2 ^ 64"
  shows "length (print_int i) \<le> 20"
proof -
  have "nat (- i) < 10 ^ Suc 18" if "i < 0" using assms(1) that by simp
  moreover have "nat i < 10 ^ Suc 19" using assms(2) by (simp add: nat_less_iff)
  ultimately show ?thesis
    using decimal_length [of "nat (- i)" 18] decimal_length [of "nat i" 19] by (auto simp: print_int_def)
qed

text \<open>
  Integers are printed in the usual decimal notation, the smallest 64-bit integer included,
  and the text with its terminator always fits in the 25-byte buffer the digits are written into.
\<close>

lemma integers_printed:
  "valueToString_int i = print_int (sint i) \<and> valueToString_uint u = decimal (unat u) \<and>
   length (valueToString_int i) + 1 \<le> 25 \<and> length (valueToString_uint u) + 1 \<le> 25"
proof -
  have "- (2 ^ 63) \<le> sint i" "sint i < 2 ^ 64"
    using sint_range_size [of i] by (auto simp: word_size)
  then have "length (valueToString_int i) \<le> 20"
    unfolding valueToString_int_eq by (rule print_int_length)
  moreover have "length (valueToString_uint u) \<le> 20"
    using decimal_length [of "unat u" 19] unat_less_64 [of u]
    by (simp add: valueToString_uint_def uintToString_eq)
  ultimately show ?thesis
    by (simp add: valueToString_int_eq valueToString_uint_def uintToString_eq)
qed

end
