(* ===== verification/Json_Reader.thy ===== *)
theory Json_Reader
  imports Json_Writer
begin

text \<open>
  The JSON reader of the bundled library, class \<^verbatim>\<open>OurReader\<close> of \<^verbatim>\<open>jsoncpp/lib_json/json_reader.cpp\<close>, with
  the factory \<^verbatim>\<open>CharReaderBuilder\<close>.  A pointer into the document is the rest of the document behind
  it, so a token is a pair of such rests.  Comments and offsets, which the library can attach to
  values, are not part of the values here: comments are skipped as they are with \<^verbatim>\<open>collectComments\<close>
  off, the setting the agent makes.
\<close>

section \<open>State\<close>

record OurFeatures =
  allowComments :: bool
  allowTrailingCommas :: bool
  strictRoot :: bool
  allowDroppedNullPlaceholders :: bool
  allowNumericKeys :: bool
  allowSingleQuotes :: bool
  failIfExtra :: bool
  rejectDupKeys :: bool
  allowSpecialFloats :: bool
  skipBom :: bool
  stackLimit :: nat

datatype TokenType =
    tokenEndOfStream | tokenObjectBegin | tokenObjectEnd | tokenArrayBegin | tokenArrayEnd
  | tokenString | tokenNumber | tokenTrue | tokenFalse | tokenNull | tokenNaN | tokenPosInf | tokenNegInf
  | tokenArraySeparator | tokenMemberSeparator | tokenComment | tokenError

record Token =
  tk_type :: TokenType
  tk_start :: string
  tk_end :: string

definition token_text :: "Token \<Rightarrow> string" where
  "token_text t = take (length (tk_start t) - length (tk_end t)) (tk_start t)"

record ErrorInfo =
  ei_token :: Token
  ei_message :: string
  ei_extra :: "string option"

record OurReader =
  rd_begin :: string
  rd_current :: string
  rd_errors :: "ErrorInfo list"

text \<open>
  What the reader needs of \<^verbatim>\<open>double\<close>: the number \<^verbatim>\<open>istream >> double\<close> reads at the start of a string, and
  the three special numbers.
\<close>

record 'd float_reader =
  fr_read :: "string \<Rightarrow> 'd option"
  fr_nan :: 'd
  fr_inf :: 'd
  fr_neg_inf :: 'd

section \<open>Tokens\<close>

definition getNextChar :: "OurReader \<Rightarrow> char \<times> OurReader" where
  "getNextChar s =
     (case rd_current s of [] \<Rightarrow> (CHR 0x00, s) | c # rs \<Rightarrow> (c, s\<lparr>rd_current := rs\<rparr>))"

definition blank :: "char \<Rightarrow> bool" where
  "blank c \<longleftrightarrow> c = CHR 0x20 \<or> c = CHR 0x09 \<or> c = CHR 0x0D \<or> c = CHR 0x0A"

definition skipSpaces :: "OurReader \<Rightarrow> OurReader" where
  "skipSpaces s = s\<lparr>rd_current := dropWhile blank (rd_current s)\<rparr>"

definition skip_bom :: "bool \<Rightarrow> OurReader \<Rightarrow> OurReader" where
  "skip_bom skip s =
     (if skip \<and> 3 \<le> length (rd_begin s) \<and> take 3 (rd_begin s) = [CHR 0xEF, CHR 0xBB, CHR 0xBF]
      then s\<lparr>rd_begin := drop 3 (rd_begin s), rd_current := drop 3 (rd_begin s)\<rparr> else s)"

definition match :: "string \<Rightarrow> OurReader \<Rightarrow> bool \<times> OurReader" where
  "match pat s =
     (if length (rd_current s) < length pat then (False, s)
      else if take (length pat) (rd_current s) \<noteq> pat then (False, s)
      else (True, s\<lparr>rd_current := drop (length pat) (rd_current s)\<rparr>))"

text \<open>The loop of \<^verbatim>\<open>readCStyleComment\<close>: up to the last character or the slash of the closing pair.\<close>

fun cstyle_loop :: "string \<Rightarrow> string" where
  "cstyle_loop (c # d # rs) = (if c = CHR ''*'' \<and> d = CHR ''/'' then d # rs else cstyle_loop (d # rs))"
| "cstyle_loop rs = rs"

definition readCStyleComment :: "OurReader \<Rightarrow> bool \<times> OurReader" where
  "readCStyleComment s =
     (let (c, s) = getNextChar (s\<lparr>rd_current := cstyle_loop (rd_current s)\<rparr>) in (c = CHR ''/'', s))"

fun cppstyle_loop :: "string \<Rightarrow> string" where
  "cppstyle_loop [] = []"
| "cppstyle_loop (c # rs) =
     (if c = CHR 0x0A then rs
      else if c = CHR 0x0D then (case rs of d # ds \<Rightarrow> if d = CHR 0x0A then ds else rs | [] \<Rightarrow> rs)
      else cppstyle_loop rs)"

definition readCppStyleComment :: "OurReader \<Rightarrow> bool \<times> OurReader" where
  "readCppStyleComment s = (True, s\<lparr>rd_current := cppstyle_loop (rd_current s)\<rparr>)"

definition readComment :: "OurReader \<Rightarrow> bool \<times> OurReader" where
  "readComment s =
     (let (c, s) = getNextChar s in
      if c = CHR ''*'' then readCStyleComment s
      else if c = CHR ''/'' then readCppStyleComment s
      else (False, s))"

text \<open>
  The scanning of digits in \<^verbatim>\<open>readNumber\<close>, from a pointer \<open>p\<close>: the first character that is no digit
  (NUL at the end), the pointer to it, and the pointer behind it.
\<close>

fun scan_digits :: "string \<Rightarrow> char \<times> string \<times> string" where
  "scan_digits [] = (CHR 0x00, [], [])"
| "scan_digits (c # p) = (if isdigit c then scan_digits p else (c, c # p, p))"

definition scan_fraction :: "char \<times> string \<times> string \<Rightarrow> char \<times> string \<times> string" where
  "scan_fraction = (\<lambda>(c, cur, p). if c = CHR ''.'' then scan_digits p else (c, cur, p))"

definition scan_exponent :: "char \<times> string \<times> string \<Rightarrow> char \<times> string \<times> string" where
  "scan_exponent = (\<lambda>(c, cur, p).
     if c = CHR ''e'' \<or> c = CHR ''E'' then
       (case p of
          d # p' \<Rightarrow> if d = CHR ''+'' \<or> d = CHR ''-'' then scan_digits p' else scan_digits p
        | [] \<Rightarrow> scan_digits p)
     else (c, cur, p))"

definition readNumber :: "bool \<Rightarrow> OurReader \<Rightarrow> bool \<times> OurReader" where
  "readNumber checkInf s =
     (if checkInf \<and> rd_current s \<noteq> [] \<and> hd (rd_current s) = CHR ''I''
      then (False, s\<lparr>rd_current := tl (rd_current s)\<rparr>)
      else (True, s\<lparr>rd_current := fst (snd (scan_exponent (scan_fraction (scan_digits (rd_current s)))))\<rparr>))"

text \<open>
  The loop of \<^verbatim>\<open>readString\<close> and \<^verbatim>\<open>readStringSingleQuote\<close>: the last character taken by the loop and the rest.
\<close>

fun string_loop :: "char \<Rightarrow> char \<Rightarrow> string \<Rightarrow> char \<times> string" where
  "string_loop q c [] = (c, [])"
| "string_loop q c [d] = (d, [])"
| "string_loop q c (d # e # rs) =
     (if d = CHR 0x5C then string_loop q d rs
      else if d = q then (d, e # rs)
      else string_loop q d (e # rs))"

definition readString_until :: "char \<Rightarrow> OurReader \<Rightarrow> bool \<times> OurReader" where
  "readString_until q s =
     (let (c, rs) = string_loop q (CHR 0x00) (rd_current s) in (c = q, s\<lparr>rd_current := rs\<rparr>))"

definition readString :: "OurReader \<Rightarrow> bool \<times> OurReader" where
  "readString = readString_until (CHR 0x22)"

definition readStringSingleQuote :: "OurReader \<Rightarrow> bool \<times> OurReader" where
  "readStringSingleQuote = readString_until (CHR 0x27)"

text \<open>The switch of \<^verbatim>\<open>readToken\<close> on the first character: the type, whether it is well formed, the state.\<close>

definition token_switch :: "OurFeatures \<Rightarrow> char \<Rightarrow> OurReader \<Rightarrow> TokenType \<times> bool \<times> OurReader" where
  "token_switch f c s =
     (if c = CHR ''{'' then (tokenObjectBegin, True, s)
      else if c = CHR ''}'' then (tokenObjectEnd, True, s)
      else if c = CHR ''['' then (tokenArrayBegin, True, s)
      else if c = CHR '']'' then (tokenArrayEnd, True, s)
      else if c = CHR 0x22 then (tokenString, readString s)
      else if c = CHR 0x27 then
        (if allowSingleQuotes f then (tokenString, readStringSingleQuote s) else (tokenError, False, s))
      else if c = CHR ''/'' then (tokenComment, readComment s)
      else if isdigit c then (tokenNumber, True, snd (readNumber False s))
      else if c = CHR ''-'' then
        (let (number, s) = readNumber True s in
         if number then (tokenNumber, True, s)
         else (tokenNegInf, if allowSpecialFloats f then match ''nfinity'' s else (False, s)))
      else if c = CHR ''+'' then
        (let (number, s) = readNumber True s in
         if number then (tokenNumber, True, s)
         else (tokenPosInf, if allowSpecialFloats f then match ''nfinity'' s else (False, s)))
      else if c = CHR ''t'' then (tokenTrue, match ''rue'' s)
      else if c = CHR ''f'' then (tokenFalse, match ''alse'' s)
      else if c = CHR ''n'' then (tokenNull, match ''ull'' s)
      else if c = CHR ''N'' then
        (if allowSpecialFloats f then (tokenNaN, match ''aN'' s) else (tokenError, False, s))
      else if c = CHR ''I'' then
        (if allowSpecialFloats f then (tokenPosInf, match ''nfinity'' s) else (tokenError, False, s))
      else if c = CHR '','' then (tokenArraySeparator, True, s)
      else if c = CHR '':'' then (tokenMemberSeparator, True, s)
      else if c = CHR 0x00 then (tokenEndOfStream, True, s)
      else (tokenError, False, s))"

definition readToken :: "OurFeatures \<Rightarrow> OurReader \<Rightarrow> bool \<times> Token \<times> OurReader" where
  "readToken f s =
     (let s = skipSpaces s; start = rd_current s; (c, s) = getNextChar s; (ty, ok, s) = token_switch f c s
      in (ok, \<lparr>tk_type = (if ok then ty else tokenError), tk_start = start, tk_end = rd_current s\<rparr>, s))"


text \<open>What a token takes from the input: only its end can be empty.\<close>

definition taken :: "OurReader \<Rightarrow> OurReader \<Rightarrow> bool" where
  "taken s s' \<longleftrightarrow> rd_begin s' = rd_begin s \<and> rd_errors s' = rd_errors s \<and> length (rd_current s') \<le> length (rd_current s)"

lemma taken_refl: "taken s s"
  by (simp add: taken_def)

lemma taken_trans: "taken s t \<Longrightarrow> taken t u \<Longrightarrow> taken s u"
  by (simp add: taken_def)

lemma taken_current: "length cur \<le> length (rd_current s) \<Longrightarrow> taken s (s\<lparr>rd_current := cur\<rparr>)"
  by (simp add: taken_def)

lemma getNextChar_taken: "taken s (snd (getNextChar s))"
  by (auto simp: getNextChar_def taken_def split: list.splits)

lemma cstyle_loop_length: "length (cstyle_loop rs) \<le> length rs"
  by (induction rs rule: cstyle_loop.induct) auto

lemma cppstyle_loop_length: "length (cppstyle_loop rs) \<le> length rs"
proof (induction rs rule: cppstyle_loop.induct)
  case (2 c rs)
  have "length (case rs of d # ds \<Rightarrow> if d = CHR 0x0A then ds else rs | [] \<Rightarrow> rs) \<le> length rs" by (cases rs) simp_all
  then show ?case using 2 by (simp add: le_SucI)
qed simp

lemma scan_digits_length:
  "length (fst (snd (scan_digits p))) \<le> length p" "length (snd (snd (scan_digits p))) \<le> length p"
  by (induction p rule: scan_digits.induct) auto

lemma string_loop_length: "length (snd (string_loop q c rs)) \<le> length rs"
  by (induction q c rs rule: string_loop.induct) (simp_all add: le_SucI)

lemma readNumber_taken: "taken s (snd (readNumber b s))"
proof -
  have "length (fst (snd (scan_exponent (scan_fraction (scan_digits p))))) \<le> length p" for p
  proof -
    obtain c cur p1 where 1: "scan_digits p = (c, cur, p1)" by (cases "scan_digits p")
    have l1: "length cur \<le> length p" "length p1 \<le> length p" using scan_digits_length [of p] 1 by auto
    obtain d cur2 p2 where 2: "scan_fraction (c, cur, p1) = (d, cur2, p2)" by (cases "scan_fraction (c, cur, p1)")
    have l2: "length cur2 \<le> length p" "length p2 \<le> length p"
      using l1 2 scan_digits_length [of p1] by (auto simp: scan_fraction_def split: if_splits)
    show ?thesis
      using l2 scan_digits_length [of p2] scan_digits_length [of "tl p2"]
      by (auto simp: 1 2 scan_exponent_def split: list.splits)
  qed
  then show ?thesis by (auto simp: readNumber_def intro!: taken_current)
qed

lemma readString_taken: "taken s (snd (readString_until q s))"
  using string_loop_length [of q "CHR 0x00" "rd_current s"]
  by (auto simp: readString_until_def split: prod.splits intro!: taken_current)

lemma match_taken: "taken s (snd (match pat s))"
  by (auto simp: match_def intro!: taken_refl taken_current)

lemma readComment_taken: "taken s (snd (readComment s))"
proof -
  obtain c s1 where 1: "getNextChar s = (c, s1)" by fastforce
  then have t: "taken s s1" using getNextChar_taken [of s] by simp
  have "taken s1 (snd (readCStyleComment s1))"
    using getNextChar_taken [of "s1\<lparr>rd_current := cstyle_loop (rd_current s1)\<rparr>"] cstyle_loop_length [of "rd_current s1"]
    by (auto simp: readCStyleComment_def taken_def split: prod.splits)
  moreover have "taken s1 (snd (readCppStyleComment s1))"
    using cppstyle_loop_length [of "rd_current s1"] by (auto simp: readCppStyleComment_def intro!: taken_current)
  ultimately show ?thesis using t taken_trans by (auto simp: readComment_def 1)
qed

lemma if_taken:
  "(b \<Longrightarrow> taken s (snd (snd x))) \<Longrightarrow> (\<not> b \<Longrightarrow> taken s (snd (snd y))) \<Longrightarrow> taken s (snd (snd (if b then x else y)))"
  by simp

lemma infinity_taken:
  "taken s (snd (snd (let (number, s) = readNumber True s in
     if number then (tokenNumber, True, s) else (ty, if b then match pat s else (False, s)))))"
  using taken_trans [OF readNumber_taken [of s True] match_taken] readNumber_taken [of s True]
  by (auto split: prod.splits)

lemma token_switch_taken: "taken s (snd (snd (token_switch f c s)))"
  unfolding token_switch_def readString_def readStringSingleQuote_def
  by (intro if_taken infinity_taken)
    (simp_all only: snd_conv taken_refl readString_taken readComment_taken match_taken readNumber_taken)

lemma token_switch_end: "fst (token_switch f c s) = tokenEndOfStream \<Longrightarrow> c = CHR 0x00"
  by (simp add: token_switch_def Let_def split: if_splits prod.splits)

lemma token_switch_error: "fst (token_switch f c s) = tokenError \<Longrightarrow> \<not> fst (snd (token_switch f c s))"
  by (simp add: token_switch_def Let_def split: if_splits prod.splits)

lemma readToken_taken:
  assumes "readToken f s = (ok, t, s')"
  shows "taken s s'" and "tk_type t \<noteq> tokenEndOfStream \<Longrightarrow> length (rd_current s') < length (rd_current s)"
    and "tk_end t = rd_current s'" and "length (tk_start t) \<le> length (rd_current s)"
    and "tk_type t = tokenError \<longleftrightarrow> \<not> ok"
proof -
  define s0 where "s0 = skipSpaces s"
  obtain c s1 where 1: "getNextChar s0 = (c, s1)" by fastforce
  obtain ty b s2 where 2: "token_switch f c s1 = (ty, b, s2)" by (metis prod.exhaust)
  have r: "ok = b" "t = \<lparr>tk_type = (if b then ty else tokenError), tk_start = rd_current s0, tk_end = rd_current s2\<rparr>" "s' = s2"
    using assms by (auto simp: readToken_def s0_def [symmetric] 1 2 Let_def)
  have t0: "taken s s0" by (auto simp: s0_def skipSpaces_def intro!: taken_current length_dropWhile_le)
  have t1: "taken s0 s1" using getNextChar_taken [of s0] 1 by simp
  have t2: "taken s1 s2" using token_switch_taken [of s1 f c] 2 by simp
  show "taken s s'" using t0 t1 t2 r taken_trans by blast
  show "tk_end t = rd_current s'" "length (tk_start t) \<le> length (rd_current s)" using r t0 by (auto simp: taken_def)
  show "tk_type t = tokenError \<longleftrightarrow> \<not> ok" using r token_switch_error [of f c s1] 2 by auto
  show "length (rd_current s') < length (rd_current s)" if "tk_type t \<noteq> tokenEndOfStream"
  proof (cases "rd_current s0")
    case Nil
    then have "c = CHR 0x00" using 1 by (simp add: getNextChar_def)
    then have "ty = tokenEndOfStream \<and> b" using 2 by (simp add: token_switch_def isdigit_iff)
    then show ?thesis using that r by simp
  next
    case (Cons a list)
    then have "length (rd_current s1) < length (rd_current s0)" using 1 by (auto simp: getNextChar_def)
    then show ?thesis using t0 t2 r by (auto simp: taken_def)
  qed
qed

text \<open>\<^verbatim>\<open>skipCommentTokens\<close>, and the loops that read on while the token at hand is a comment.\<close>

function comment_tokens :: "OurFeatures \<Rightarrow> bool \<times> Token \<times> OurReader \<Rightarrow> bool \<times> Token \<times> OurReader" where
  "comment_tokens f (ok, t, s) =
     (if tk_type t = tokenComment \<and> ok then comment_tokens f (readToken f s) else (ok, t, s))"
  by auto
termination
proof (relation "measure (\<lambda>(f, ok, t, s). if tk_type t = tokenComment \<and> ok then Suc (length (rd_current s)) else 0)")
  fix f ok and t :: Token and s
  assume "tk_type t = tokenComment \<and> ok"
  then show "((f, readToken f s), (f, ok, t, s)) \<in>
      measure (\<lambda>(f, ok, t, s). if tk_type t = tokenComment \<and> ok then Suc (length (rd_current s)) else 0)"
    using readToken_taken(2) [of f s] by (cases "readToken f s") auto
qed simp

definition skipCommentTokens :: "OurFeatures \<Rightarrow> OurReader \<Rightarrow> Token \<times> OurReader" where
  "skipCommentTokens f s =
     (if allowComments f then snd (comment_tokens f (readToken f s)) else snd (readToken f s))"

section \<open>Errors\<close>

definition quoted :: "string \<Rightarrow> string" where
  "quoted x = [CHR 0x27] @ x @ [CHR 0x27]"

text \<open>The value \<^verbatim>\<open>addError\<close> returns is always false.\<close>

definition addError :: "string \<Rightarrow> Token \<Rightarrow> string option \<Rightarrow> OurReader \<Rightarrow> OurReader" where
  "addError message token extra s =
     s\<lparr>rd_errors := rd_errors s @ [\<lparr>ei_token = token, ei_message = message, ei_extra = extra\<rparr>]\<rparr>"

function recover_loop :: "OurFeatures \<Rightarrow> TokenType \<Rightarrow> nat \<Rightarrow> OurReader \<Rightarrow> OurReader" where
  "recover_loop f skipUntilToken errorCount s =
     (let (ok, skip, s) = readToken f s;
          s = (if \<not> ok then s\<lparr>rd_errors := take errorCount (rd_errors s)\<rparr> else s)
      in if tk_type skip = skipUntilToken \<or> tk_type skip = tokenEndOfStream then s
         else recover_loop f skipUntilToken errorCount s)"
  by auto
termination
proof (relation "measure (\<lambda>(f, u, n, s). length (rd_current s))", goal_cases)
  case (2 f u n s a ok b skip s1 s')
  then have "length (rd_current s1) < length (rd_current s)" using readToken_taken(2) [of f s ok skip s1] by auto
  then show ?case using 2 by simp
qed simp

definition recoverFromError :: "OurFeatures \<Rightarrow> TokenType \<Rightarrow> OurReader \<Rightarrow> OurReader" where
  "recoverFromError f skipUntilToken s =
     (let errorCount = length (rd_errors s); s = recover_loop f skipUntilToken errorCount s
      in s\<lparr>rd_errors := take errorCount (rd_errors s)\<rparr>)"

definition addErrorAndRecover :: "OurFeatures \<Rightarrow> string \<Rightarrow> Token \<Rightarrow> TokenType \<Rightarrow> OurReader \<Rightarrow> OurReader" where
  "addErrorAndRecover f message token skipUntilToken s =
     recoverFromError f skipUntilToken (addError message token None s)"

section \<open>Numbers\<close>

definition decodeDouble :: "'d float_reader \<Rightarrow> Token \<Rightarrow> OurReader \<Rightarrow> 'd jvalue option \<times> OurReader" where
  "decodeDouble fr token s =
     (case fr_read fr (token_text token) of
        None \<Rightarrow> (None, addError (quoted (token_text token) @ '' is not a number.'') token None s)
      | Some x \<Rightarrow> (Some (RealValue x), s))"

text \<open>The loop over the digits; \<open>None\<close> when the number has to be read as a \<^verbatim>\<open>double\<close>.\<close>

fun decode_digits :: "u64 \<Rightarrow> u64 \<Rightarrow> u64 \<Rightarrow> string \<Rightarrow> u64 option" where
  "decode_digits threshold max_last_digit v [] = Some v"
| "decode_digits threshold max_last_digit v (c # rs) =
     (if \<not> isdigit c then None
      else
        let digit = word_of_nat (digit_of c) in
        if threshold \<le> v \<and> (threshold < v \<or> rs \<noteq> [] \<or> max_last_digit < digit) then None
        else decode_digits threshold max_last_digit (v * 10 + digit) rs)"

definition decodeNumber :: "'d float_reader \<Rightarrow> Token \<Rightarrow> OurReader \<Rightarrow> 'd jvalue option \<times> OurReader" where
  "decodeNumber fr token s =
     (let text = token_text token;
          isNegative = (text \<noteq> [] \<and> hd text = CHR ''-'');
          threshold = (if isNegative then 2 ^ 63 div 10 else (- 1) div 10);
          max_last_digit = (if isNegative then 2 ^ 63 mod 10 else (- 1) mod 10)
      in case decode_digits threshold max_last_digit 0 (if isNegative then tl text else text) of
           None \<Rightarrow> decodeDouble fr token s
         | Some v \<Rightarrow>
             (Some (if isNegative then IntValue (- (v div 10) * 10 - v mod 10)
                    else if v \<le> 2 ^ 63 - 1 then IntValue v
                    else UIntValue v), s))"

section \<open>Strings\<close>

definition hex_value :: "char \<Rightarrow> nat option" where
  "hex_value c =
     (if CHR ''0'' \<le> c \<and> c \<le> CHR ''9'' then Some (of_char c - 48)
      else if CHR ''a'' \<le> c \<and> c \<le> CHR ''f'' then Some (of_char c - 97 + 10)
      else if CHR ''A'' \<le> c \<and> c \<le> CHR ''F'' then Some (of_char c - 65 + 10)
      else None)"

text \<open>Reading \<open>k\<close> hexadecimal digits: the number, or \<open>None\<close> at a bad digit, and the rest.\<close>

fun hex_loop :: "nat \<Rightarrow> nat \<Rightarrow> string \<Rightarrow> nat option \<times> string" where
  "hex_loop 0 unicode current = (Some unicode, current)"
| "hex_loop (Suc k) unicode [] = (None, [])"
| "hex_loop (Suc k) unicode (c # current) =
     (case hex_value c of
        None \<Rightarrow> (None, current)
      | Some d \<Rightarrow> hex_loop k (unicode * 16 + d) current)"

text \<open>
  In the string decoders \<open>current\<close> is the text up to the closing quote and \<open>tail\<close> the document from the
  quote on, so \<open>current @ tail\<close> is the location \<^verbatim>\<open>current\<close>.
\<close>

definition decodeUnicodeEscapeSequence ::
  "Token \<Rightarrow> string \<Rightarrow> string \<Rightarrow> OurReader \<Rightarrow> nat option \<times> string \<times> OurReader" where
  "decodeUnicodeEscapeSequence token tail current s =
     (if length current < 4 then
        (None, current, addError ''Bad unicode escape sequence in string: four digits expected.'' token (Some (current @ tail)) s)
      else
        case hex_loop 4 0 current of
          (Some unicode, current) \<Rightarrow> (Some unicode, current, s)
        | (None, current) \<Rightarrow>
            (None, current,
             addError ''Bad unicode escape sequence in string: hexadecimal digit expected.'' token (Some (current @ tail)) s))"

definition decodeUnicodeCodePoint ::
  "Token \<Rightarrow> string \<Rightarrow> string \<Rightarrow> OurReader \<Rightarrow> nat option \<times> string \<times> OurReader" where
  "decodeUnicodeCodePoint token tail current s =
     (case decodeUnicodeEscapeSequence token tail current s of
        (None, current, s) \<Rightarrow> (None, current, s)
      | (Some unicode, current, s) \<Rightarrow>
          if 0xD800 \<le> unicode \<and> unicode \<le> 0xDBFF then
            if length current < 6 then
              (None, current,
               addError ''additional six characters expected to parse unicode surrogate pair.'' token (Some (current @ tail)) s)
            else if current ! 0 = CHR 0x5C \<and> current ! 1 = CHR ''u'' then
              (case decodeUnicodeEscapeSequence token tail (drop 2 current) s of
                 (None, current, s) \<Rightarrow> (None, current, s)
               | (Some surrogatePair, current, s) \<Rightarrow>
                   (Some (0x10000 + push_bit 10 (unicode AND 0x3FF) + (surrogatePair AND 0x3FF)), current, s))
            else
              let current = (if current ! 0 = CHR 0x5C then drop 2 current else drop 1 current) in
              (None, current,
               addError (''expecting another '' @ [CHR 0x5C] @ ''u token to begin the second half of a unicode surrogate pair'')
                 token (Some (current @ tail)) s)
          else (Some unicode, current, s))"

definition simple_escape :: "char \<Rightarrow> char option" where
  "simple_escape escape =
     (if escape = CHR 0x22 \<or> escape = CHR ''/'' \<or> escape = CHR 0x5C then Some escape
      else if escape = CHR ''b'' then Some (CHR 0x08)
      else if escape = CHR ''f'' then Some (CHR 0x0C)
      else if escape = CHR ''n'' then Some (CHR 0x0A)
      else if escape = CHR ''r'' then Some (CHR 0x0D)
      else if escape = CHR ''t'' then Some (CHR 0x09)
      else None)"

lemma hex_loop_length: "length (snd (hex_loop k u current)) \<le> length current"
  by (induction k u current rule: hex_loop.induct) (auto split: option.splits intro: le_SucI)

lemma decodeUnicodeEscapeSequence_length:
  "length (fst (snd (decodeUnicodeEscapeSequence token tail current s))) \<le> length current"
  using hex_loop_length [of 4 0 current]
  by (auto simp: decodeUnicodeEscapeSequence_def split: prod.splits option.splits)

lemma decodeUnicodeCodePoint_length:
  assumes "decodeUnicodeCodePoint token tail current s = (u, current', s')"
  shows "length current' \<le> length current"
proof -
  obtain v cur s1 where 1: "decodeUnicodeEscapeSequence token tail current s = (v, cur, s1)" by (metis prod.exhaust)
  obtain w cur2 s2 where 2: "decodeUnicodeEscapeSequence token tail (drop 2 cur) s1 = (w, cur2, s2)" by (metis prod.exhaust)
  have "length cur \<le> length current" "length cur2 \<le> length cur"
    using decodeUnicodeEscapeSequence_length [of token tail current s]
      decodeUnicodeEscapeSequence_length [of token tail "drop 2 cur" s1] 1 2 by auto
  then show ?thesis
    using assms by (auto simp: decodeUnicodeCodePoint_def 1 2 Let_def split: option.splits if_splits)
qed

function decode_chars :: "Token \<Rightarrow> string \<Rightarrow> string \<Rightarrow> string \<Rightarrow> OurReader \<Rightarrow> string option \<times> OurReader" where
  "decode_chars token tail decoded [] s = (Some decoded, s)"
| "decode_chars token tail decoded (c # current) s =
     (if c = CHR 0x22 then (Some decoded, s)
      else if c = CHR 0x5C then
        (case current of
           [] \<Rightarrow> (None, addError ''Empty escape sequence in string'' token (Some (current @ tail)) s)
         | escape # current \<Rightarrow>
             if escape = CHR ''u'' then
               (case decodeUnicodeCodePoint token tail current s of
                  (None, current, s) \<Rightarrow> (None, s)
                | (Some unicode, current, s) \<Rightarrow> decode_chars token tail (decoded @ codePointToUTF8 unicode) current s)
             else
               (case simple_escape escape of
                  None \<Rightarrow> (None, addError ''Bad escape sequence in string'' token (Some (current @ tail)) s)
                | Some d \<Rightarrow> decode_chars token tail (decoded @ [d]) current s))
      else decode_chars token tail (decoded @ [c]) current s)"
  by pat_completeness auto
termination
  by (relation "measure (\<lambda>(t, tl, d, current, s). length current)")
    (auto dest!: decodeUnicodeCodePoint_length [OF sym])

definition decodeString :: "Token \<Rightarrow> OurReader \<Rightarrow> string option \<times> OurReader" where
  "decodeString token s =
     (let text = token_text token
      in decode_chars token (drop (length text - 1) (tk_start token)) [] (butlast (tl text)) s)"

section \<open>Values\<close>

text \<open>
  The outcome of reading a value: whether it was well formed, or the exception thrown, the value the
  current node has afterwards, and the state.
\<close>

type_synonym 'd read_result = "(cpp_exn + bool) \<times> 'd jvalue \<times> OurReader"

datatype member_name = Name string | Undecoded | NoName

definition readMemberName ::
  "'d float_ops \<Rightarrow> 'd float_reader \<Rightarrow> OurFeatures \<Rightarrow> Token \<Rightarrow> OurReader \<Rightarrow> (cpp_exn + member_name) \<times> OurReader" where
  "readMemberName ops fr f token s =
     (if tk_type token = tokenString then
        (case decodeString token s of
           (None, s) \<Rightarrow> (Inr Undecoded, s)
         | (Some name, s) \<Rightarrow> (Inr (Name name), s))
      else if tk_type token = tokenNumber \<and> allowNumericKeys f then
        (case decodeNumber fr token s of
           (None, s) \<Rightarrow> (Inr Undecoded, s)
         | (Some v, s) \<Rightarrow> (map_sum (\<lambda>e. e) Name (asString ops v), s))
      else (Inr NoName, s))"

definition member_or_null :: "string \<Rightarrow> 'd jvalue \<Rightarrow> 'd jvalue" where
  "member_or_null name v = (case at_key name v of Inr x \<Rightarrow> x | Inl _ \<Rightarrow> NullValue)"

definition push_element :: "'d jvalue \<Rightarrow> 'd jvalue \<Rightarrow> 'd jvalue" where
  "push_element v x = snd (append_val x v)"

text \<open>
  The three calls that recur into one another: \<^verbatim>\<open>readValue\<close>, one round of the loop of \<^verbatim>\<open>readObject\<close> and one
  round of the loop of \<^verbatim>\<open>readArray\<close>.  \<open>nodes\<close> is the size of the stack \<^verbatim>\<open>nodes_\<close> and \<open>v\<close> the value of the
  current node; \<open>call\<close> makes the recursive calls.
\<close>

datatype 'd read_call =
    ReadValue nat "'d jvalue"
  | ReadMember nat string "'d jvalue"
  | ReadElement nat nat "'d jvalue"

type_synonym 'd caller = "'d read_call \<Rightarrow> OurReader \<Rightarrow> 'd read_result option"

definition readValue :: "'d float_reader \<Rightarrow> OurFeatures \<Rightarrow> 'd caller \<Rightarrow> nat \<Rightarrow> 'd jvalue \<Rightarrow> OurReader \<Rightarrow> 'd read_result option" where
  "readValue fr f call nodes v s =
     (if stackLimit f < nodes then Some (Inl Runtime_error, v, s)
      else
        let (token, s) = skipCommentTokens f s; ty = tk_type token in
        if ty = tokenObjectBegin then call (ReadMember nodes [] (ObjectValue [])) s
        else if ty = tokenArrayBegin then call (ReadElement nodes 0 (ArrayValue [])) s
        else if ty = tokenNumber then
          (case decodeNumber fr token s of
             (None, s) \<Rightarrow> Some (Inr False, v, s)
           | (Some x, s) \<Rightarrow> Some (Inr True, x, s))
        else if ty = tokenString then
          (case decodeString token s of
             (None, s) \<Rightarrow> Some (Inr False, v, s)
           | (Some x, s) \<Rightarrow> Some (Inr True, StringValue x, s))
        else if ty = tokenTrue then Some (Inr True, BooleanValue True, s)
        else if ty = tokenFalse then Some (Inr True, BooleanValue False, s)
        else if ty = tokenNull then Some (Inr True, NullValue, s)
        else if ty = tokenNaN then Some (Inr True, RealValue (fr_nan fr), s)
        else if ty = tokenPosInf then Some (Inr True, RealValue (fr_inf fr), s)
        else if ty = tokenNegInf then Some (Inr True, RealValue (fr_neg_inf fr), s)
        else if (ty = tokenArraySeparator \<or> ty = tokenObjectEnd \<or> ty = tokenArrayEnd) \<and> allowDroppedNullPlaceholders f then
          Some (Inr True, NullValue, s\<lparr>rd_current := tk_start token\<rparr>)
        else Some (Inr False, v, addError ''Syntax error: value, object or array expected.'' token None s))"

text \<open>The part of the round of \<^verbatim>\<open>readObject\<close> behind the value of a member.\<close>

definition readMemberEnd ::
  "OurFeatures \<Rightarrow> 'd caller \<Rightarrow> nat \<Rightarrow> string \<Rightarrow> 'd jvalue \<Rightarrow> OurReader \<Rightarrow> 'd read_result option" where
  "readMemberEnd f call nodes name v s =
     (let (ok, comma, s) = readToken f s in
      if \<not> ok \<or> tk_type comma \<noteq> tokenObjectEnd \<and> tk_type comma \<noteq> tokenArraySeparator \<and> tk_type comma \<noteq> tokenComment then
        Some (Inr False, v,
          addErrorAndRecover f (''Missing '' @ quoted '','' @ '' or '' @ quoted ''}'' @ '' in object declaration'') comma tokenObjectEnd s)
      else
        let (ok, comma, s) = comment_tokens f (ok, comma, s) in
        if tk_type comma = tokenObjectEnd then Some (Inr True, v, s)
        else call (ReadMember nodes name v) s)"

definition readObject ::
  "'d float_ops \<Rightarrow> 'd float_reader \<Rightarrow> OurFeatures \<Rightarrow> 'd caller \<Rightarrow> nat \<Rightarrow> string \<Rightarrow> 'd jvalue \<Rightarrow> OurReader \<Rightarrow> 'd read_result option" where
  "readObject ops fr f call nodes name v s =
     (let (ok, tokenName, s) = comment_tokens f (readToken f s);
          missing_name = (\<lambda>s. Some (Inr False, v,
            addErrorAndRecover f (''Missing '' @ quoted ''}'' @ '' or object member name'') tokenName tokenObjectEnd s))
      in
      if \<not> ok then missing_name s
      else if tk_type tokenName = tokenObjectEnd \<and> (name = [] \<or> allowTrailingCommas f) then Some (Inr True, v, s)
      else
        case readMemberName ops fr f tokenName s of
          (Inl e, s) \<Rightarrow> Some (Inl e, v, s)
        | (Inr Undecoded, s) \<Rightarrow> Some (Inr False, v, recoverFromError f tokenObjectEnd s)
        | (Inr NoName, s) \<Rightarrow> missing_name s
        | (Inr (Name name), s) \<Rightarrow>
            if 2 ^ 30 \<le> length name then Some (Inl Runtime_error, v, s)
            else if rejectDupKeys f \<and> isMember name v = Inr True then
              Some (Inr False, v, addErrorAndRecover f (''Duplicate key: '' @ quoted name) tokenName tokenObjectEnd s)
            else
              let (ok, colon, s) = readToken f s in
              if \<not> ok \<or> tk_type colon \<noteq> tokenMemberSeparator then
                Some (Inr False, v,
                  addErrorAndRecover f (''Missing '' @ quoted '':'' @ '' after object member name'') colon tokenObjectEnd s)
              else
                case call (ReadValue (Suc nodes) (member_or_null name v)) s of
                  None \<Rightarrow> None
                | Some (ok, x, s) \<Rightarrow>
                    let v = snd (set_key name x v) in
                    if ok = Inr True then readMemberEnd f call nodes name v s
                    else if ok = Inr False then Some (ok, v, recoverFromError f tokenObjectEnd s)
                    else Some (ok, v, s))"

definition readArray ::
  "OurFeatures \<Rightarrow> 'd caller \<Rightarrow> nat \<Rightarrow> nat \<Rightarrow> 'd jvalue \<Rightarrow> OurReader \<Rightarrow> 'd read_result option" where
  "readArray f call nodes index v s =
     (let s = skipSpaces s in
      if rd_current s \<noteq> [] \<and> hd (rd_current s) = CHR '']'' \<and>
         (index = 0 \<or> allowTrailingCommas f \<and> \<not> allowDroppedNullPlaceholders f)
      then Some (Inr True, v, snd (snd (readToken f s)))
      else
        case call (ReadValue (Suc nodes) NullValue) s of
          None \<Rightarrow> None
        | Some (ok, x, s) \<Rightarrow>
            let v = push_element v x in
            if ok = Inr True then
              let (ok, token, s) = comment_tokens f (readToken f s) in
              if \<not> ok \<or> tk_type token \<noteq> tokenArraySeparator \<and> tk_type token \<noteq> tokenArrayEnd then
                Some (Inr False, v,
                  addErrorAndRecover f (''Missing '' @ quoted '','' @ '' or '' @ quoted '']'' @ '' in array declaration'') token tokenArrayEnd s)
              else if tk_type token = tokenArrayEnd then Some (Inr True, v, s)
              else call (ReadElement nodes (Suc index) v) s
            else if ok = Inr False then Some (ok, v, recoverFromError f tokenArrayEnd s)
            else Some (ok, v, s))"

text \<open>The calls tied together.  The number is fuel, \<open>None\<close> says that it has run out.\<close>

primrec read_with :: "'d float_ops \<Rightarrow> 'd float_reader \<Rightarrow> OurFeatures \<Rightarrow> nat \<Rightarrow> 'd caller" where
  "read_with ops fr f 0 c s = None"
| "read_with ops fr f (Suc n) c s =
     (case c of
        ReadValue nodes v \<Rightarrow> readValue fr f (read_with ops fr f n) nodes v s
      | ReadMember nodes name v \<Rightarrow> readObject ops fr f (read_with ops fr f n) nodes name v s
      | ReadElement nodes index v \<Rightarrow> readArray f (read_with ops fr f n) nodes index v s)"

text \<open>
  \<^verbatim>\<open>parse\<close> with the fuel it needs: every call but the first is made behind at least one more character
  of the document, with two calls for each.
\<close>

definition parse :: "'d float_ops \<Rightarrow> 'd float_reader \<Rightarrow> OurFeatures \<Rightarrow> string \<Rightarrow> 'd jvalue \<Rightarrow> 'd read_result option" where
  "parse ops fr f doc root =
     (let s = skip_bom (skipBom f) \<lparr>rd_begin = doc, rd_current = doc, rd_errors = []\<rparr> in
      case read_with ops fr f (2 * length doc + 2) (ReadValue 1 root) s of
        None \<Rightarrow> None
      | Some (Inl e, root, s) \<Rightarrow> Some (Inl e, root, s)
      | Some (Inr successful, root, s) \<Rightarrow>
          let (token, s) = skipCommentTokens f s in
          if failIfExtra f \<and> tk_type token \<noteq> tokenEndOfStream then
            Some (Inr False, root, addError ''Extra non-whitespace after JSON value.'' token None s)
          else if strictRoot f \<and> \<not> isArray root \<and> \<not> isObject root then
            Some (Inr False, root,
              addError ''A valid JSON document must be either an array or an object value.''
                \<lparr>tk_type = tokenError, tk_start = doc, tk_end = []\<rparr> None s)
          else Some (Inr successful, root, s))"

section \<open>Messages\<close>

text \<open>
  The loop of \<^verbatim>\<open>getLocationLineAndColumn\<close>: the start of the last line before the location, and the number
  of lines before it.
\<close>

function line_loop :: "string \<Rightarrow> string \<Rightarrow> string \<Rightarrow> nat \<Rightarrow> string \<times> nat" where
  "line_loop location current lastLineStart line =
     (if length current \<le> length location then (lastLineStart, line)
      else
        let c = hd current; current = tl current in
        if c = CHR 0x0D then
          (let current = (if current \<noteq> [] \<and> hd current = CHR 0x0A then tl current else current)
           in line_loop location current current (line + 1))
        else if c = CHR 0x0A then line_loop location current current (line + 1)
        else line_loop location current lastLineStart line)"
  by auto
termination
  by (relation "measure (\<lambda>(location, current, l, n). length current)") auto

definition getLocationLineAndColumn :: "OurReader \<Rightarrow> string \<Rightarrow> int \<times> int" where
  "getLocationLineAndColumn s location =
     (let (lastLineStart, line) = line_loop location (rd_begin s) (rd_begin s) 0
      in (int line + 1, int (length lastLineStart) - int (length location) + 1))"

definition locationLineAndColumn_string :: "OurReader \<Rightarrow> string \<Rightarrow> string" where
  "locationLineAndColumn_string s location =
     (let (line, column) = getLocationLineAndColumn s location
      in ''Line '' @ print_int line @ '', Column '' @ print_int column)"

definition getFormattedErrorMessages :: "OurReader \<Rightarrow> string" where
  "getFormattedErrorMessages s =
     concat (map (\<lambda>error.
       ''* '' @ locationLineAndColumn_string s (tk_start (ei_token error)) @ [CHR 0x0A] @
       ''  '' @ ei_message error @ [CHR 0x0A] @
       (case ei_extra error of
          None \<Rightarrow> []
        | Some extra \<Rightarrow> ''See '' @ locationLineAndColumn_string s extra @ '' for detail.'' @ [CHR 0x0A])) (rd_errors s))"

definition getStructuredErrors :: "OurReader \<Rightarrow> (int \<times> int \<times> string) list" where
  "getStructuredErrors s =
     map (\<lambda>error.
       (int (length (rd_begin s)) - int (length (tk_start (ei_token error))),
        int (length (rd_begin s)) - int (length (tk_end (ei_token error))), ei_message error)) (rd_errors s)"

section \<open>The factory\<close>

definition reader_setDefaults :: "'d jvalue \<Rightarrow> 'd jvalue" where
  "reader_setDefaults settings =
     (let s = jset ''collectComments'' (BooleanValue True) settings;
          s = jset ''allowComments'' (BooleanValue True) s;
          s = jset ''allowTrailingCommas'' (BooleanValue True) s;
          s = jset ''strictRoot'' (BooleanValue False) s;
          s = jset ''allowDroppedNullPlaceholders'' (BooleanValue False) s;
          s = jset ''allowNumericKeys'' (BooleanValue False) s;
          s = jset ''allowSingleQuotes'' (BooleanValue False) s;
          s = jset ''stackLimit'' (IntValue 1000) s;
          s = jset ''failIfExtra'' (BooleanValue False) s;
          s = jset ''rejectDupKeys'' (BooleanValue False) s;
          s = jset ''allowSpecialFloats'' (BooleanValue False) s
      in jset ''skipBom'' (BooleanValue True) s)"

definition strictMode :: "'d jvalue \<Rightarrow> 'd jvalue" where
  "strictMode settings =
     (let s = jset ''allowComments'' (BooleanValue False) settings;
          s = jset ''allowTrailingCommas'' (BooleanValue False) s;
          s = jset ''strictRoot'' (BooleanValue True) s;
          s = jset ''allowDroppedNullPlaceholders'' (BooleanValue False) s;
          s = jset ''allowNumericKeys'' (BooleanValue False) s;
          s = jset ''allowSingleQuotes'' (BooleanValue False) s;
          s = jset ''stackLimit'' (IntValue 1000) s;
          s = jset ''failIfExtra'' (BooleanValue True) s;
          s = jset ''rejectDupKeys'' (BooleanValue True) s;
          s = jset ''allowSpecialFloats'' (BooleanValue False) s
      in jset ''skipBom'' (BooleanValue True) s)"

text \<open>
  \<^verbatim>\<open>newCharReader\<close>.  The settings are no floating-point numbers here; the two parameters classify and
  convert such a number.
\<close>

definition newCharReader :: "('d \<Rightarrow> bool) \<Rightarrow> ('d \<Rightarrow> u32 option) \<Rightarrow> 'd jvalue \<Rightarrow> cpp_exn + OurFeatures" where
  "newCharReader rb ru settings =
     (let flag = (\<lambda>key. setting (asBool rb) key settings) in
      case (flag ''collectComments'', flag ''allowComments'', flag ''allowTrailingCommas'', flag ''strictRoot'',
            flag ''allowDroppedNullPlaceholders'', flag ''allowNumericKeys'') of
        (Inr cc, Inr ac, Inr atc, Inr sr, Inr dnp, Inr ank) \<Rightarrow>
          (case (flag ''allowSingleQuotes'', setting (asUInt ru) ''stackLimit'' settings, flag ''failIfExtra'',
                 flag ''rejectDupKeys'', flag ''allowSpecialFloats'', flag ''skipBom'') of
             (Inr asq, Inr sl, Inr fie, Inr rdk, Inr asf, Inr sb) \<Rightarrow>
               Inr \<lparr>allowComments = ac, allowTrailingCommas = atc, strictRoot = sr, allowDroppedNullPlaceholders = dnp,
                    allowNumericKeys = ank, allowSingleQuotes = asq, failIfExtra = fie, rejectDupKeys = rdk,
                    allowSpecialFloats = asf, skipBom = sb, stackLimit = unat sl\<rparr>
           | _ \<Rightarrow> Inl Logic_error)
      | _ \<Rightarrow> Inl Logic_error)"

text \<open>What the default settings give.\<close>

definition default_features :: OurFeatures where
  "default_features =
     \<lparr>allowComments = True, allowTrailingCommas = True, strictRoot = False, allowDroppedNullPlaceholders = False,
      allowNumericKeys = False, allowSingleQuotes = False, failIfExtra = False, rejectDupKeys = False,
      allowSpecialFloats = False, skipBom = True, stackLimit = 1000\<rparr>"

lemma newCharReader_defaults:
  "newCharReader rb ru (jset ''collectComments'' (BooleanValue False) (reader_setDefaults NullValue)) = Inr default_features"
  by (simp add: newCharReader_def setting_def reader_setDefaults_def jset_def set_key_at asBool_def asUInt_def default_features_def)

definition valid_keys :: "string list" where
  "valid_keys = [''collectComments'', ''allowComments'', ''allowTrailingCommas'', ''strictRoot'',
     ''allowDroppedNullPlaceholders'', ''allowNumericKeys'', ''allowSingleQuotes'', ''stackLimit'',
     ''failIfExtra'', ''rejectDupKeys'', ''allowSpecialFloats'', ''skipBom'']"

text \<open>\<^verbatim>\<open>validate\<close> with an object to collect the invalid settings in.\<close>

definition validate :: "'d jvalue \<Rightarrow> 'd jvalue \<Rightarrow> bool \<times> 'd jvalue" where
  "validate settings invalid =
     (let invalid = (case settings of
         ObjectValue ms \<Rightarrow> fold (\<lambda>(key, x) inv. if key \<in> set valid_keys then inv else jset key x inv) ms invalid
       | _ \<Rightarrow> invalid)
      in (empty_val invalid, invalid))"

definition parseFromStream ::
  "'d float_ops \<Rightarrow> 'd float_reader \<Rightarrow> ('d \<Rightarrow> bool) \<Rightarrow> ('d \<Rightarrow> u32 option) \<Rightarrow> 'd jvalue \<Rightarrow> string \<Rightarrow> 'd jvalue \<Rightarrow>
     ((cpp_exn + bool) \<times> 'd jvalue \<times> string) option" where
  "parseFromStream ops fr rb ru settings doc root =
     (case newCharReader rb ru settings of
        Inl e \<Rightarrow> Some (Inl e, root, [])
      | Inr f \<Rightarrow>
          (case parse ops fr f doc root of
             None \<Rightarrow> None
           | Some (ok, root, s) \<Rightarrow> Some (ok, root, getFormattedErrorMessages s)))"

end
