(* ===== verification/Json_Strings.thy ===== *)
theory Json_Strings
  imports Json_Reader
begin

text \<open>
  Strings through the JSON writer and back through the reader: UTF-8 encoding and decoding, the
  escapes, and the scanning of a quoted string.
\<close>

unbundle bit_operations_syntax

section \<open>UTF-8\<close>

lemma or_shift: "a < 2 ^ k \<Longrightarrow> push_bit k b OR a = 2 ^ k * b + a" for a b :: nat
proof -
  assume a: "a < 2 ^ k"
  have "\<not> bit (push_bit k b) n \<or> \<not> bit a n" for n
  proof (cases "n < k")
    case False
    then have "(2 :: nat) ^ k \<le> 2 ^ n" by simp
    then have "a < 2 ^ n" using a by linarith
    then have "\<not> bit a n" by (simp add: bit_iff_odd)
    then show ?thesis by simp
  qed (simp add: bit_push_bit_iff)
  then have "push_bit k b + a = push_bit k b OR a" by (rule disjunctive_add)
  then show ?thesis by (simp add: push_bit_eq_mult mult.commute)
qed

lemma and_low: "a AND 0x3F = a mod 64" "a AND 0x1F = a mod 32" "a AND 0x0F = a mod 16" "a AND 0x07 = a mod 8"
    "a AND 0x3FF = a mod 1024" "a AND 0xFF = a mod 256" for a :: nat
  using take_bit_eq_mask [of 6 a] take_bit_eq_mask [of 5 a] take_bit_eq_mask [of 4 a] take_bit_eq_mask [of 3 a]
    take_bit_eq_mask [of 10 a] take_bit_eq_mask [of 8 a]
  by (simp_all add: mask_eq_exp_minus_1 take_bit_eq_mod)

lemma low_and: "0x3F AND a = a mod 64" "0x1F AND a = a mod 32" "0x0F AND a = a mod 16" "0x07 AND a = a mod 8" for a :: nat
  using and_low [of a] by (simp_all add: and.commute)

lemma or_low:
  "a < 64 \<Longrightarrow> 0x80 OR a = 128 + a" "a < 32 \<Longrightarrow> 0xC0 OR a = 192 + a" "a < 16 \<Longrightarrow> 0xE0 OR a = 224 + a"
  "a < 8 \<Longrightarrow> 0xF0 OR a = 240 + a" for a :: nat
  using or_shift [of a 6 2] or_shift [of a 5 6] or_shift [of a 4 14] or_shift [of a 3 30]
  by (simp_all add: push_bit_eq_mult)

lemma shift_or: "a < 64 \<Longrightarrow> push_bit 6 b OR a = 64 * b + a" for a b :: nat
  using or_shift [of a 6 b] by simp

definition scalar :: "nat \<Rightarrow> bool" where
  "scalar cp \<longleftrightarrow> cp < 0xD800 \<or> 0xDFFF < cp \<and> cp \<le> 0x10FFFF"

definition utf8 :: "nat list \<Rightarrow> string" where
  "utf8 cps = concat (map codePointToUTF8 cps)"

lemma codePointToUTF8_eq:
  "cp \<le> 0x7F \<Longrightarrow> codePointToUTF8 cp = [char_of cp]"
  "0x7F < cp \<Longrightarrow> cp \<le> 0x7FF \<Longrightarrow> codePointToUTF8 cp = [char_of (192 + cp div 64), char_of (128 + cp mod 64)]"
  "0x7FF < cp \<Longrightarrow> cp \<le> 0xFFFF \<Longrightarrow>
     codePointToUTF8 cp = [char_of (224 + cp div 4096), char_of (128 + cp div 64 mod 64), char_of (128 + cp mod 64)]"
  "0xFFFF < cp \<Longrightarrow> cp \<le> 0x10FFFF \<Longrightarrow>
     codePointToUTF8 cp = [char_of (240 + cp div 262144), char_of (128 + cp div 4096 mod 64),
       char_of (128 + cp div 64 mod 64), char_of (128 + cp mod 64)]"
  by (simp_all add: codePointToUTF8_def low_and or_low drop_bit_eq_div)

lemma lead_mod: "x < 32 \<Longrightarrow> (192 + x) mod 32 = x" "x < 16 \<Longrightarrow> (224 + x) mod 16 = x" "x < 8 \<Longrightarrow> (240 + x) mod 8 = x"
    "x < 64 \<Longrightarrow> (128 + x) mod 64 = x" for x :: nat
  using mod_mult_self2 [of x 32 6] mod_mult_self2 [of x 16 14] mod_mult_self2 [of x 8 30] mod_mult_self2 [of x 64 2]
  by (simp_all add: add.commute)

lemma sixes:
  "64 * (cp div 64) + cp mod 64 = cp" "4096 * (cp div 4096) + (64 * (cp div 64 mod 64) + cp mod 64) = cp"
  "262144 * (cp div 262144) + (4096 * (cp div 4096 mod 64) + (64 * (cp div 64 mod 64) + cp mod 64)) = cp" for cp :: nat
proof -
  show 1: "64 * (cp div 64) + cp mod 64 = cp" for cp :: nat by simp
  show 2: "4096 * (cp div 4096) + (64 * (cp div 64 mod 64) + cp mod 64) = cp" for cp :: nat
  proof -
    have "cp div 4096 = cp div 64 div 64" by (simp add: div_mult2_eq [symmetric])
    then show ?thesis using 1 [of cp] 1 [of "cp div 64"] by linarith
  qed
  show "262144 * (cp div 262144) + (4096 * (cp div 4096 mod 64) + (64 * (cp div 64 mod 64) + cp mod 64)) = cp"
  proof -
    have "cp div 262144 = cp div 4096 div 64" by (simp add: div_mult2_eq [symmetric])
    then show ?thesis using 2 [of cp] 1 [of "cp div 4096"] by linarith
  qed
qed

lemma or_three: "y < 64 \<Longrightarrow> z < 64 \<Longrightarrow> push_bit 12 x OR push_bit 6 y OR z = 4096 * x + (64 * y + z)" for x y z :: nat
  using or_shift [of "64 * y + z" 12 x] by (simp add: or.assoc shift_or)

lemma or_four: "w < 64 \<Longrightarrow> y < 64 \<Longrightarrow> z < 64 \<Longrightarrow>
    push_bit 18 x OR push_bit 12 w OR push_bit 6 y OR z = 262144 * x + (4096 * w + (64 * y + z))" for w x y z :: nat
  using or_shift [of "4096 * w + (64 * y + z)" 18 x] or_three [of y z w] by (simp add: or.assoc)

lemma utf8_three:
  assumes "224 \<le> a" and "a < 240" and "b < 256" and "c < 256"
  shows "utf8ToCodepoint (char_of a # char_of b # char_of c # rest) =
    (let calc = 4096 * (a mod 16) + (64 * (b mod 64) + c mod 64)
     in (if 0xD800 \<le> calc \<and> calc \<le> 0xDFFF then 0xFFFD else if calc < 0x800 then 0xFFFD else calc, 2))"
  using assms by (simp add: utf8ToCodepoint_def and_low or_three)

lemma utf8_four:
  assumes "240 \<le> a" and "a < 248" and "b < 256" and "c < 256" and "d < 256"
  shows "utf8ToCodepoint (char_of a # char_of b # char_of c # char_of d # rest) =
    (let calc = 262144 * (a mod 8) + (4096 * (b mod 64) + (64 * (c mod 64) + d mod 64))
     in (if calc < 0x10000 then 0xFFFD else calc, 3))"
  using assms by (simp add: utf8ToCodepoint_def and_low or_four)

lemma utf8ToCodepoint_UTF8:
  assumes "scalar cp"
  shows "utf8ToCodepoint (codePointToUTF8 cp @ rest) = (cp, length (codePointToUTF8 cp) - 1)"
proof -
  consider "cp \<le> 0x7F" | "0x7F < cp" "cp \<le> 0x7FF" | "0x7FF < cp" "cp \<le> 0xFFFF" | "0xFFFF < cp" "cp \<le> 0x10FFFF"
    using assms by (fastforce simp: scalar_def)
  then show ?thesis
  proof cases
    case 1
    then show ?thesis by (simp add: codePointToUTF8_eq utf8ToCodepoint_def)
  next
    case 2
    have "(192 + cp div 64) mod 32 = cp div 64" "(128 + cp mod 64) mod 64 = cp mod 64" "192 + cp div 64 < 256"
      using 2 lead_mod(1) [of "cp div 64"] lead_mod(4) [of "cp mod 64"] by auto
    then show ?thesis using 2 by (simp add: codePointToUTF8_eq utf8ToCodepoint_def Let_def and_low shift_or)
  next
    case 3
    then have "(224 + cp div 4096) mod 16 = cp div 4096" "224 + cp div 4096 < 256"
      "(128 + cp div 64 mod 64) mod 64 = cp div 64 mod 64" "(128 + cp mod 64) mod 64 = cp mod 64"
      using lead_mod(2) [of "cp div 4096"] lead_mod(4) [of "cp mod 64"] lead_mod(4) [of "cp div 64 mod 64"] by auto
    moreover have "224 + cp div 4096 < 240" "128 + cp div 64 mod 64 < 256" "128 + cp mod 64 < 256" using 3 by auto
    moreover have "\<not> (0xD800 \<le> cp \<and> cp \<le> 0xDFFF)" using assms by (auto simp: scalar_def)
    ultimately show ?thesis using 3 sixes(2) [of cp]
      by (simp add: codePointToUTF8_eq utf8_three Let_def)
  next
    case 4
    have l: "cp div 262144 < 8" using 4(2) by (intro less_mult_imp_div_less) simp
    have m: "(240 + cp div 262144) mod 8 = cp div 262144" "(128 + cp div 4096 mod 64) mod 64 = cp div 4096 mod 64"
      "(128 + cp div 64 mod 64) mod 64 = cp div 64 mod 64" "(128 + cp mod 64) mod 64 = cp mod 64"
      using lead_mod(3) [OF l] lead_mod(4) by simp_all
    have n: "240 + cp div 262144 < 248" using l by simp
    have k: "128 + x mod 64 < 256" for x :: nat using mod_less_divisor [of 64 x] by linarith
    have "utf8ToCodepoint (char_of (240 + cp div 262144) # char_of (128 + cp div 4096 mod 64) #
       char_of (128 + cp div 64 mod 64) # char_of (128 + cp mod 64) # rest) = (cp, 3)"
      using utf8_four [OF _ n k k k, of "cp div 4096" "cp div 64" cp rest] 4(1) unfolding m sixes(3) Let_def by simp
    then show ?thesis using 4 by (simp add: codePointToUTF8_eq)
  qed
qed

section \<open>Quoted strings\<close>

lemma hex_value_digit: "d < 16 \<Longrightarrow> hex_value (hex_digit d) = Some d"
proof -
  have "list_all (\<lambda>d. hex_value (hex_digit d) = Some d) [0..<16]" by code_simp
  then show "d < 16 \<Longrightarrow> hex_value (hex_digit d) = Some d" by (simp add: list_all_iff)
qed

lemma hex_digit_plain: "d < 16 \<Longrightarrow> hex_digit d \<noteq> CHR 0x22 \<and> hex_digit d \<noteq> CHR 0x5C"
proof -
  have "list_all (\<lambda>d. hex_digit d \<noteq> CHR 0x22 \<and> hex_digit d \<noteq> CHR 0x5C) [0..<16]" by code_simp
  then show "d < 16 \<Longrightarrow> hex_digit d \<noteq> CHR 0x22 \<and> hex_digit d \<noteq> CHR 0x5C" by (simp add: list_all_iff)
qed

lemma toHex16Bit_eq: "toHex16Bit x =
    [hex_digit (x div 256 mod 256 div 16), hex_digit (x div 256 mod 256 mod 16), hex_digit (x mod 256 div 16), hex_digit (x mod 256 mod 16)]"
  by (simp add: toHex16Bit_def hex2_def Let_def and_low drop_bit_eq_div)

lemma hex_loop_digits:
  assumes "a < 16" and "b < 16" and "c < 16" and "d < 16"
  shows "hex_loop 4 0 (hex_digit a # hex_digit b # hex_digit c # hex_digit d # r) = (Some (((a * 16 + b) * 16 + c) * 16 + d), r)"
proof -
  have "hex_loop 4 0 cs = hex_loop (Suc (Suc (Suc (Suc 0)))) 0 cs" for cs by (simp add: numeral_eq_Suc)
  then show ?thesis using assms by (simp add: hex_value_digit)
qed

lemma hex_loop_toHex:
  assumes "x < 0x10000"
  shows "hex_loop 4 0 (toHex16Bit x @ r) = (Some x, r)"
proof -
  define h l where "h = x div 256" and "l = x mod 256"
  have x: "x = h * 256 + l" "h < 256" "l < 256" using assms by (auto simp: h_def l_def)
  have "(h * 16 + l div 16) * 16 + l mod 16 = h * 256 + (l div 16 * 16 + l mod 16)" by (simp add: algebra_simps)
  then have "((h div 16 * 16 + h mod 16) * 16 + l div 16) * 16 + l mod 16 = x" using x(1) by simp
  moreover have "h div 16 < 16" "l div 16 < 16" using x by auto
  moreover have "toHex16Bit x = [hex_digit (h div 16), hex_digit (h mod 16), hex_digit (l div 16), hex_digit (l mod 16)]"
    using x(2) by (simp add: toHex16Bit_eq h_def l_def)
  ultimately show ?thesis using hex_loop_digits [of "h div 16" "h mod 16" "l div 16" "l mod 16" r] by simp
qed

definition escaped :: "nat \<Rightarrow> string" where
  "escaped cp =
     (if cp = 0x22 then [CHR 0x5C, CHR 0x22] else if cp = 0x5C then [CHR 0x5C, CHR 0x5C]
      else if cp = 0x08 then [CHR 0x5C, CHR ''b''] else if cp = 0x0C then [CHR 0x5C, CHR ''f'']
      else if cp = 0x0A then [CHR 0x5C, CHR ''n''] else if cp = 0x0D then [CHR 0x5C, CHR ''r'']
      else if cp = 0x09 then [CHR 0x5C, CHR ''t''] else if cp < 0x20 then appendHex cp
      else if cp < 0x80 then [char_of cp] else if cp < 0x10000 then appendHex cp
      else appendHex (0xd800 + (cp - 0x10000) div 1024) @ appendHex (0xdc00 + (cp - 0x10000) mod 1024))"

lemma char_of_iff: "cp < 256 \<Longrightarrow> char_of cp = c \<longleftrightarrow> cp = byte c" for cp :: nat
  by (metis char_of_char of_char_of mod_less)

lemma lead_byte:
  assumes "scalar cp"
  obtains c bs where "codePointToUTF8 cp = c # bs" "if cp < 0x80 then c = char_of cp else 0x80 \<le> byte c"
proof -
  have d: "cp \<le> 0x10FFFF \<Longrightarrow> cp div 262144 < 16" "cp \<le> 0xFFFF \<Longrightarrow> cp div 4096 < 16" "cp \<le> 0x7FF \<Longrightarrow> cp div 64 < 32"
    by (intro less_mult_imp_div_less; simp)+
  consider "cp \<le> 0x7F" | "0x7F < cp" "cp \<le> 0x7FF" | "0x7FF < cp" "cp \<le> 0xFFFF" | "0xFFFF < cp" "cp \<le> 0x10FFFF"
    using assms by (fastforce simp: scalar_def)
  then have "\<exists>c bs. codePointToUTF8 cp = c # bs \<and> (if cp < 0x80 then c = char_of cp else 0x80 \<le> byte c)"
    by cases (use d in \<open>simp_all add: codePointToUTF8_eq\<close>)
  then show thesis using that by blast
qed

lemma escape_loop_one:
  assumes "scalar cp"
  shows "escape_loop False (codePointToUTF8 cp @ rest) = escaped cp @ escape_loop False rest"
proof -
  from lead_byte [OF assms] obtain c bs where u: "codePointToUTF8 cp = c # bs" "if cp < 0x80 then c = char_of cp else 0x80 \<le> byte c" .
  have cp: "utf8ToCodepoint (c # bs @ rest) = (cp, length bs)"
    using utf8ToCodepoint_UTF8 [OF assms, of rest] u(1) by simp
  have def': "escape_default False (c # bs @ rest) = 
     (if cp < 0x20 then appendHex cp else if cp < 0x80 then [char_of cp] else if cp < 0x10000 then appendHex cp
      else appendHex (0xd800 + (cp - 0x10000) div 1024) @ appendHex (0xdc00 + (cp - 0x10000) mod 1024), length bs)"
  proof -
    have "(cp - 65536) div 1024 < 1024" using assms by (intro less_mult_imp_div_less) (auto simp: scalar_def)
    then show ?thesis by (simp add: escape_default_def cp appendRaw_def Let_def drop_bit_eq_div and_low)
  qed
  show ?thesis
  proof (cases "cp < 0x80")
    case True
    then have "bs = []" using u by (simp add: codePointToUTF8_eq)
    moreover have "char_of cp = x \<longleftrightarrow> cp = byte x" for x using True by (simp add: char_of_iff)
    ultimately show ?thesis using True u def' by (simp add: escaped_def)
  next
    case False
    then have "0x80 \<le> byte c" using u(2) by simp
    then have "c \<noteq> CHR 0x22" "c \<noteq> CHR 0x5C" "c \<noteq> CHR 0x08" "c \<noteq> CHR 0x0C" "c \<noteq> CHR 0x0A" "c \<noteq> CHR 0x0D" "c \<noteq> CHR 0x09" by auto
    then show ?thesis using u(1) def' False by (simp add: escaped_def)
  qed
qed


lemma escape_loop_utf8:
  "\<forall>cp \<in> set cps. scalar cp \<Longrightarrow> escape_loop False (utf8 cps) = concat (map escaped cps)"
  by (induction cps) (simp_all add: utf8_def escape_loop_one)

lemma appendHex_scan: "string_loop (CHR 0x22) c (appendHex x @ d # rs) = string_loop (CHR 0x22) (last (appendHex x)) (d # rs)"
proof -
  have h: "hex_digit (k mod 256 div 16) \<noteq> CHR 0x22 \<and> hex_digit (k mod 256 div 16) \<noteq> CHR 0x5C"
    "hex_digit (k mod 256 mod 16) \<noteq> CHR 0x22 \<and> hex_digit (k mod 256 mod 16) \<noteq> CHR 0x5C" for k :: nat
    by (intro hex_digit_plain; auto)+
  show ?thesis using h [of "x div 256"] h [of x] by (simp add: appendHex_def toHex16Bit_eq)
qed

lemma escaped_scan:
  assumes "scalar cp"
  shows "\<exists>e. string_loop (CHR 0x22) c (escaped cp @ d # rs) = string_loop (CHR 0x22) e (d # rs)"
proof -
  have "char_of cp \<noteq> CHR 0x22 \<and> char_of cp \<noteq> CHR 0x5C" if "cp \<noteq> 0x22" "cp \<noteq> 0x5C" "cp < 0x80"
    using that by (simp add: char_of_iff)
  moreover have "\<exists>e. string_loop (CHR 0x22) c (appendHex x @ appendHex y @ d # rs) = string_loop (CHR 0x22) e (d # rs)" for x y
  proof -
    have "string_loop (CHR 0x22) c (appendHex x @ appendHex y @ d # rs) =
        string_loop (CHR 0x22) (last (appendHex x)) (appendHex y @ d # rs)"
      using appendHex_scan [of c x "CHR 0x5C" "tl (appendHex y) @ d # rs"] by (simp add: appendHex_def)
    then show ?thesis using appendHex_scan by auto
  qed
  moreover have "\<exists>e. string_loop (CHR 0x22) c (appendHex x @ d # rs) = string_loop (CHR 0x22) e (d # rs)" for x
    using appendHex_scan by blast
  ultimately show ?thesis by (auto simp: escaped_def)
qed

lemma escaped_nonempty: "escaped cp \<noteq> []"
  by (simp add: escaped_def appendHex_def)

lemma quoted_scan:
  assumes "\<forall>cp \<in> set cps. scalar cp"
  shows "string_loop (CHR 0x22) c (concat (map escaped cps) @ CHR 0x22 # rs) = (CHR 0x22, rs)"
  using assms
proof (induction cps arbitrary: c)
  case Nil
  then show ?case by (cases rs) simp_all
next
  case (Cons cp cps)
  obtain d ds where d: "concat (map escaped cps) @ CHR 0x22 # rs = d # ds" by (metis append_is_Nil_conv list.exhaust list.simps(3))
  obtain e where "string_loop (CHR 0x22) c (escaped cp @ d # ds) = string_loop (CHR 0x22) e (d # ds)"
    using escaped_scan [of cp c d ds] Cons.prems by auto
  then show ?case using Cons.IH [of e] Cons.prems by (simp add: d)
qed

lemma escape_sequence:
  assumes "x < 0x10000"
  shows "decodeUnicodeEscapeSequence t tail (toHex16Bit x @ cur) s = (Some x, cur, s)"
proof -
  have "length (toHex16Bit x) = 4" by (simp add: toHex16Bit_eq)
  then show ?thesis using hex_loop_toHex [OF assms, of cur] by (simp add: decodeUnicodeEscapeSequence_def)
qed

lemma decode_hex:
  assumes "x < 0xD800 \<or> 0xDBFF < x" and "x < 0x10000"
  shows "decode_chars t tail d (appendHex x @ cur) s = decode_chars t tail (d @ codePointToUTF8 x) cur s"
  using escape_sequence [OF assms(2), of t tail cur s] assms(1)
  by (auto simp: appendHex_def decodeUnicodeCodePoint_def)

lemma surrogate_mod: "h < 1024 \<Longrightarrow> (0xd800 + h) mod 1024 = h" "l < 1024 \<Longrightarrow> (0xdc00 + l) mod 1024 = l" for h l :: nat
proof -
  have "(0xd800 + h) mod 1024 = h mod 1024" "(0xdc00 + l) mod 1024 = l mod 1024"
    using mod_mult_self2 [of h 1024 54] mod_mult_self2 [of l 1024 55] by (simp_all add: add.commute)
  then show "h < 1024 \<Longrightarrow> (0xd800 + h) mod 1024 = h" "l < 1024 \<Longrightarrow> (0xdc00 + l) mod 1024 = l" by simp_all
qed

lemma code_point_pair:
  assumes "h < 1024" and "l < 1024"
  shows "decodeUnicodeCodePoint t tail (toHex16Bit (0xd800 + h) @ CHR 0x5C # CHR ''u'' # toHex16Bit (0xdc00 + l) @ cur) s =
    (Some (65536 + h * 1024 + l), cur, s)"
proof -
  have "length (toHex16Bit (0xdc00 + l)) = 4" by (simp add: toHex16Bit_eq)
  moreover have "push_bit 10 h = h * 1024" by (simp add: push_bit_eq_mult)
  ultimately show ?thesis
    using assms escape_sequence [of "0xd800 + h" t tail "CHR 0x5C # CHR ''u'' # toHex16Bit (0xdc00 + l) @ cur" s]
      escape_sequence [of "0xdc00 + l" t tail cur s]
    by (simp add: decodeUnicodeCodePoint_def and_low surrogate_mod)
qed

lemma decode_pair:
  assumes "0x10000 \<le> cp" and "cp \<le> 0x10FFFF"
  shows "decode_chars t tail d (appendHex (0xd800 + (cp - 0x10000) div 1024) @ appendHex (0xdc00 + (cp - 0x10000) mod 1024) @ cur) s =
    decode_chars t tail (d @ codePointToUTF8 cp) cur s"
proof -
  have h: "(cp - 0x10000) div 1024 < 1024" "(cp - 0x10000) mod 1024 < 1024"
    using assms by (auto intro!: less_mult_imp_div_less)
  have "65536 + (cp - 0x10000) div 1024 * 1024 + (cp - 0x10000) mod 1024 = cp" using assms(1) by simp
  with code_point_pair [OF h, of t tail cur s] show ?thesis by (simp add: appendHex_def)
qed

lemma decode_plain:
  "cp \<noteq> 0x22 \<Longrightarrow> cp \<noteq> 0x5C \<Longrightarrow> cp < 0x80 \<Longrightarrow>
    decode_chars t tail d (char_of cp # cur) s = decode_chars t tail (d @ [char_of cp]) cur s" for cp :: nat
  by (simp add: char_of_iff)

lemma char_literals: "char_of (0x22 :: nat) = CHR 0x22" "char_of (0x5C :: nat) = CHR 0x5C" "char_of (0x08 :: nat) = CHR 0x08"
  "char_of (0x0C :: nat) = CHR 0x0C" "char_of (0x0A :: nat) = CHR 0x0A" "char_of (0x0D :: nat) = CHR 0x0D" "char_of (0x09 :: nat) = CHR 0x09"
  by (simp_all add: char_of_iff)

lemma decode_escaped:
  assumes "scalar cp"
  shows "decode_chars t tail d (escaped cp @ cur) s = decode_chars t tail (d @ codePointToUTF8 cp) cur s"
proof (cases "cp \<in> {0x22, 0x5C, 0x08, 0x0C, 0x0A, 0x0D, 0x09}")
  case True
  then show ?thesis by (elim insertE) (simp_all add: escaped_def codePointToUTF8_eq simple_escape_def char_literals)
next
  case False
  then consider "cp < 0x20" | "0x20 \<le> cp" "cp < 0x80" | "0x80 \<le> cp" "cp < 0x10000" | "0x10000 \<le> cp" by linarith
  then show ?thesis
  proof cases
    case 1
    then show ?thesis using False decode_hex [of cp t tail d cur s] by (simp add: escaped_def)
  next
    case 2
    then show ?thesis using False decode_plain [of cp t tail d cur s] by (simp add: escaped_def codePointToUTF8_eq)
  next
    case 3
    moreover have "cp < 0xD800 \<or> 0xDBFF < cp" using assms by (auto simp: scalar_def)
    ultimately show ?thesis using decode_hex [of cp t tail d cur s] by (simp add: escaped_def)
  next
    case 4
    moreover have "cp \<le> 0x10FFFF" using assms 4 by (auto simp: scalar_def)
    ultimately show ?thesis using decode_pair [of cp t tail d cur s] by (simp add: escaped_def)
  qed
qed

lemma decode_quoted:
  "\<forall>cp \<in> set cps. scalar cp \<Longrightarrow> decode_chars t tail d (concat (map escaped cps)) s = (Some (d @ utf8 cps), s)"
  by (induction cps arbitrary: d) (simp_all add: utf8_def decode_escaped)


lemma quoted_utf8:
  assumes "\<forall>cp \<in> set cps. scalar cp"
  shows "valueToQuotedStringN False (utf8 cps) = CHR 0x22 # concat (map escaped cps) @ [CHR 0x22]"
proof (cases "doesAnyCharRequireEscaping (utf8 cps)")
  case True
  then show ?thesis using escape_loop_utf8 [OF assms] by (simp add: valueToQuotedStringN_def)
next
  case False
  have "escaped cp = codePointToUTF8 cp" if "cp \<in> set cps" for cp
  proof -
    have sc: "scalar cp" using assms that by blast
    from lead_byte [OF sc] obtain c bs where u: "codePointToUTF8 cp = c # bs" "if cp < 0x80 then c = char_of cp else 0x80 \<le> byte c" .
    have "c \<in> set (utf8 cps)" using that u(1) by (force simp: utf8_def)
    then have c: "c \<noteq> CHR 0x5C" "c \<noteq> CHR 0x22" "\<not> byte c < 0x20" "\<not> 0x7F < byte c"
      using False by (auto simp: doesAnyCharRequireEscaping_def list_ex_iff)
    then have cp: "cp < 0x80" "c = char_of cp" using u(2) by (auto split: if_splits)
    then have "cp = byte c" by simp
    then have "cp \<noteq> 0x5C" "cp \<noteq> 0x22" "\<not> cp < 0x20" using c cp by (auto simp: char_literals)
    then show ?thesis using cp by (simp add: escaped_def codePointToUTF8_eq)
  qed
  then have "concat (map escaped cps) = utf8 cps" unfolding utf8_def by (intro arg_cong [of _ _ concat] map_cong) auto
  moreover have "CHR 0x00 \<notin> set (utf8 cps)"
  proof
    assume "CHR 0x00 \<in> set (utf8 cps)"
    then have "\<not> byte (CHR 0x00) < 0x20" using False unfolding doesAnyCharRequireEscaping_def list_ex_iff by blast
    then show False by simp
  qed
  ultimately show ?thesis using False by (simp add: valueToQuotedStringN_def c_str_id)
qed

text \<open>Reading a token whose first character is known.\<close>

lemma readToken_first:
  assumes "rd_current s = c # rs" and "\<not> blank c"
  shows "readToken f s = (let (ty, ok, s') = token_switch f c (s\<lparr>rd_current := rs\<rparr>)
    in (ok, \<lparr>tk_type = (if ok then ty else tokenError), tk_start = c # rs, tk_end = rd_current s'\<rparr>, s'))"
proof -
  have "skipSpaces s = s" using assms by (simp add: skipSpaces_def)
  moreover have "getNextChar s = (c, s\<lparr>rd_current := rs\<rparr>)" using assms by (simp add: getNextChar_def)
  ultimately show ?thesis using assms(1) by (simp add: readToken_def Let_def)
qed

lemma token_switch_simps:
  "token_switch f (CHR ''{'') s = (tokenObjectBegin, True, s)" "token_switch f (CHR ''}'') s = (tokenObjectEnd, True, s)"
  "token_switch f (CHR ''['') s = (tokenArrayBegin, True, s)" "token_switch f (CHR '']'') s = (tokenArrayEnd, True, s)"
  "token_switch f (CHR 0x22) s = (tokenString, readString s)" "token_switch f (CHR '','') s = (tokenArraySeparator, True, s)"
  "token_switch f (CHR '':'') s = (tokenMemberSeparator, True, s)" "token_switch f (CHR ''t'') s = (tokenTrue, match ''rue'' s)"
  "token_switch f (CHR ''f'') s = (tokenFalse, match ''alse'' s)" "token_switch f (CHR ''n'') s = (tokenNull, match ''ull'' s)"
  by (simp_all add: token_switch_def isdigit_iff)

lemma blank_simps:
  "\<not> blank (CHR ''{'')" "\<not> blank (CHR ''}'')" "\<not> blank (CHR ''['')" "\<not> blank (CHR '']'')" "\<not> blank (CHR 0x22)"
  "\<not> blank (CHR '','')" "\<not> blank (CHR '':'')" "\<not> blank (CHR ''t'')" "\<not> blank (CHR ''f'')" "\<not> blank (CHR ''n'')" "\<not> blank (CHR ''-'')"
  by (simp_all add: blank_def)

text \<open>Reading a quoted string: the token, and the string it stands for.\<close>

lemma readToken_quoted:
  assumes "\<forall>cp \<in> set cps. scalar cp" and "rd_current s = valueToQuotedStringN False (utf8 cps) @ rest"
  shows "readToken f s = (True, \<lparr>tk_type = tokenString, tk_start = rd_current s, tk_end = rest\<rparr>, s\<lparr>rd_current := rest\<rparr>)"
proof -
  have c: "rd_current s = CHR 0x22 # concat (map escaped cps) @ CHR 0x22 # rest"
    using assms by (simp add: quoted_utf8)
  have "readString (s\<lparr>rd_current := concat (map escaped cps) @ CHR 0x22 # rest\<rparr>) = (True, s\<lparr>rd_current := rest\<rparr>)"
    using quoted_scan [OF assms(1), of "CHR 0x00" rest] by (simp add: readString_def readString_until_def)
  then show ?thesis by (simp add: readToken_first [OF c] blank_simps token_switch_simps c)
qed

lemma decodeString_quoted:
  assumes "\<forall>cp \<in> set cps. scalar cp" and "tk_start t = valueToQuotedStringN False (utf8 cps) @ tk_end t"
  shows "decodeString t s = (Some (utf8 cps), s)"
proof -
  have "token_text t = CHR 0x22 # concat (map escaped cps) @ [CHR 0x22]"
    using assms(2) by (simp add: token_text_def quoted_utf8 [OF assms(1)])
  then show ?thesis using decode_quoted [OF assms(1), of t _ "[]"] by (simp add: decodeString_def Let_def butlast_append)
qed

section \<open>Properties\<close>

text \<open>
  A string of Unicode scalar values survives the writer and the reader.  Whatever follows it in
  the document, the reader takes exactly the quoted text the writer has printed as one string token
  and decodes it to the same UTF-8 bytes, surrogate pairs, control characters and quotes included.
\<close>

lemma quoted_string_roundtrip:
  assumes "\<forall>cp \<in> set cps. scalar cp" and "rd_current s = valueToQuotedStringN False (utf8 cps) @ rest"
  shows "\<exists>t s'. readToken f s = (True, t, s') \<and> tk_type t = tokenString \<and> rd_current s' = rest \<and>
           decodeString t s' = (Some (utf8 cps), s')"
  using readToken_quoted [OF assms, of f] decodeString_quoted [OF assms(1)] assms(2) by simp

end
