(* ===== verification/Reader_Total.thy ===== *)
theory Reader_Total
  imports Json_Reader
begin

text \<open>
  The JSON reader comes back on every document, whatever its settings: it reports success exactly when
  it has recorded no error, and the value it delivers is well formed.
\<close>

declare comment_tokens.simps [simp del] recover_loop.simps [simp del] line_loop.simps [simp del]

section \<open>Every call ends\<close>

text \<open>
  \<open>advanced s s'\<close>: the reader has moved on from \<open>s\<close> to \<open>s'\<close> and kept the errors recorded so far.
\<close>

definition advanced :: "OurReader \<Rightarrow> OurReader \<Rightarrow> bool" where
  "advanced s s' \<longleftrightarrow> rd_begin s' = rd_begin s \<and> length (rd_errors s) \<le> length (rd_errors s') \<and>
     take (length (rd_errors s)) (rd_errors s') = rd_errors s \<and> length (rd_current s') \<le> length (rd_current s)"

lemma advanced_refl [simp]: "advanced s s"
  by (simp add: advanced_def)

lemma advanced_trans: "advanced s t \<Longrightarrow> advanced t u \<Longrightarrow> advanced s u"
  unfolding advanced_def by (metis le_trans min.absorb1 take_take)

lemma taken_advanced: "taken s s' \<Longrightarrow> advanced s s'"
  by (simp add: taken_def advanced_def)

text \<open>\<open>failed s s'\<close>: in addition an error has been recorded.\<close>

definition failed :: "OurReader \<Rightarrow> OurReader \<Rightarrow> bool" where
  "failed s s' \<longleftrightarrow> advanced s s' \<and> rd_errors s' \<noteq> rd_errors s"

lemma failed_longer: "failed s s' \<longleftrightarrow> advanced s s' \<and> length (rd_errors s) < length (rd_errors s')"
  by (auto simp: failed_def advanced_def) (metis le_neq_implies_less order_refl take_all)

lemma failed_after: "advanced s t \<Longrightarrow> failed t u \<Longrightarrow> failed s u" "failed s t \<Longrightarrow> advanced t u \<Longrightarrow> failed s u"
  by (auto simp: failed_longer intro: advanced_trans) (auto simp: advanced_def)

lemma addError_failed: "failed s (addError m t e s)"
  by (simp add: failed_def advanced_def addError_def)

text \<open>A token read at \<open>s\<close>, possibly behind comments.\<close>

definition token_at :: "OurReader \<Rightarrow> bool \<times> Token \<times> OurReader \<Rightarrow> bool" where
  "token_at s = (\<lambda>(ok, t, s'). taken s s' \<and> (tk_type t \<noteq> tokenEndOfStream \<longrightarrow> length (rd_current s') < length (rd_current s)) \<and>
     (tk_type t = tokenError \<longleftrightarrow> \<not> ok) \<and> length (tk_start t) \<le> length (rd_current s))"

lemma readToken_at: "token_at s (readToken f s)"
  by (cases "readToken f s") (use readToken_taken [of f s] in \<open>simp add: token_at_def\<close>)

lemma token_at_later: "taken s t \<Longrightarrow> token_at t x \<Longrightarrow> token_at s x"
  by (auto simp: token_at_def taken_def)

lemma comment_tokens_at: "token_at s x \<Longrightarrow> token_at s (comment_tokens f x)"
proof (induction f x rule: comment_tokens.induct)
  case (1 f ok t s')
  show ?case
  proof (cases "tk_type t = tokenComment \<and> ok")
    case True
    then have "taken s s'" using 1(2) by (simp add: token_at_def)
    then have "token_at s (readToken f s')" using token_at_later readToken_at by blast
    then show ?thesis using 1(1) [OF True] True by (subst comment_tokens.simps) simp
  next
    case False
    then show ?thesis using 1(2) by (subst comment_tokens.simps) auto
  qed
qed

lemma comment_tokens_taken: "taken s (snd (snd (comment_tokens f (ok, t, s))))"
proof (induction f "(ok, t, s)" arbitrary: ok t s rule: comment_tokens.induct)
  case (1 f ok t s)
  obtain b u s1 where r: "readToken f s = (b, u, s1)" by (metis prod.exhaust)
  show ?case
  proof (cases "tk_type t = tokenComment \<and> ok")
    case True
    then show ?thesis using 1 [OF True r] taken_trans [OF readToken_taken(1) [OF r]] r
      by (subst comment_tokens.simps) simp
  next
    case False
    then show ?thesis by (subst comment_tokens.simps) (auto simp: taken_refl)
  qed
qed

lemma skipCommentTokens_at:
  "\<exists>ok. token_at s (ok, skipCommentTokens f s)"
proof (cases "allowComments f")
  case True
  then show ?thesis using comment_tokens_at [OF readToken_at [of s f], of f]
    by (cases "comment_tokens f (readToken f s)") (auto simp: skipCommentTokens_def)
next
  case False
  then show ?thesis using readToken_at [of s f] by (cases "readToken f s") (auto simp: skipCommentTokens_def)
qed

lemma recover_loop_taken:
  "n = length (rd_errors s) \<Longrightarrow> taken s (recover_loop f u n s)"
proof (induction f u n s rule: recover_loop.induct)
  case (1 f u n s)
  obtain ok t s1 where r: "readToken f s = (ok, t, s1)" by (metis prod.exhaust)
  have t1: "taken s s1" using readToken_taken(1) [OF r] .
  define s2 where "s2 = (if \<not> ok then s1\<lparr>rd_errors := take n (rd_errors s1)\<rparr> else s1)"
  have t2: "s2 = s1" using t1 1(2) by (simp add: s2_def taken_def)
  show ?case
  proof (cases "tk_type t = u \<or> tk_type t = tokenEndOfStream")
    case True
    then show ?thesis using t1 t2 r by (subst recover_loop.simps) (auto simp: Let_def s2_def)
  next
    case False
    have "taken s2 (recover_loop f u n s2)"
      using 1(1) [OF r [symmetric] refl refl s2_def False] 1(2) t1 t2 by (simp add: taken_def)
    then show ?thesis using False r t1 t2 taken_trans
      by (subst recover_loop.simps) (auto simp: s2_def)
  qed
qed

lemma recoverFromError_taken: "taken s (recoverFromError f u s)"
  using recover_loop_taken [OF refl, of s f u] by (simp add: recoverFromError_def Let_def taken_def)

lemma addErrorAndRecover_failed: "failed s (addErrorAndRecover f m t u s)"
  unfolding addErrorAndRecover_def
  by (rule failed_after(2) [OF addError_failed taken_advanced [OF recoverFromError_taken]])

lemma decodeNumber_state:
  "decodeNumber fr t s = (r, s') \<Longrightarrow> (case r of None \<Rightarrow> failed s s' | Some v \<Rightarrow> s' = s \<and> jv_ok v)"
  by (auto simp: decodeNumber_def decodeDouble_def addError_failed Let_def split: option.splits)

lemma decodeUnicodeEscapeSequence_state:
  "decodeUnicodeEscapeSequence t tail cur s = (r, cur', s') \<Longrightarrow> (case r of None \<Rightarrow> failed s s' | Some v \<Rightarrow> s' = s)"
  by (auto simp: decodeUnicodeEscapeSequence_def addError_failed split: option.splits if_splits prod.splits)

lemma decodeUnicodeCodePoint_state:
  assumes "decodeUnicodeCodePoint t tail cur s = (r, cur', s')"
  shows "case r of None \<Rightarrow> failed s s' | Some v \<Rightarrow> s' = s"
proof -
  obtain v c1 s1 where 1: "decodeUnicodeEscapeSequence t tail cur s = (v, c1, s1)" by (metis prod.exhaust)
  show ?thesis
  proof (cases v)
    case None
    then show ?thesis
      using assms decodeUnicodeEscapeSequence_state [OF 1] by (simp add: decodeUnicodeCodePoint_def 1)
  next
    case (Some u)
    then have s1: "s1 = s" using decodeUnicodeEscapeSequence_state [OF 1] by simp
    obtain w c2 s2 where 2: "decodeUnicodeEscapeSequence t tail (drop 2 c1) s = (w, c2, s2)" by (metis prod.exhaust)
    show ?thesis
      using assms Some decodeUnicodeEscapeSequence_state [OF 2]
      by (auto simp: decodeUnicodeCodePoint_def 1 2 s1 Let_def addError_failed split: option.splits if_splits)
  qed
qed

lemma decode_chars_state:
  "decode_chars t tail d cur s = (r, s') \<Longrightarrow> (case r of None \<Rightarrow> failed s s' | Some v \<Rightarrow> s' = s)"
proof (induction t tail d cur s arbitrary: r s' rule: decode_chars.induct)
  case (2 t tail d c cur s)
  show ?case
  proof (cases "c = CHR 0x22")
    case True
    then show ?thesis using 2(4) by auto
  next
    case nq: False
    show ?thesis
    proof (cases "c = CHR 0x5C")
      case False
      then show ?thesis using 2(3) nq 2(4) by simp
    next
      case esc: True
      show ?thesis
      proof (cases cur)
        case Nil
        then show ?thesis using 2(4) esc nq by (auto simp: addError_failed)
      next
        case (Cons e cur1)
        obtain u cur2 s1 where u: "decodeUnicodeCodePoint t tail cur1 s = (u, cur2, s1)" by (metis prod.exhaust)
        show ?thesis
        proof (cases "e = CHR ''u''")
          case True
          show ?thesis
          proof (cases u)
            case None
            then show ?thesis
              using 2(4) esc nq Cons True u decodeUnicodeCodePoint_state [OF u] by auto
          next
            case (Some x)
            then have "s1 = s" using decodeUnicodeCodePoint_state [OF u] by simp
            with 2(1) [OF nq esc Cons True u [symmetric] Some refl] 2(4) show ?thesis
              using esc nq Cons True u Some by auto
          qed
        next
          case False
          then show ?thesis
            using 2(2) [OF nq esc Cons False] 2(4) esc nq Cons by (cases "simple_escape e") (auto simp: addError_failed)
        qed
      qed
    qed
  qed
qed auto


text \<open>What every call delivers: the verdict agrees with the recorded errors, and the value stays well formed.\<close>

definition delivers :: "OurReader \<Rightarrow> 'd jvalue \<Rightarrow> 'd read_result \<Rightarrow> bool" where
  "delivers s v = (\<lambda>(b, v', s'). advanced s s' \<and> (b = Inr True \<longrightarrow> rd_errors s' = rd_errors s) \<and>
     (b = Inr False \<longrightarrow> failed s s') \<and> (jv_ok v \<longrightarrow> jv_ok v'))"

fun fuel_for :: "'d read_call \<Rightarrow> nat \<Rightarrow> nat" where
  "fuel_for (ReadValue nodes v) l = 2 * l + 2"
| "fuel_for (ReadMember nodes name v) l = 2 * l + 1"
| "fuel_for (ReadElement nodes index v) l = 2 * l + 3"

fun call_value :: "'d read_call \<Rightarrow> 'd jvalue" where
  "call_value (ReadValue nodes v) = v"
| "call_value (ReadMember nodes name v) = v"
| "call_value (ReadElement nodes index v) = v"

definition served :: "nat \<Rightarrow> 'd caller \<Rightarrow> bool" where
  "served n call \<longleftrightarrow> (\<forall>c s. fuel_for c (length (rd_current s)) \<le> n \<longrightarrow>
     (\<exists>r. call c s = Some r \<and> delivers s (call_value c) r))"

lemma servedD:
  assumes "served n call" and "fuel_for c (length (rd_current s)) \<le> n"
  obtains b v' s' where "call c s = Some (b, v', s')" "delivers s (call_value c) (b, v', s')"
  using assms unfolding served_def by (metis prod.exhaust)

lemma delivers_later: "advanced s t \<Longrightarrow> rd_errors t = rd_errors s \<Longrightarrow> delivers t v r \<Longrightarrow> delivers s v r"
  by (auto simp: delivers_def intro: advanced_trans failed_after)

lemma delivers_fail: "failed s t \<Longrightarrow> (jv_ok v \<Longrightarrow> jv_ok v') \<Longrightarrow> delivers s v (Inr False, v', t)"
  by (simp add: delivers_def failed_def)

lemma delivers_ok: "taken s t \<Longrightarrow> (jv_ok v \<Longrightarrow> jv_ok v') \<Longrightarrow> delivers s v (Inr True, v', t)"
  using taken_advanced [of s t] by (simp add: delivers_def taken_def)

lemma delivers_throw: "advanced s t \<Longrightarrow> (jv_ok v \<Longrightarrow> jv_ok v') \<Longrightarrow> delivers s v (Inl e, v', t)"
  by (simp add: delivers_def)

lemma decodeString_state:
  "decodeString t s = (r, s') \<Longrightarrow> (case r of None \<Rightarrow> failed s s' | Some v \<Rightarrow> s' = s)"
  unfolding decodeString_def Let_def by (rule decode_chars_state)

lemma member_ok: "jv_ok v \<Longrightarrow> jv_ok (member_or_null name v)"
  by (cases v) (auto simp: member_or_null_def at_key_def find_val_def list_all_iff split: option.splits dest: find_member_in)

lemma push_ok: "jv_ok v \<Longrightarrow> jv_ok x \<Longrightarrow> jv_ok (push_element v x)"
  by (auto simp: push_element_def append_val_def split: jvalue.splits)

lemma if_delivers:
  "(b \<Longrightarrow> \<exists>r. x = Some r \<and> delivers s v r) \<Longrightarrow> (\<not> b \<Longrightarrow> \<exists>r. y = Some r \<and> delivers s v r) \<Longrightarrow>
   \<exists>r. (if b then x else y) = Some r \<and> delivers s v r"
  by simp

lemma some_delivers: "delivers s v r \<Longrightarrow> \<exists>r'. Some r = Some r' \<and> delivers s v r'"
  by simp

lemma readValue_delivers:
  assumes served: "served n call" and fuel: "2 * length (rd_current s) + 2 \<le> Suc n"
  shows "\<exists>r. readValue fr f call nodes v s = Some r \<and> delivers s v r"
proof (cases "stackLimit f < nodes")
  case True
  then show ?thesis by (simp add: readValue_def delivers_def)
next
  case False
  obtain t s1 where t: "skipCommentTokens f s = (t, s1)" by fastforce
  from skipCommentTokens_at [of s f] t have at: "taken s s1" "tk_type t \<noteq> tokenEndOfStream \<Longrightarrow> length (rd_current s1) < length (rd_current s)"
    "length (tk_start t) \<le> length (rd_current s)" by (auto simp: token_at_def)
  have adv: "advanced s s1" "rd_errors s1 = rd_errors s" using at(1) taken_advanced by (auto simp: taken_def)
  note body = readValue_def [of fr f call nodes v s, unfolded t Let_def prod.case]
  show ?thesis
  proof (cases "tk_type t \<in> {tokenObjectBegin, tokenArrayBegin, tokenNumber, tokenString}")
    case True
    consider "tk_type t = tokenObjectBegin" | "tk_type t = tokenArrayBegin" | "tk_type t = tokenNumber" | "tk_type t = tokenString"
      using True by blast
    then show ?thesis
    proof cases
      case 1
      then have "fuel_for (ReadMember nodes [] (ObjectValue [])) (length (rd_current s1)) \<le> n" using at(2) fuel by simp
      from servedD [OF served this] obtain b v' s' where
        r: "call (ReadMember nodes [] (ObjectValue [])) s1 = Some (b, v', s')" "delivers s1 (ObjectValue [] :: 'a jvalue) (b, v', s')" by auto
      then have "delivers s v (b, v', s')" using delivers_later [OF adv r(2)] by (simp add: delivers_def)
      then show ?thesis using 1 r(1) False by (simp add: body)
    next
      case 2
      then have "fuel_for (ReadElement nodes 0 (ArrayValue [])) (length (rd_current s1)) \<le> n" using at(2) fuel by simp
      from servedD [OF served this] obtain b v' s' where
        r: "call (ReadElement nodes 0 (ArrayValue [])) s1 = Some (b, v', s')" "delivers s1 (ArrayValue [] :: 'a jvalue) (b, v', s')" by auto
      then have "delivers s v (b, v', s')" using delivers_later [OF adv r(2)] by (simp add: delivers_def)
      then show ?thesis using 2 r(1) False by (simp add: body)
    next
      case 3
      obtain r s' where r: "decodeNumber fr t s1 = (r, s')" by fastforce
      show ?thesis
      proof (cases r)
        case None
        then have "delivers s v (Inr False, v, s')"
          using failed_after(1) [OF adv(1)] decodeNumber_state [OF r] by (simp add: delivers_fail)
        then show ?thesis using None 3 False r by (simp add: body)
      next
        case (Some x)
        then show ?thesis using decodeNumber_state [OF r] 3 False r delivers_ok [OF at(1), of v x] by (simp add: body)
      qed
    next
      case 4
      obtain r s' where r: "decodeString t s1 = (r, s')" by fastforce
      show ?thesis
      proof (cases r)
        case None
        then have "delivers s v (Inr False, v, s')"
          using failed_after(1) [OF adv(1)] decodeString_state [OF r] by (simp add: delivers_fail)
        then show ?thesis using None 4 False r by (simp add: body)
      next
        case (Some x)
        then show ?thesis using decodeString_state [OF r] 4 False r delivers_ok [OF at(1), of v "StringValue x"] by (simp add: body)
      qed
    qed
  next
    case other: False
    have "delivers s v (Inr True, x, s1)" if "jv_ok x" for x using that at(1) by (intro delivers_ok)
    moreover have "delivers s v (Inr True, NullValue, s1\<lparr>rd_current := tk_start t\<rparr>)"
      using at(1,3) by (intro delivers_ok) (simp_all add: taken_def)
    moreover have "delivers s v (Inr False, v, addError m t None s1)" for m
      using failed_after(1) [OF adv(1) addError_failed] by (simp add: delivers_fail)
    ultimately show ?thesis using other False
      unfolding body by (intro if_delivers some_delivers) simp_all
  qed
qed


lemma readToken_moves:
  assumes "readToken f s = (ok, t, s') \<or> comment_tokens f (readToken f s) = (ok, t, s')"
  shows "taken s s'" "advanced s s'" "rd_errors s' = rd_errors s"
    and "tk_type t \<noteq> tokenEndOfStream \<Longrightarrow> length (rd_current s') < length (rd_current s)"
proof -
  have "token_at s (ok, t, s')"
    using assms readToken_at [of s f] comment_tokens_at [OF readToken_at [of s f], of f] by auto
  then show "taken s s'" "advanced s s'" "rd_errors s' = rd_errors s"
    "tk_type t \<noteq> tokenEndOfStream \<Longrightarrow> length (rd_current s') < length (rd_current s)"
    using taken_advanced [of s s'] by (auto simp: token_at_def taken_def)
qed

lemma readMemberEnd_delivers:
  assumes served: "served n call" and fuel: "2 * length (rd_current s) \<le> n"
  shows "\<exists>r. readMemberEnd f call nodes name v s = Some r \<and> delivers s v r"
proof -
  obtain ok t s1 where t: "readToken f s = (ok, t, s1)" by (metis prod.exhaust)
  obtain ok' t' s2 where t': "comment_tokens f (ok, t, s1) = (ok', t', s2)" by (metis prod.exhaust)
  note m = readToken_moves [of f s, OF disjI1, OF t]
  have m': "taken s s2" "advanced s s2" "rd_errors s2 = rd_errors s" "length (rd_current s2) \<le> length (rd_current s)"
    "tk_type t' \<noteq> tokenEndOfStream \<Longrightarrow> length (rd_current s2) < length (rd_current s)"
    using readToken_moves [of f s ok' t' s2] t t' by (auto simp: taken_def)
  note body = readMemberEnd_def [of f call nodes name v s, unfolded t Let_def prod.case t']
  show ?thesis unfolding body
  proof (intro if_delivers)
    show "\<exists>r. Some (Inr False, v, addErrorAndRecover f x t tokenObjectEnd s1) = Some r \<and> delivers s v r" for x
      using failed_after(1) [OF m(2) addErrorAndRecover_failed] by (simp add: delivers_fail)
    show "\<exists>r. Some (Inr True, v, s2) = Some r \<and> delivers s v r"
      using m'(1) by (simp add: delivers_ok)
    assume "\<not> (\<not> ok \<or> tk_type t \<noteq> tokenObjectEnd \<and> tk_type t \<noteq> tokenArraySeparator \<and> tk_type t \<noteq> tokenComment)"
    then have "length (rd_current s1) < length (rd_current s)" "length (rd_current s2) \<le> length (rd_current s1)"
      using m(4) comment_tokens_taken [of s1 f ok t] t' by (auto simp: taken_def)
    then have "fuel_for (ReadMember nodes name v) (length (rd_current s2)) \<le> n" using fuel by simp
    from servedD [OF served this] show "\<exists>r. call (ReadMember nodes name v) s2 = Some r \<and> delivers s v r"
      using delivers_later [OF m'(2,3)] by (metis call_value.simps(2))
  qed
qed

lemma name_decoded: "map_sum (\<lambda>e. e) Name x \<noteq> Inr Undecoded"
  by (cases x) auto

lemma readMemberName_state:
  "readMemberName ops fr f t s = (r, s') \<Longrightarrow> (if r = Inr Undecoded then failed s s' else s' = s)"
  using decodeString_state [of t s] decodeNumber_state [of fr t s]
  by (cases "decodeNumber fr t s"; cases "decodeString t s")
    (auto simp: readMemberName_def name_decoded split: option.splits if_splits)

lemma member_read:
  assumes served: "served n call" and a: "advanced s s3" "rd_errors s3 = rd_errors s"
    and d: "delivers s3 (member_or_null name v) (b, x, s4)" and fuel: "2 * length (rd_current s4) \<le> n"
  shows "\<exists>r. (if b = Inr True then readMemberEnd f call nodes name (snd (set_key name x v)) s4
                else if b = Inr False then Some (b, snd (set_key name x v), recoverFromError f tokenObjectEnd s4)
                else Some (b, snd (set_key name x v), s4)) = Some r \<and> delivers s v r"
proof (intro if_delivers)
  have ok: "jv_ok v \<Longrightarrow> jv_ok (snd (set_key name x v))" using d member_ok by (auto simp: delivers_def)
  have a4: "advanced s s4" using d advanced_trans [OF a(1)] by (simp add: delivers_def)
  show "\<exists>r. readMemberEnd f call nodes name (snd (set_key name x v)) s4 = Some r \<and> delivers s v r" if "b = Inr True"
  proof -
    have "rd_errors s4 = rd_errors s" using d a(2) that by (simp add: delivers_def)
    then show ?thesis using readMemberEnd_delivers [OF served fuel, of f nodes name "snd (set_key name x v)"] delivers_later [OF a4] ok
      by (fastforce simp: delivers_def)
  qed
  show "\<exists>r. Some (b, snd (set_key name x v), recoverFromError f tokenObjectEnd s4) = Some r \<and> delivers s v r" if "b = Inr False"
  proof -
    have "failed s s4" using d that failed_after(1) [OF a(1)] by (simp add: delivers_def)
    then have "failed s (recoverFromError f tokenObjectEnd s4)"
      using failed_after(2) taken_advanced [OF recoverFromError_taken] by blast
    then show ?thesis using that ok by (simp add: delivers_fail)
  qed
  show "\<exists>r. Some (b, snd (set_key name x v), s4) = Some r \<and> delivers s v r" if "b \<noteq> Inr True" "b \<noteq> Inr False"
    using that a4 ok by (simp add: delivers_def)
qed

lemma readObject_delivers:
  assumes served: "served n call" and fuel: "2 * length (rd_current s) + 1 \<le> Suc n"
  shows "\<exists>r. readObject ops fr f call nodes name v s = Some r \<and> delivers s v r"
proof -
  obtain ok t s1 where t: "comment_tokens f (readToken f s) = (ok, t, s1)" by (metis prod.exhaust)
  note m = readToken_moves [of f s, OF disjI2, OF t]
  obtain nm s2 where nm: "readMemberName ops fr f t s1 = (nm, s2)" by fastforce
  obtain ok2 t2 s3 where t2: "readToken f s2 = (ok2, t2, s3)" by (metis prod.exhaust)
  have miss: "delivers s v (Inr False, v, addErrorAndRecover f x t tokenObjectEnd s1)" for x
    using failed_after(1) [OF m(2) addErrorAndRecover_failed] by (simp add: delivers_fail)
  note body = readObject_def [of ops fr f call nodes name v s, unfolded t Let_def prod.case nm t2]
  show ?thesis unfolding body
  proof (intro if_delivers, goal_cases)
    case 1
    then show ?case using miss by simp
  next
    case 2
    then show ?case using m(1) by (simp add: delivers_ok)
  next
    case 3
    show ?case
    proof (cases nm)
      case (Inl e)
      then show ?thesis using readMemberName_state [OF nm] m(2) by (simp add: delivers_throw)
    next
      case (Inr mn)
      show ?thesis
      proof (cases mn)
        case Undecoded
        then have "failed s (recoverFromError f tokenObjectEnd s2)"
          using readMemberName_state [OF nm] Inr failed_after(1) [OF m(2)] failed_after(2) taken_advanced [OF recoverFromError_taken]
          by metis
        then show ?thesis using Inr Undecoded by (simp add: delivers_fail)
      next
        case NoName
        then show ?thesis using readMemberName_state [OF nm] Inr miss by simp
      next
        case (Name name')
        then have s2: "s2 = s1" using readMemberName_state [OF nm] Inr by simp
        note m2 = readToken_moves [of f s2, OF disjI1, OF t2, unfolded s2]
        have a: "advanced s s3" "rd_errors s3 = rd_errors s" using m m2 advanced_trans [OF m(2)] by auto
        have "\<exists>r. (case call (ReadValue (Suc nodes) (member_or_null name' v)) s3 of None \<Rightarrow> None
            | Some (ok, x, s) \<Rightarrow>
                if ok = Inr True then readMemberEnd f call nodes name' (snd (set_key name' x v)) s
                else if ok = Inr False then Some (ok, snd (set_key name' x v), recoverFromError f tokenObjectEnd s)
                else Some (ok, snd (set_key name' x v), s)) = Some r \<and> delivers s v r"
          if "tk_type t2 = tokenMemberSeparator"
        proof -
          have l: "length (rd_current s3) < length (rd_current s)" using m(1) m2(4) that by (simp add: taken_def)
          then have "fuel_for (ReadValue (Suc nodes) (member_or_null name' v)) (length (rd_current s3)) \<le> n" using fuel by simp
          from servedD [OF served this] obtain b x s4 where
            c: "call (ReadValue (Suc nodes) (member_or_null name' v)) s3 = Some (b, x, s4)" "delivers s3 (member_or_null name' v) (b, x, s4)"
            by auto
          show ?thesis unfolding c(1) option.case prod.case
            by (rule member_read [OF served a c(2)]) (use c(2) l fuel in \<open>simp add: delivers_def advanced_def\<close>)
        qed
        moreover have "delivers s v (Inr False, v, addErrorAndRecover f y t tokenObjectEnd s1)"
          "delivers s v (Inr False, v, addErrorAndRecover f y t2 tokenObjectEnd s3)" "delivers s v (Inl Runtime_error, v, s1)" for y
          using failed_after(1) [OF m(2) addErrorAndRecover_failed] failed_after(1) [OF a(1) addErrorAndRecover_failed] m(2)
          by (simp_all add: delivers_fail delivers_throw)
        ultimately show ?thesis unfolding Inr Name s2
          by (simp only: prod.case sum.case member_name.case) (intro if_delivers some_delivers; simp)
      qed
    qed
  qed
qed


lemma readArray_delivers:
  assumes served: "served n call" and fuel: "2 * length (rd_current s) + 3 \<le> Suc n"
  shows "\<exists>r. readArray f call nodes index v s = Some r \<and> delivers s v r"
proof -
  define s1 where "s1 = skipSpaces s"
  have t1: "taken s s1" by (auto simp: s1_def skipSpaces_def intro!: taken_current length_dropWhile_le)
  then have "fuel_for (ReadValue (Suc nodes) NullValue) (length (rd_current s1)) \<le> n" using fuel by (simp add: taken_def)
  from servedD [OF served this] obtain b x s2 where
    c: "call (ReadValue (Suc nodes) NullValue) s1 = Some (b, x, s2)" "delivers s1 NullValue (b, x, s2)" by auto
  have a1: "advanced s s1" "rd_errors s1 = rd_errors s" using t1 taken_advanced by (auto simp: taken_def)
  have "advanced s1 s2" "jv_ok x" using c(2) by (simp_all add: delivers_def)
  then have a2: "advanced s s2" "jv_ok v \<Longrightarrow> jv_ok (push_element v x)"
    using advanced_trans [OF a1(1)] push_ok by blast+
  then have l2: "length (rd_current s2) \<le> length (rd_current s)" by (simp add: advanced_def)
  obtain ok t s3 where t: "comment_tokens f (readToken f s2) = (ok, t, s3)" by (metis prod.exhaust)
  note m = readToken_moves [of f s2, OF disjI2, OF t]
  have a3: "advanced s s3" using a2(1) m(2) by (rule advanced_trans)
  note body = readArray_def [of f call nodes index v s, folded s1_def, unfolded Let_def c(1) option.case prod.case t]
  show ?thesis unfolding body s1_def [symmetric] Let_def c(1) option.case prod.case t
  proof (intro if_delivers, goal_cases)
    case 1
    have "taken s (snd (snd (readToken f s1)))"
      using readToken_at [of s1 f] taken_trans [OF t1] by (auto simp: token_at_def)
    then show ?case by (simp add: delivers_ok)
  next
    case 2
    then show ?case using failed_after(1) [OF a3 addErrorAndRecover_failed] a2(2) by (simp add: delivers_fail)
  next
    case 3
    then have "rd_errors s3 = rd_errors s" using c(2) a1(2) m(3) by (simp add: delivers_def)
    then show ?case using a3 a2(2) by (simp add: delivers_def)
  next
    case 4
    then have "length (rd_current s3) < length (rd_current s2)" using m(4) by auto
    then have "fuel_for (ReadElement nodes (Suc index) (push_element v x)) (length (rd_current s3)) \<le> n"
      using fuel l2 by simp
    from servedD [OF served this] obtain b' v' s4 where
      d: "call (ReadElement nodes (Suc index) (push_element v x)) s3 = Some (b', v', s4)" "delivers s3 (push_element v x) (b', v', s4)" by auto
    have "rd_errors s3 = rd_errors s" using c(2) a1(2) m(3) 4 by (simp add: delivers_def)
    then have "delivers s v (b', v', s4)" using delivers_later [OF a3 _ d(2)] a2(2) by (simp add: delivers_def)
    then show ?case using d(1) by simp
  next
    case 5
    then have "failed s s2" using c(2) failed_after(1) [OF a1(1)] by (simp add: delivers_def)
    then have "failed s (recoverFromError f tokenArrayEnd s2)"
      using failed_after(2) taken_advanced [OF recoverFromError_taken] by blast
    then show ?case using 5 a2(2) by (simp add: delivers_fail)
  next
    case 6
    then show ?case using a2 by (simp add: delivers_def)
  qed
qed

lemma read_with_served: "served n (read_with ops fr f n)"
proof (induction n)
  case 0
  have "fuel_for c l \<noteq> 0" for c :: "'a read_call" and l by (cases c) auto
  then show ?case by (simp add: served_def)
next
  case (Suc n)
  show ?case unfolding served_def
  proof (intro allI impI)
    fix c :: "'a read_call" and s :: OurReader
    assume "fuel_for c (length (rd_current s)) \<le> Suc n"
    then show "\<exists>r. read_with ops fr f (Suc n) c s = Some r \<and> delivers s (call_value c) r"
      using readValue_delivers [OF Suc, of s] readObject_delivers [OF Suc, of s] readArray_delivers [OF Suc, of s]
      by (cases c) simp_all
  qed
qed

lemma parse_delivers:
  "\<exists>b v s. parse ops fr f doc root = Some (b, v, s) \<and> (b = Inr True \<longrightarrow> rd_errors s = []) \<and>
     (b = Inr False \<longrightarrow> rd_errors s \<noteq> []) \<and> (jv_ok root \<longrightarrow> jv_ok v)"
proof -
  define s0 where "s0 = skip_bom (skipBom f) \<lparr>rd_begin = doc, rd_current = doc, rd_errors = []\<rparr>"
  have s0: "rd_errors s0 = []" "length (rd_current s0) \<le> length doc" by (simp_all add: s0_def skip_bom_def)
  then have "fuel_for (ReadValue 1 root) (length (rd_current s0)) \<le> 2 * length doc + 2" by simp
  from servedD [OF read_with_served this, of ops fr f] obtain b v s where
    r: "read_with ops fr f (2 * length doc + 2) (ReadValue 1 root) s0 = Some (b, v, s)" "delivers s0 root (b, v, s)"
    by auto
  obtain t s1 where t: "skipCommentTokens f s = (t, s1)" by fastforce
  then have e: "rd_errors s1 = rd_errors s" using skipCommentTokens_at [of s f] by (auto simp: token_at_def taken_def)
  have err: "rd_errors (addError m u x s1) \<noteq> []" for m u x by (simp add: addError_def)
  show ?thesis
    unfolding parse_def Let_def s0_def [symmetric] r(1) option.case prod.case
    using r(2) s0(1) e err by (cases b) (auto simp: t delivers_def failed_def)
qed

section \<open>Properties\<close>

text \<open>
  C19: The JSON reader ends on every input.  For every document and every combination of its
  settings, \<^verbatim>\<open>OurReader::parse\<close> comes back, by return or by exception.  It returns true
  exactly when no error has been recorded and false exactly when there are errors to report, and the
  value it leaves behind is well formed (the members of its objects sorted and without duplicates)
  even when the document was rejected.
\<close>

theorem parse_total:
  "\<exists>verdict v s. parse ops fr f doc NullValue = Some (verdict, v, s) \<and> jv_ok v \<and>
     ((\<exists>e. verdict = Inl e) \<or> verdict = Inr (rd_errors s = []))"
proof -
  from parse_delivers [of ops fr f doc NullValue] obtain verdict v s where
    p: "parse ops fr f doc NullValue = Some (verdict, v, s)" "verdict = Inr True \<longrightarrow> rd_errors s = []"
      "verdict = Inr False \<longrightarrow> rd_errors s \<noteq> []" "jv_ok v" by auto
  have "(\<exists>e. verdict = Inl e) \<or> verdict = Inr (rd_errors s = [])"
    using p(2,3) by (cases verdict) (simp, rename_tac b, case_tac b, simp_all)
  then show ?thesis using p(1,4) by blast
qed

end
