(* ===== verification/Json_Roundtrip.thy ===== *)
theory Json_Roundtrip
  imports Json_Strings Reader_Total
begin

text \<open>
  Numbers and whole values through the JSON writer and back through the reader: the exact range of
  the integers the reader keeps, and the round trip of every value the agent can print.
\<close>

section \<open>Numbers\<close>

lemma digits_val_step: "rs \<noteq> [] \<Longrightarrow> n * 10 \<le> digits_val n rs"
proof -
  assume "rs \<noteq> []"
  then obtain c cs' where "rs = c # cs'" by (cases rs) auto
  then show ?thesis using digits_val_mono [of "n * 10 + digit_of c" cs'] by simp
qed

lemma tenfold: "1 \<le> q \<Longrightarrow> r < 10 \<Longrightarrow> q \<le> n \<Longrightarrow> q * 10 + r < (n * 10 + d) * 10" for q r n d :: nat
  by simp

lemma decode_digits_exact:
  assumes M: "10 \<le> M" "M < 2 ^ 64" and T: "unat T = M div 10" and L: "unat L = M mod 10"
    and "list_all isdigit ds" and "unat v \<le> M"
  shows "decode_digits T L v ds =
    (if digits_val (unat v) ds \<le> M then Some (word_of_nat (digits_val (unat v) ds)) else None)"
  using assms(5,6)
proof (induction ds arbitrary: v)
  case (Cons c rs)
  define n d where "n = unat v" and "d = digit_of c"
  have d: "d < 10" using Cons.prems(1) digit_of_less by (simp add: d_def)
  have ud: "unat (word_of_nat d :: u64) = d" using d by (simp add: unat_of_nat)
  have q: "M div 10 * 10 + M mod 10 = M" by simp
  have cond: "(T \<le> v \<and> (T < v \<or> rs \<noteq> [] \<or> L < word_of_nat d)) \<longleftrightarrow> (M div 10 \<le> n \<and> (M div 10 < n \<or> rs \<noteq> [] \<or> M mod 10 < d))"
    by (simp add: word_le_nat_alt word_less_nat_alt T L ud n_def)
  show ?case
  proof (cases "M div 10 \<le> n \<and> (M div 10 < n \<or> rs \<noteq> [] \<or> M mod 10 < d)")
    case True
    have "M < digits_val (n * 10 + d) rs"
    proof (cases "rs = [] \<or> M div 10 < n")
      case True': True
      have "M < n * 10 + d"
      proof (cases "M div 10 < n")
        case True
        moreover have "M mod 10 < 10" by simp
        ultimately show ?thesis using q by linarith
      next
        case False
        then have "M mod 10 < d" using True True' by auto
        then show ?thesis using q True by linarith
      qed
      also have "\<dots> \<le> digits_val (n * 10 + d) rs" by (rule digits_val_mono)
      finally show ?thesis .
    next
      case False
      have "1 \<le> M div 10" using div_le_mono [OF M(1), of 10] by simp
      moreover have "M mod 10 < 10" "M div 10 \<le> n" using True by auto
      ultimately have "M div 10 * 10 + M mod 10 < (n * 10 + d) * 10" by (rule tenfold)
      then have "M < (n * 10 + d) * 10" by simp
      also have "\<dots> \<le> digits_val (n * 10 + d) rs" using False by (intro digits_val_step) simp
      finally show ?thesis .
    qed
    then show ?thesis using True cond Cons.prems(1) by (simp add: Let_def n_def d_def)
  next
    case False
    then have le: "n * 10 + d \<le> M" using q d by linarith
    have u: "unat (v * 10 + word_of_nat d) = n * 10 + d"
    proof -
      have "v * 10 + word_of_nat d = word_of_nat (n * 10 + d)" by (simp add: n_def)
      moreover have "unat (word_of_nat (n * 10 + d) :: u64) = n * 10 + d"
        using le M(2) by (simp only: unat_of_nat) simp
      ultimately show ?thesis by simp
    qed
    show ?thesis using False cond Cons.prems Cons.IH [of "v * 10 + word_of_nat d"] u le
      by (simp add: Let_def n_def d_def)
  qed
qed (simp)

lemma negate_parts: "- (v div 10) * 10 - v mod 10 = - v" for v :: u64
proof -
  have "v div 10 * 10 + v mod 10 = v" by (rule word_mod_div_equality)
  then show ?thesis by (metis (no_types, lifting) minus_add_distrib mult_minus_left uminus_add_conv_diff add.commute)
qed

lemma decodeNumber_digits:
  assumes "token_text t = ds" and "list_all isdigit ds" and "ds \<noteq> []"
  shows "decodeNumber fr t s =
    (if digits_val 0 ds < 2 ^ 63 then (Some (IntValue (word_of_nat (digits_val 0 ds))), s)
     else if digits_val 0 ds < 2 ^ 64 then (Some (UIntValue (word_of_nat (digits_val 0 ds))), s)
     else decodeDouble fr t s)"
proof -
  have nn: "hd ds \<noteq> CHR ''-''" using assms by (cases ds) (auto simp: isdigit_iff)
  have T: "unat ((- 1 :: u64) div 10) = (2 ^ 64 - 1) div 10" "unat ((- 1 :: u64) mod 10) = (2 ^ 64 - 1) mod 10"
    by (simp_all add: unat_div unat_mod)
  have "decode_digits (- 1 div 10) (- 1 mod 10) 0 ds =
    (if digits_val 0 ds < 2 ^ 64 then Some (word_of_nat (digits_val 0 ds)) else None)"
    using decode_digits_exact [OF _ _ T assms(2), of 0] by (auto simp: less_eq_Suc_le)
  moreover have "(word_of_nat n :: u64) \<le> 2 ^ 63 - 1 \<longleftrightarrow> n < 2 ^ 63" if "n < 2 ^ 64" for n
    using that by (auto simp: word_le_nat_alt unat_of_nat)
  ultimately show ?thesis using assms(1) nn by (simp add: decodeNumber_def Let_def)
qed

lemma decodeNumber_minus:
  assumes "token_text t = CHR ''-'' # ds" and "list_all isdigit ds"
  shows "decodeNumber fr t s =
    (if digits_val 0 ds \<le> 2 ^ 63 then (Some (IntValue (- word_of_nat (digits_val 0 ds))), s) else decodeDouble fr t s)"
proof -
  have T: "unat ((2 ^ 63 :: u64) div 10) = 2 ^ 63 div 10" "unat ((2 ^ 63 :: u64) mod 10) = 2 ^ 63 mod 10"
    by (simp_all add: unat_div unat_mod)
  have "decode_digits (2 ^ 63 div 10) (2 ^ 63 mod 10) 0 ds =
    (if digits_val 0 ds \<le> 2 ^ 63 then Some (word_of_nat (digits_val 0 ds)) else None)"
    using decode_digits_exact [OF _ _ T assms(2), of 0] by auto
  then show ?thesis using assms(1) negate_parts by (simp add: decodeNumber_def Let_def)
qed

text \<open>What may follow a number: something that does not continue it.\<close>

definition delimited :: "string \<Rightarrow> bool" where
  "delimited rest \<longleftrightarrow> rest = [] \<or> (\<not> isdigit (hd rest) \<and> hd rest \<notin> {CHR ''.'', CHR ''e'', CHR ''E''})"

lemma scan_number:
  assumes "list_all isdigit ds" and "delimited rest"
  shows "fst (snd (scan_exponent (scan_fraction (scan_digits (ds @ rest))))) = rest"
proof -
  have "scan_digits (ds @ rest) = scan_digits rest" using assms(1) by (induction ds) auto
  moreover have "scan_digits rest = (if rest = [] then (CHR 0x00, [], []) else (hd rest, rest, tl rest))"
    using assms(2) by (cases rest) (auto simp: delimited_def)
  ultimately show ?thesis using assms(2) by (auto simp: scan_fraction_def scan_exponent_def delimited_def)
qed

lemma token_switch_digit:
  assumes "isdigit c"
  shows "token_switch f c s = (tokenNumber, True, snd (readNumber False s))"
proof -
  have "c \<noteq> CHR ''{''" "c \<noteq> CHR ''}''" "c \<noteq> CHR ''[''" "c \<noteq> CHR '']''" "c \<noteq> CHR 0x22" "c \<noteq> CHR 0x27" "c \<noteq> CHR ''/''"
    using assms by (auto simp: isdigit_iff)
  then show ?thesis using assms by (simp add: token_switch_def)
qed

lemma digit_not_blank: "isdigit c \<Longrightarrow> \<not> blank c"
  by (auto simp: blank_def isdigit_iff)

lemma readToken_digits:
  assumes "list_all isdigit ds" and "ds \<noteq> []" and "delimited rest" and "rd_current s = ds @ rest"
  shows "readToken f s = (True, \<lparr>tk_type = tokenNumber, tk_start = ds @ rest, tk_end = rest\<rparr>, s\<lparr>rd_current := rest\<rparr>)"
proof -
  obtain c ds' where ds: "ds = c # ds'" using assms(2) by (cases ds) auto
  then have c: "isdigit c" "list_all isdigit ds'" using assms(1) by auto
  have cur: "rd_current s = c # ds' @ rest" using assms(4) ds by simp
  show ?thesis
    using scan_number [OF c(2) assms(3)]
    by (simp add: readToken_first [OF cur digit_not_blank [OF c(1)]] token_switch_digit [OF c(1)] readNumber_def ds)
qed

lemma readToken_minus:
  assumes "list_all isdigit ds" and "ds \<noteq> []" and "delimited rest" and "rd_current s = CHR ''-'' # ds @ rest"
  shows "readToken f s = (True, \<lparr>tk_type = tokenNumber, tk_start = CHR ''-'' # ds @ rest, tk_end = rest\<rparr>, s\<lparr>rd_current := rest\<rparr>)"
proof -
  have "hd (ds @ rest) \<noteq> CHR ''I''" using assms(1,2) by (cases ds) (auto simp: isdigit_iff)
  moreover have "token_switch f (CHR ''-'') s' = (let (number, s) = readNumber True s' in
         if number then (tokenNumber, True, s)
         else (tokenNegInf, if allowSpecialFloats f then match ''nfinity'' s else (False, s)))" for s'
    by (simp add: token_switch_def isdigit_iff)
  ultimately show ?thesis
    using scan_number [OF assms(1,3)] assms(2)
    by (simp add: readToken_first [OF assms(4)] blank_simps readNumber_def)
qed

section \<open>Values\<close>

text \<open>Strings of Unicode scalar values.\<close>

definition utf8_string :: "string \<Rightarrow> bool" where
  "utf8_string x \<longleftrightarrow> (\<exists>cps. (\<forall>cp \<in> set cps. scalar cp) \<and> x = utf8 cps)"

text \<open>A value without floating-point numbers, with UTF-8 strings and with keys of a length the reader accepts.\<close>

fun readable :: "'d jvalue \<Rightarrow> bool" where
  "readable (RealValue x) = False"
| "readable (StringValue x) = utf8_string x"
| "readable (ArrayValue xs) = (\<forall>x \<in> set xs. readable x)"
| "readable (ObjectValue ms) = (\<forall>(k, x) \<in> set ms. utf8_string k \<and> length k < 2 ^ 30 \<and> readable x)"
| "readable _ = True"

text \<open>Arrays and objects nested at most \<open>k\<close> levels deep.\<close>

fun fits :: "nat \<Rightarrow> 'd jvalue \<Rightarrow> bool" where
  "fits k (ArrayValue xs) = (\<forall>x \<in> set xs. 0 < k \<and> fits (k - 1) x)"
| "fits k (ObjectValue ms) = (\<forall>(_, x) \<in> set ms. 0 < k \<and> fits (k - 1) x)"
| "fits k _ = True"

text \<open>An unsigned number the reader can represent as a signed one comes back as such.\<close>

fun as_read :: "'d jvalue \<Rightarrow> 'd jvalue" where
  "as_read (UIntValue u) = (if unat u < 2 ^ 63 then IntValue u else UIntValue u)"
| "as_read (ArrayValue xs) = ArrayValue (map as_read xs)"
| "as_read (ObjectValue ms) = ObjectValue (map (\<lambda>(k, x). (k, as_read x)) ms)"
| "as_read v = v"

definition reads :: "'d float_ops \<Rightarrow> 'd float_reader \<Rightarrow> OurFeatures \<Rightarrow> 'd jvalue \<Rightarrow> bool" where
  "reads ops fr f v \<longleftrightarrow> (\<forall>n nodes old s rest.
     rd_current s = compact ops v @ rest \<longrightarrow> delimited rest \<longrightarrow> nodes \<le> stackLimit f \<longrightarrow> fits (stackLimit f - nodes) v \<longrightarrow>
     2 * length (rd_current s) + 2 \<le> n \<longrightarrow>
     read_with ops fr f n (ReadValue nodes old) s = Some (Inr True, as_read v, s\<lparr>rd_current := rest\<rparr>))"

lemma readsD:
  assumes "reads ops fr f v" and "rd_current s = compact ops v @ rest" and "delimited rest" and "nodes \<le> stackLimit f"
    and "fits (stackLimit f - nodes) v" and "2 * length (rd_current s) + 2 \<le> n"
  shows "read_with ops fr f n (ReadValue nodes old) s = Some (Inr True, as_read v, s\<lparr>rd_current := rest\<rparr>)"
  using assms unfolding reads_def by blast

lemma skipCommentTokens_plain:
  "readToken f s = (ok, t, s') \<Longrightarrow> tk_type t \<noteq> tokenComment \<Longrightarrow> skipCommentTokens f s = (t, s')"
  by (simp add: skipCommentTokens_def comment_tokens.simps)

text \<open>Reading a value that is a single token.\<close>

lemma readValue_token:
  assumes "readToken f s = (True, t, s')" and "tk_type t \<noteq> tokenComment" and "nodes \<le> stackLimit f"
  shows "readValue fr f call nodes v s =
    (let ty = tk_type t in
        if ty = tokenObjectBegin then call (ReadMember nodes [] (ObjectValue [])) s'
        else if ty = tokenArrayBegin then call (ReadElement nodes 0 (ArrayValue [])) s'
        else if ty = tokenNumber then
          (case decodeNumber fr t s' of
             (None, s) \<Rightarrow> Some (Inr False, v, s)
           | (Some x, s) \<Rightarrow> Some (Inr True, x, s))
        else if ty = tokenString then
          (case decodeString t s' of
             (None, s) \<Rightarrow> Some (Inr False, v, s)
           | (Some x, s) \<Rightarrow> Some (Inr True, StringValue x, s))
        else if ty = tokenTrue then Some (Inr True, BooleanValue True, s')
        else if ty = tokenFalse then Some (Inr True, BooleanValue False, s')
        else if ty = tokenNull then Some (Inr True, NullValue, s')
        else readValue fr f call nodes v s)"
  using assms skipCommentTokens_plain [OF assms(1,2)] by (simp add: readValue_def Let_def)

lemma reads_scalar:
  assumes "\<And>s rest. rd_current s = compact ops v @ rest \<Longrightarrow> delimited rest \<Longrightarrow>
      \<exists>t. readToken f s = (True, t, s\<lparr>rd_current := rest\<rparr>) \<and>
        (tk_type t = tokenNumber \<and> (\<forall>s'. decodeNumber fr t s' = (Some (as_read v), s')) \<or>
         tk_type t = tokenString \<and> (\<exists>x. as_read v = StringValue x \<and> (\<forall>s'. decodeString t s' = (Some x, s'))) \<or>
         tk_type t = tokenTrue \<and> as_read v = BooleanValue True \<or> tk_type t = tokenFalse \<and> as_read v = BooleanValue False \<or>
         tk_type t = tokenNull \<and> as_read v = NullValue)"
  shows "reads ops fr f v"
  unfolding reads_def
proof (intro allI impI)
  fix n nodes old and s :: OurReader and rest
  assume a: "rd_current s = compact ops v @ rest" "delimited rest" "nodes \<le> stackLimit f" "2 * length (rd_current s) + 2 \<le> n"
  obtain m where n: "n = Suc m" using a(4) by (cases n) auto
  from assms [OF a(1,2)] obtain t where t: "readToken f s = (True, t, s\<lparr>rd_current := rest\<rparr>)"
    "tk_type t = tokenNumber \<and> (\<forall>s'. decodeNumber fr t s' = (Some (as_read v), s')) \<or>
         tk_type t = tokenString \<and> (\<exists>x. as_read v = StringValue x \<and> (\<forall>s'. decodeString t s' = (Some x, s'))) \<or>
         tk_type t = tokenTrue \<and> as_read v = BooleanValue True \<or> tk_type t = tokenFalse \<and> as_read v = BooleanValue False \<or>
         tk_type t = tokenNull \<and> as_read v = NullValue" by blast
  have "tk_type t \<noteq> tokenComment" using t(2) by auto
  from readValue_token [OF t(1) this a(3), of fr "read_with ops fr f m" old] t(2)
  show "read_with ops fr f n (ReadValue nodes old) s = Some (Inr True, as_read v, s\<lparr>rd_current := rest\<rparr>)"
    by (auto simp: n Let_def)
qed


lemma match_word: "rd_current s = pat @ rest \<Longrightarrow> match pat s = (True, s\<lparr>rd_current := rest\<rparr>)"
  by (simp add: match_def)

lemma reads_literals: "reads ops fr f NullValue" "reads ops fr f (BooleanValue b)"
proof -
  show "reads ops fr f NullValue"
    by (rule reads_scalar) (simp add: readToken_first blank_simps token_switch_simps match_word Let_def)
  show "reads ops fr f (BooleanValue b)"
    by (rule reads_scalar)
      (cases b; simp add: valueToString_bool_def readToken_first blank_simps token_switch_simps match_word Let_def)
qed

lemma reads_string: "utf8_string x \<Longrightarrow> reads ops fr f (StringValue x)"
proof (rule reads_scalar)
  fix s :: OurReader and rest
  assume x: "utf8_string x" and s: "rd_current s = compact ops (StringValue x) @ rest"
  then obtain cps where cps: "\<forall>cp \<in> set cps. scalar cp" "x = utf8 cps" by (auto simp: utf8_string_def)
  have "rd_current s = valueToQuotedStringN False (utf8 cps) @ rest" using s cps(2) by simp
  from readToken_quoted [OF cps(1) this, of f] decodeString_quoted [OF cps(1)] this cps(2)
  show "\<exists>t. readToken f s = (True, t, s\<lparr>rd_current := rest\<rparr>) \<and>
        (tk_type t = tokenNumber \<and> (\<forall>s'. decodeNumber fr t s' = (Some (as_read (StringValue x)), s')) \<or>
         tk_type t = tokenString \<and> (\<exists>y. as_read (StringValue x) = StringValue y \<and> (\<forall>s'. decodeString t s' = (Some y, s'))) \<or>
         tk_type t = tokenTrue \<and> as_read (StringValue x) = BooleanValue True \<or> tk_type t = tokenFalse \<and> as_read (StringValue x) = BooleanValue False \<or>
         tk_type t = tokenNull \<and> as_read (StringValue x) = NullValue)" by simp
qed

lemma reads_number:
  assumes "\<And>s rest. rd_current s = compact ops v @ rest \<Longrightarrow> delimited rest \<Longrightarrow>
      \<exists>t. readToken f s = (True, t, s\<lparr>rd_current := rest\<rparr>) \<and> tk_type t = tokenNumber \<and> (\<forall>s'. decodeNumber fr t s' = (Some (as_read v), s'))"
  shows "reads ops fr f v"
  using assms by (intro reads_scalar) blast

lemma decimal_digits: "list_all isdigit (decimal n)"
  by (simp add: list_all_iff decimal_isdigit)

lemma decimal_token:
  assumes "delimited rest" and "rd_current s = decimal n @ rest"
  shows "\<exists>t. readToken f s = (True, t, s\<lparr>rd_current := rest\<rparr>) \<and> tk_type t = tokenNumber \<and> token_text t = decimal n"
  using readToken_digits [OF decimal_digits decimal_nonempty assms, of f] by (simp add: token_text_def)

lemma minus_token:
  assumes "delimited rest" and "rd_current s = CHR ''-'' # decimal n @ rest"
  shows "\<exists>t. readToken f s = (True, t, s\<lparr>rd_current := rest\<rparr>) \<and> tk_type t = tokenNumber \<and> token_text t = CHR ''-'' # decimal n"
  using readToken_minus [OF decimal_digits decimal_nonempty assms, of f] by (simp add: token_text_def)

lemma reads_uint: "reads ops fr f (UIntValue u)"
proof (rule reads_number)
  fix s :: OurReader and rest
  assume "rd_current s = compact ops (UIntValue u) @ rest" and d: "delimited rest"
  then have "rd_current s = decimal (unat u) @ rest" by (simp add: valueToString_uint_def uintToString_eq)
  from decimal_token [OF d this, of f] obtain t where
    t: "readToken f s = (True, t, s\<lparr>rd_current := rest\<rparr>)" "tk_type t = tokenNumber" "token_text t = decimal (unat u)" by blast
  have "decodeNumber fr t s' = (Some (as_read (UIntValue u)), s')" for s'
    using decodeNumber_digits [OF t(3) decimal_digits decimal_nonempty, of fr s'] unat_less_64 [of u] by simp
  then show "\<exists>t. readToken f s = (True, t, s\<lparr>rd_current := rest\<rparr>) \<and> tk_type t = tokenNumber \<and>
      (\<forall>s'. decodeNumber fr t s' = (Some (as_read (UIntValue u)), s'))" using t by blast
qed

lemma reads_int: "reads ops fr f (IntValue i)"
proof (rule reads_number)
  fix s :: OurReader and rest
  assume cur: "rd_current s = compact ops (IntValue i) @ rest" and d: "delimited rest"
  show "\<exists>t. readToken f s = (True, t, s\<lparr>rd_current := rest\<rparr>) \<and> tk_type t = tokenNumber \<and>
      (\<forall>s'. decodeNumber fr t s' = (Some (as_read (IntValue i)), s'))"
  proof (cases "sint i < 0")
    case True
    then have "rd_current s = CHR ''-'' # decimal (nat (- sint i)) @ rest"
      using cur by (simp add: valueToString_int_eq print_int_def)
    from minus_token [OF d this, of f] obtain t where
      t: "readToken f s = (True, t, s\<lparr>rd_current := rest\<rparr>)" "tk_type t = tokenNumber" "token_text t = CHR ''-'' # decimal (nat (- sint i))" by blast
    have u: "nat (- sint i) = unat (- i)" using sint_neg_unat [OF True] by linarith
    have "nat (- sint i) \<le> 2 ^ 63" using sint_range_size [of i] by (simp add: word_size nat_le_iff)
    moreover have "- word_of_nat (nat (- sint i)) = i" unfolding u by simp
    ultimately have "decodeNumber fr t s' = (Some (IntValue i), s')" for s'
      using decodeNumber_minus [OF t(3) decimal_digits, of fr s'] by simp
    then show ?thesis using t by auto
  next
    case False
    then have "rd_current s = decimal (nat (sint i)) @ rest"
      using cur by (simp add: valueToString_int_eq print_int_def)
    from decimal_token [OF d this, of f] obtain t where
      t: "readToken f s = (True, t, s\<lparr>rd_current := rest\<rparr>)" "tk_type t = tokenNumber" "token_text t = decimal (nat (sint i))" by blast
    have u: "nat (sint i) = unat i" using sint_nonneg_unat [of i] False by linarith
    have "nat (sint i) < 2 ^ 63" using sint_range_size [of i] False by (simp add: word_size nat_less_iff)
    moreover have "word_of_nat (nat (sint i)) = i" unfolding u by simp
    ultimately have "decodeNumber fr t s' = (Some (IntValue i), s')" for s'
      using decodeNumber_digits [OF t(3) decimal_digits decimal_nonempty, of fr s'] by simp
    then show ?thesis using t by auto
  qed
qed


text \<open>The first character of a printed value.\<close>

lemma compact_first:
  assumes "readable v"
  obtains c rs where "compact ops v = c # rs" "\<not> blank c" "c \<noteq> CHR '']''" "c \<noteq> CHR 0xEF"
proof -
  have dec: "\<exists>c rs. decimal n = c # rs \<and> \<not> blank c \<and> c \<noteq> CHR '']'' \<and> c \<noteq> CHR 0xEF" for n
  proof -
    obtain c rs where d: "decimal n = c # rs" using decimal_nonempty by (cases "decimal n") auto
    then have "isdigit c" using decimal_isdigit [of c n] by simp
    then show ?thesis using d digit_not_blank by (auto simp: isdigit_iff)
  qed
  have "\<exists>c rs. compact ops v = c # rs \<and> \<not> blank c \<and> c \<noteq> CHR '']'' \<and> c \<noteq> CHR 0xEF"
    using assms dec
    by (cases v) (auto simp: blank_simps valueToString_int_eq print_int_def valueToString_uint_def uintToString_eq
        valueToQuotedStringN_def valueToString_bool_def)
  then show thesis using that by blast
qed

lemma delimited_simps: "delimited (CHR '','' # rest)" "delimited (CHR '']'' # rest)" "delimited (CHR ''}'' # rest)"
  by (simp_all add: delimited_def isdigit_iff)

lemma readToken_sep:
  "rd_current s = CHR '','' # rest \<Longrightarrow> comment_tokens f (readToken f s) =
     (True, \<lparr>tk_type = tokenArraySeparator, tk_start = CHR '','' # rest, tk_end = rest\<rparr>, s\<lparr>rd_current := rest\<rparr>)"
  "rd_current s = CHR '']'' # rest \<Longrightarrow> comment_tokens f (readToken f s) =
     (True, \<lparr>tk_type = tokenArrayEnd, tk_start = CHR '']'' # rest, tk_end = rest\<rparr>, s\<lparr>rd_current := rest\<rparr>)"
  "rd_current s = CHR ''}'' # rest \<Longrightarrow> comment_tokens f (readToken f s) =
     (True, \<lparr>tk_type = tokenObjectEnd, tk_start = CHR ''}'' # rest, tk_end = rest\<rparr>, s\<lparr>rd_current := rest\<rparr>)"
  by (simp_all add: readToken_first blank_simps token_switch_simps comment_tokens.simps)

lemma read_elements:
  assumes "\<forall>x \<in> set xs. reads ops fr f x \<and> readable x" and "xs \<noteq> []" and "nodes < stackLimit f"
    and "\<forall>x \<in> set xs. fits (stackLimit f - Suc nodes) x"
    and "rd_current s = join '','' (map (compact ops) xs) @ CHR '']'' # rest"
    and "2 * length (rd_current s) + 3 \<le> n"
  shows "read_with ops fr f n (ReadElement nodes index (ArrayValue ys)) s =
    Some (Inr True, ArrayValue (ys @ map as_read xs), s\<lparr>rd_current := rest\<rparr>)"
  using assms
proof (induction xs arbitrary: index ys s n)
  case (Cons x xs)
  obtain m where n: "n = Suc m" using Cons.prems(6) by (cases n) auto
  define tl' where "tl' = (if xs = [] then CHR '']'' # rest else CHR '','' # join '','' (map (compact ops) xs) @ CHR '']'' # rest)"
  have cur: "rd_current s = compact ops x @ tl'" using Cons.prems(5) by (simp add: tl'_def join_Cons)
  obtain c rs where c: "compact ops x = c # rs" "\<not> blank c" "c \<noteq> CHR '']''"
    using compact_first [of x] Cons.prems(1) by (metis list.set_intros(1))
  have sp: "skipSpaces s = s" "hd (rd_current s) \<noteq> CHR '']''" using cur c by (simp_all add: skipSpaces_def)
  have "delimited tl'" by (simp add: tl'_def delimited_simps)
  then have val: "read_with ops fr f m (ReadValue (Suc nodes) NullValue) s = Some (Inr True, as_read x, s\<lparr>rd_current := tl'\<rparr>)"
    using Cons.prems(1,3,4,6) cur n by (intro readsD) auto
  show ?case
  proof (cases "xs = []")
    case True
    then show ?thesis using sp val readToken_sep(2) [of "s\<lparr>rd_current := tl'\<rparr>" rest f]
      by (simp add: n readArray_def tl'_def push_element_def append_val_def)
  next
    case False
    let ?s = "s\<lparr>rd_current := join '','' (map (compact ops) xs) @ CHR '']'' # rest\<rparr>"
    have "read_with ops fr f m (ReadElement nodes (Suc index) (ArrayValue (ys @ [as_read x]))) ?s =
        Some (Inr True, ArrayValue ((ys @ [as_read x]) @ map as_read xs), ?s\<lparr>rd_current := rest\<rparr>)"
      using Cons.prems False cur n c by (intro Cons.IH) (auto simp: tl'_def)
    then show ?thesis using False sp val readToken_sep(1) [of "s\<lparr>rd_current := tl'\<rparr>" "join '','' (map (compact ops) xs) @ CHR '']'' # rest" f]
      by (simp add: n readArray_def tl'_def push_element_def append_val_def)
  qed
qed simp


lemma put_member_last: "\<forall>x \<in> set ms. fst x < key \<Longrightarrow> put_member key v ms = ms @ [(key, v)]"
  by (induction ms) auto

lemma find_member_absent: "\<forall>x \<in> set ms. fst x < key \<Longrightarrow> find_member key ms = None"
  by (induction ms) auto

text \<open>One member of an object, up to what follows its value.\<close>

lemma member_step:
  fixes x :: "'d jvalue"
  assumes x: "reads ops fr f x" "utf8_string k" "length k < 2 ^ 30" "fits (stackLimit f - Suc nodes) x" "nodes < stackLimit f"
    and cur: "rd_current s = valueToQuotedStringN False k @ CHR '':'' # compact ops x @ rest" and d: "delimited rest"
    and fuel: "2 * length (rd_current s) \<le> m" and lt: "\<forall>y \<in> set ns. fst y < k"
  shows "read_with ops fr f (Suc m) (ReadMember nodes name (ObjectValue ns)) s =
    readMemberEnd f (read_with ops fr f m) nodes k (ObjectValue (ns @ [(k, as_read x)])) (s\<lparr>rd_current := rest\<rparr>)"
proof -
  obtain cps where cps: "\<forall>cp \<in> set cps. scalar cp" "k = utf8 cps" using x(2) by (auto simp: utf8_string_def)
  define s1 where "s1 = s\<lparr>rd_current := CHR '':'' # compact ops x @ rest\<rparr>"
  define t where "t = \<lparr>tk_type = tokenString, tk_start = rd_current s, tk_end = CHR '':'' # compact ops x @ rest\<rparr>"
  have name: "comment_tokens f (readToken f s) = (True, t, s1)"
    using readToken_quoted [OF cps(1), of s "CHR '':'' # compact ops x @ rest" f] cur cps(2) by (simp add: s1_def t_def comment_tokens.simps)
  have key: "readMemberName ops fr f t s1 = (Inr (Name k), s1)"
    using decodeString_quoted [OF cps(1), of t s1] cur cps(2) by (simp add: readMemberName_def t_def)
  define s2 where "s2 = s\<lparr>rd_current := compact ops x @ rest\<rparr>"
  have colon: "\<exists>t. readToken f s1 = (True, t, s2) \<and> tk_type t = tokenMemberSeparator"
    by (simp add: s1_def s2_def readToken_first blank_simps token_switch_simps)
  have val: "read_with ops fr f m (ReadValue (Suc nodes) old) s2 = Some (Inr True, as_read x, s2\<lparr>rd_current := rest\<rparr>)" for old
    using x d cur fuel by (intro readsD) (auto simp: s2_def)
  have obj: "snd (set_key k (as_read x) (ObjectValue ns)) = ObjectValue (ns @ [(k, as_read x)])"
    "isMember k (ObjectValue ns :: 'd jvalue) = Inr False"
    using put_member_last [OF lt] find_member_absent [OF lt]
    by (auto simp: set_key_def resolveReference_def assign_def isMember_def find_val_def)
  show ?thesis
    using name key colon obj x(3) val by (auto simp: readObject_def t_def s2_def split: if_splits)
qed

lemma member_last:
  assumes "rd_current s = CHR ''}'' # rest"
  shows "readMemberEnd f call nodes k v s = Some (Inr True, v, s\<lparr>rd_current := rest\<rparr>)"
  using readToken_first [OF assms blank_simps(2), of f] by (simp add: readMemberEnd_def token_switch_simps comment_tokens.simps)

lemma member_next:
  assumes "rd_current s = CHR '','' # rest"
  shows "readMemberEnd f call nodes k v s = call (ReadMember nodes k v) (s\<lparr>rd_current := rest\<rparr>)"
  using readToken_first [OF assms blank_simps(6), of f] by (simp add: readMemberEnd_def token_switch_simps comment_tokens.simps)

lemma read_members:
  fixes ms :: "(string \<times> 'd jvalue) list"
  assumes "\<forall>(k, x) \<in> set ms. reads ops fr f x \<and> readable x \<and> utf8_string k \<and> length k < 2 ^ 30" and "ms \<noteq> []"
    and "nodes < stackLimit f" and "\<forall>(k, x) \<in> set ms. fits (stackLimit f - Suc nodes) x"
    and "rd_current s = join '','' (map (\<lambda>(k, x). valueToQuotedStringN False k @ '':'' @ compact ops x) ms) @ CHR ''}'' # rest"
    and "2 * length (rd_current s) + 1 \<le> n" and "sorted_wrt (<) (map fst ns @ map fst ms)"
  shows "read_with ops fr f n (ReadMember nodes name (ObjectValue ns)) s =
    Some (Inr True, ObjectValue (ns @ map (\<lambda>(k, x). (k, as_read x)) ms), s\<lparr>rd_current := rest\<rparr>)"
  using assms
proof (induction ms arbitrary: name ns s n)
  case (Cons kx ms)
  obtain k x where kx: "kx = (k, x)" by fastforce
  obtain m where n: "n = Suc m" using Cons.prems(6) by (cases n) auto
  let ?rest = "join '','' (map (\<lambda>(k, x). valueToQuotedStringN False k @ '':'' @ compact ops x) ms) @ CHR ''}'' # rest"
  define tl' where "tl' = (if ms = [] then CHR ''}'' # rest else CHR '','' # ?rest)"
  have cur: "rd_current s = valueToQuotedStringN False k @ CHR '':'' # compact ops x @ tl'"
    using Cons.prems(5) by (simp add: tl'_def join_Cons kx)
  have "\<forall>y \<in> set ns. fst y < k" using Cons.prems(7) kx by (auto simp: sorted_wrt_append)
  moreover have "delimited tl'" by (simp add: tl'_def delimited_simps)
  ultimately have step: "read_with ops fr f n (ReadMember nodes name (ObjectValue ns)) s =
      readMemberEnd f (read_with ops fr f m) nodes k (ObjectValue (ns @ [(k, as_read x)])) (s\<lparr>rd_current := tl'\<rparr>)"
    unfolding n using Cons.prems(1,3,4,6) cur kx n by (intro member_step) auto
  show ?case
  proof (cases "ms = []")
    case True
    then show ?thesis using step member_last [of "s\<lparr>rd_current := tl'\<rparr>" rest] by (simp add: tl'_def kx)
  next
    case False
    let ?s = "s\<lparr>rd_current := ?rest\<rparr>"
    have "read_with ops fr f m (ReadMember nodes k (ObjectValue (ns @ [(k, as_read x)]))) ?s =
        Some (Inr True, ObjectValue ((ns @ [(k, as_read x)]) @ map (\<lambda>(k, x). (k, as_read x)) ms), ?s\<lparr>rd_current := rest\<rparr>)"
      using Cons.prems False cur n kx by (intro Cons.IH) (auto simp: tl'_def)
    then show ?thesis using False step member_next [of "s\<lparr>rd_current := tl'\<rparr>" ?rest f "read_with ops fr f m" nodes k "ObjectValue (ns @ [(k, as_read x)])"] by (simp add: tl'_def kx)
  qed
qed simp

lemma reads_containers:
  "(\<And>x. x \<in> set xs \<Longrightarrow> reads ops fr f x \<and> readable x) \<Longrightarrow> reads ops fr f (ArrayValue xs)"
  "(\<And>k x. (k, x) \<in> set ms \<Longrightarrow> reads ops fr f x \<and> readable x \<and> utf8_string k \<and> length k < 2 ^ 30) \<Longrightarrow> keys_sorted ms \<Longrightarrow>
    reads ops fr f (ObjectValue ms)"
proof -
  assume xs: "\<And>x. x \<in> set xs \<Longrightarrow> reads ops fr f x \<and> readable x"
  show "reads ops fr f (ArrayValue xs)" unfolding reads_def
  proof (intro allI impI)
    fix n nodes old and s :: OurReader and rest
    assume a: "rd_current s = compact ops (ArrayValue xs) @ rest" "delimited rest" "nodes \<le> stackLimit f"
      "fits (stackLimit f - nodes) (ArrayValue xs)" "2 * length (rd_current s) + 2 \<le> n"
    obtain m where n: "n = Suc m" using a(5) by (cases n) auto
    let ?s = "s\<lparr>rd_current := join '','' (map (compact ops) xs) @ CHR '']'' # rest\<rparr>"
    obtain t where t: "readToken f s = (True, t, ?s)" "tk_type t = tokenArrayBegin"
      using a(1) by (simp add: readToken_first blank_simps token_switch_simps)
    have "read_with ops fr f n (ReadValue nodes old) s = read_with ops fr f m (ReadElement nodes 0 (ArrayValue [])) ?s"
      using readValue_token [OF t(1) _ a(3), of fr "read_with ops fr f m" old] t(2) by (simp add: n)
    also have "\<dots> = Some (Inr True, as_read (ArrayValue xs), s\<lparr>rd_current := rest\<rparr>)"
    proof (cases "xs = []")
      case True
      obtain m' where m: "m = Suc m'" using a(1,5) n by (cases m) auto
      show ?thesis using True by (simp add: m readArray_def skipSpaces_def blank_simps readToken_first token_switch_simps)
    next
      case False
      then have "nodes < stackLimit f" using a(3,4) by (cases xs) auto
      then show ?thesis using read_elements [of xs ops fr f nodes ?s rest m 0 "[]"] xs False a n by simp
    qed
    finally show "read_with ops fr f n (ReadValue nodes old) s = Some (Inr True, as_read (ArrayValue xs), s\<lparr>rd_current := rest\<rparr>)" .
  qed
next
  assume ms: "\<And>k x. (k, x) \<in> set ms \<Longrightarrow> reads ops fr f x \<and> readable x \<and> utf8_string k \<and> length k < 2 ^ 30" "keys_sorted ms"
  show "reads ops fr f (ObjectValue ms)" unfolding reads_def
  proof (intro allI impI)
    fix n nodes old and s :: OurReader and rest
    assume a: "rd_current s = compact ops (ObjectValue ms) @ rest" "delimited rest" "nodes \<le> stackLimit f"
      "fits (stackLimit f - nodes) (ObjectValue ms)" "2 * length (rd_current s) + 2 \<le> n"
    obtain m where n: "n = Suc m" using a(5) by (cases n) auto
    let ?s = "s\<lparr>rd_current := join '','' (map (\<lambda>(k, x). valueToQuotedStringN False k @ '':'' @ compact ops x) ms) @ CHR ''}'' # rest\<rparr>"
    obtain t where t: "readToken f s = (True, t, ?s)" "tk_type t = tokenObjectBegin"
      using a(1) by (simp add: readToken_first blank_simps token_switch_simps)
    have "read_with ops fr f n (ReadValue nodes old) s = read_with ops fr f m (ReadMember nodes [] (ObjectValue [])) ?s"
      using readValue_token [OF t(1) _ a(3), of fr "read_with ops fr f m" old] t(2) by (simp add: n)
    also have "\<dots> = Some (Inr True, as_read (ObjectValue ms), s\<lparr>rd_current := rest\<rparr>)"
    proof (cases "ms = []")
      case True
      obtain m' where m: "m = Suc m'" using a(1,5) n by (cases m) auto
      show ?thesis using True readToken_sep(3) [of ?s rest f] by (simp add: m readObject_def)
    next
      case False
      then have "nodes < stackLimit f" using a(3,4) by (cases ms) auto
      moreover have "\<forall>(k, x) \<in> set ms. reads ops fr f x \<and> readable x \<and> utf8_string k \<and> length k < 2 ^ 30"
        using ms(1) by blast
      moreover have "\<forall>(k, x) \<in> set ms. fits (stackLimit f - Suc nodes) x" using a(4) by fastforce
      ultimately show ?thesis using read_members [of ms ops fr f nodes ?s rest m "[]" "[]"] ms(2) False a(1,5) n by simp
    qed
    finally show "read_with ops fr f n (ReadValue nodes old) s = Some (Inr True, as_read (ObjectValue ms), s\<lparr>rd_current := rest\<rparr>)" .
  qed
qed

lemma reads_readable: "readable v \<Longrightarrow> jv_ok v \<Longrightarrow> reads ops fr f v"
proof (induction v)
  case (ArrayValue xs)
  then show ?case by (intro reads_containers(1)) (auto simp: list_all_iff)
next
  case (ObjectValue ms)
  then show ?case by (intro reads_containers(2)) (fastforce simp: list_all_iff)+
qed (simp_all add: reads_literals reads_string reads_int reads_uint)


lemma readToken_end: "rd_current s = [] \<Longrightarrow> skipCommentTokens f s = (\<lparr>tk_type = tokenEndOfStream, tk_start = [], tk_end = []\<rparr>, s)"
proof -
  assume e: "rd_current s = []"
  then have "skipSpaces s = s" by (simp add: skipSpaces_def)
  moreover have "getNextChar s = (CHR 0x00, s)" using e by (simp add: getNextChar_def)
  moreover have "token_switch f (CHR 0x00) s = (tokenEndOfStream, True, s)" by (simp add: token_switch_def isdigit_iff)
  ultimately have "readToken f s = (True, \<lparr>tk_type = tokenEndOfStream, tk_start = [], tk_end = []\<rparr>, s)"
    using e by (simp add: readToken_def)
  then show ?thesis by (rule skipCommentTokens_plain) simp
qed

lemma parse_compact:
  assumes "jv_ok v" and "readable v" and "1 \<le> stackLimit f" and "fits (stackLimit f - 1) v"
    and "strictRoot f \<Longrightarrow> isArray v \<or> isObject v"
  shows "\<exists>s. parse ops fr f (compact ops v) root = Some (Inr True, as_read v, s) \<and> rd_errors s = []"
proof -
  let ?doc = "compact ops v"
  define s0 where "s0 = \<lparr>rd_begin = ?doc, rd_current = ?doc, rd_errors = []\<rparr>"
  obtain c rs where c: "?doc = c # rs" "c \<noteq> CHR 0xEF" using compact_first [OF assms(2)] by blast
  have bom: "skip_bom (skipBom f) s0 = s0" using c by (auto simp: skip_bom_def s0_def)
  have "read_with ops fr f (2 * length ?doc + 2) (ReadValue 1 root) s0 = Some (Inr True, as_read v, s0\<lparr>rd_current := []\<rparr>)"
    using reads_readable [OF assms(2,1)] assms(3,4) by (intro readsD) (auto simp: s0_def delimited_def)
  moreover have "isArray (as_read v) = isArray v" "isObject (as_read v) = isObject v"
    by (cases v; simp add: isArray_def isObject_def)+
  ultimately show ?thesis
    using assms(5) readToken_end [of "s0\<lparr>rd_current := []\<rparr>" f] bom
    unfolding parse_def Let_def s0_def [symmetric] by (auto simp: s0_def)
qed

section \<open>Leniency\<close>

lemma ascii_utf8_string: "list_all (\<lambda>c. byte c < 0x80) x \<Longrightarrow> utf8_string x"
proof -
  assume "list_all (\<lambda>c. byte c < 0x80) x"
  then have "x = utf8 (map byte x) \<and> (\<forall>cp \<in> set (map byte x). scalar cp)"
    by (induction x) (auto simp: utf8_def codePointToUTF8_eq scalar_def)
  then show ?thesis unfolding utf8_string_def by blast
qed

lemma readToken_comment_number:
  assumes "rd_current s = ''/**/5'' @ CHR 0x22 # rest"
  shows "\<exists>t u s'. readToken f s = (True, t, s') \<and> tk_type t = tokenComment \<and>
    comment_tokens f (True, t, s') = (True, u, s\<lparr>rd_current := CHR 0x22 # rest\<rparr>) \<and> tk_type u = tokenNumber"
proof -
  let ?s = "s\<lparr>rd_current := CHR ''5'' # CHR 0x22 # rest\<rparr>"
  have cur: "rd_current s = CHR ''/'' # CHR ''*'' # CHR ''*'' # CHR ''/'' # CHR ''5'' # CHR 0x22 # rest" using assms by simp
  have "\<not> blank (CHR ''/'')" by (simp add: blank_def)
  from readToken_first [OF cur this, of f] have
    c: "readToken f s = (True, \<lparr>tk_type = tokenComment, tk_start = rd_current s, tk_end = CHR ''5'' # CHR 0x22 # rest\<rparr>, ?s)"
    by (simp add: token_switch_def readComment_def readCStyleComment_def getNextChar_def cur)
  have "delimited (CHR 0x22 # rest)" by (simp add: delimited_def isdigit_iff)
  from readToken_digits [of "''5''", OF _ _ this, of ?s f] have
    n: "readToken f ?s = (True, \<lparr>tk_type = tokenNumber, tk_start = CHR ''5'' # CHR 0x22 # rest, tk_end = CHR 0x22 # rest\<rparr>,
      s\<lparr>rd_current := CHR 0x22 # rest\<rparr>)" by (simp add: isdigit_iff)
  show ?thesis by (simp add: c n comment_tokens.simps)
qed

lemma parse_read:
  assumes "hd doc \<noteq> CHR 0xEF" and "doc \<noteq> []"
    and "read_with ops fr default_features (2 * length doc + 2) (ReadValue 1 root) \<lparr>rd_begin = doc, rd_current = doc, rd_errors = []\<rparr> =
      Some (Inr True, v, s)"
  shows "\<exists>s. parse ops fr default_features doc root = Some (Inr True, v, s)"
proof -
  have "skip_bom True \<lparr>rd_begin = doc, rd_current = doc, rd_errors = []\<rparr> = \<lparr>rd_begin = doc, rd_current = doc, rd_errors = []\<rparr>"
    using assms(1,2) by (cases doc) (auto simp: skip_bom_def)
  then show ?thesis
    unfolding parse_def Let_def using assms(3) by (simp add: default_features_def split: prod.splits)
qed

lemma default_limit [simp]: "stackLimit default_features = 1000"
  by (simp add: default_features_def)

lemma parse_minus: "\<exists>s. parse ops fr default_features ''-'' NullValue = Some (Inr True, IntValue 0, s)"
proof (rule parse_read)
  let ?s = "\<lparr>rd_begin = ''-'', rd_current = ''-'', rd_errors = []\<rparr>"
  let ?t = "\<lparr>tk_type = tokenNumber, tk_start = ''-'', tk_end = []\<rparr>"
  have t: "readToken default_features ?s = (True, ?t, ?s\<lparr>rd_current := []\<rparr>)"
    using readToken_first [of ?s "CHR ''-''" "[]" default_features]
    by (simp add: blank_simps token_switch_def isdigit_iff readNumber_def scan_fraction_def scan_exponent_def)
  have "readValue fr default_features call 1 NullValue ?s = Some (Inr True, IntValue 0, ?s\<lparr>rd_current := []\<rparr>)" for call
    using readValue_token [OF t, of 1 fr call NullValue] decodeNumber_minus [of ?t "[]" fr] by (simp add: token_text_def)
  then show "read_with ops fr default_features (2 * length ''-'' + 2) (ReadValue 1 NullValue) ?s =
      Some (Inr True, IntValue 0, ?s\<lparr>rd_current := []\<rparr>)" by (simp add: numeral_eq_Suc)
qed simp_all

lemma member_odd:
  assumes "rd_current s = ''/**/5'' @ CHR 0x22 # rest"
  shows "readMemberEnd f call nodes k v s = call (ReadMember nodes k v) (s\<lparr>rd_current := CHR 0x22 # rest\<rparr>)"
  using readToken_comment_number [OF assms, of f] by (auto simp: readMemberEnd_def)

abbreviation odd_object :: string where
  "odd_object \<equiv> ''{'' @ [CHR 0x22] @ ''a'' @ [CHR 0x22] @ '':1/**/5'' @ [CHR 0x22] @ ''b'' @ [CHR 0x22] @ '':2}''"

lemma parse_odd_comma:
  "\<exists>s. parse ops fr default_features odd_object NullValue =
     Some (Inr True, ObjectValue [(''a'', IntValue 1), (''b'', IntValue 2)], s)"
proof (rule parse_read)
  let ?f = default_features
  let ?n = "2 * length odd_object + 2"
  define s where "s = \<lparr>rd_begin = odd_object, rd_current = odd_object, rd_errors = []\<rparr>"
  have q: "valueToQuotedStringN False ''a'' = [CHR 0x22, CHR ''a'', CHR 0x22]" "valueToQuotedStringN False ''b'' = [CHR 0x22, CHR ''b'', CHR 0x22]"
    "valueToString_int 1 = ''1''" "valueToString_int 2 = ''2''" by code_simp+
  define m :: nat where "m = 33"
  have n: "?n = Suc (Suc (Suc m))" "33 \<le> m" by (simp_all add: m_def)
  let ?s1 = "s\<lparr>rd_current := tl odd_object\<rparr>"
  let ?s2 = "s\<lparr>rd_current := ''/**/5'' @ [CHR 0x22] @ ''b'' @ [CHR 0x22] @ '':2}''\<rparr>"
  let ?s3 = "s\<lparr>rd_current := [CHR 0x22] @ ''b'' @ [CHR 0x22] @ '':2}''\<rparr>"
  obtain t where t: "readToken ?f s = (True, t, ?s1)" "tk_type t = tokenObjectBegin"
    by (simp add: s_def readToken_first blank_simps token_switch_simps)
  have "read_with ops fr ?f ?n (ReadValue 1 NullValue) s = read_with ops fr ?f (Suc (Suc m)) (ReadMember 1 [] (ObjectValue [])) ?s1"
    unfolding n(1) using readValue_token [OF t(1), of 1 fr "read_with ops fr ?f (Suc (Suc m))" NullValue] t(2) by simp
  also have "\<dots> = readMemberEnd ?f (read_with ops fr ?f (Suc m)) 1 ''a'' (ObjectValue [(''a'', IntValue 1)]) ?s2"
    using n(2) member_step [of ops fr ?f "IntValue 1" "''a''" 1 ?s1 "rd_current ?s2" "Suc m" "[]" "[]"] reads_int [of ops fr ?f 1]
    by (simp add: ascii_utf8_string q delimited_def isdigit_iff)
  also have "\<dots> = read_with ops fr ?f (Suc m) (ReadMember 1 ''a'' (ObjectValue [(''a'', IntValue 1)])) ?s3"
    using member_odd [of ?s2 "''b'' @ [CHR 0x22] @ '':2}''" ?f "read_with ops fr ?f (Suc m)" 1 "''a''" "ObjectValue [(''a'', IntValue 1)]"]
    by simp
  also have "\<dots> = readMemberEnd ?f (read_with ops fr ?f m) 1 ''b'' (ObjectValue [(''a'', IntValue 1), (''b'', IntValue 2)]) (s\<lparr>rd_current := ''}''\<rparr>)"
    using n(2) member_step [of ops fr ?f "IntValue 2" "''b''" 1 ?s3 "''}''" m "[(''a'', IntValue 1)]" "''a''"] reads_int [of ops fr ?f 2]
    by (simp add: ascii_utf8_string q delimited_simps)
  also have "\<dots> = Some (Inr True, ObjectValue [(''a'', IntValue 1), (''b'', IntValue 2)], s\<lparr>rd_current := []\<rparr>)"
    by (subst member_last [of _ "[]"]) simp_all
  finally show "read_with ops fr ?f ?n (ReadValue 1 NullValue) \<lparr>rd_begin = odd_object, rd_current = odd_object, rd_errors = []\<rparr> =
    Some (Inr True, ObjectValue [(''a'', IntValue 1), (''b'', IntValue 2)], s\<lparr>rd_current := []\<rparr>)"
    by (simp only: s_def)
qed simp_all

section \<open>Properties\<close>

text \<open>
  C5: What the agent's writer prints, the agent's reader reads back.  A well-formed value without
  floating-point numbers, whose strings are UTF-8 and whose arrays and objects are nested less than a
  thousand levels deep, printed by \<^verbatim>\<open>NodeTreeWriter\<close> and parsed with the agent's settings, gives the
  same value, except that an unsigned number that fits a signed one comes back signed.  No error is
  reported.
\<close>

theorem write_read_roundtrip:
  assumes "jv_ok v" and "readable v" and "fits 999 v"
  shows "\<exists>text. NodeTreeWriter_write ops rb ru v = Inr text \<and>
    parseFromStream ops fr rb ru (jset ''collectComments'' (BooleanValue False) (reader_setDefaults NullValue)) text NullValue =
      Some (Inr True, as_read v, [])"
proof -
  obtain s where "parse ops fr default_features (compact ops v) NullValue = Some (Inr True, as_read v, s)" "rd_errors s = []"
    using parse_compact [of v default_features ops fr NullValue] assms by (auto simp: default_features_def)
  then show ?thesis
    by (simp add: NodeTreeWriter_write_compact parseFromStream_def newCharReader_defaults getFormattedErrorMessages_def)
qed

theorem write_read_roundtrip_witness:
  "\<exists>text. NodeTreeWriter_write undefined (\<lambda>_. True) (\<lambda>_. None)
       (ObjectValue [('':E'', IntValue (- 5)), (''event'', ArrayValue [UIntValue 7, StringValue ''x'', NullValue])] :: unit jvalue) = Inr text \<and>
     parseFromStream undefined undefined (\<lambda>_. True) (\<lambda>_. None)
         (jset ''collectComments'' (BooleanValue False) (reader_setDefaults NullValue)) text NullValue =
       Some (Inr True, ObjectValue [('':E'', IntValue (- 5)), (''event'', ArrayValue [IntValue 7, StringValue ''x'', NullValue])] :: unit jvalue, [])"
  using write_read_roundtrip [of "ObjectValue [('':E'', IntValue (- 5)), (''event'', ArrayValue [UIntValue 7, StringValue ''x'', NullValue])] :: unit jvalue"
      undefined "\<lambda>_. True" "\<lambda>_. None" undefined]
  by (simp add: ascii_utf8_string)

text \<open>
  The reader keeps every integer that fits and loses none to overflow.  A run of digits of value
  \<open>n\<close> becomes a signed number below two to the 63, an unsigned one below two to the 64, and is handed to
  the floating-point parser from there on; with a minus sign in front it stays an integer up to and
  including two to the 63.  The value is exact in each case.
\<close>

lemma decode_number_exact:
  assumes "list_all isdigit ds" and "ds \<noteq> []" and "token_text t = (if neg then CHR ''-'' # ds else ds)"
  shows "decodeNumber fr t s =
    (if neg \<and> digits_val 0 ds \<le> 2 ^ 63 then (Some (IntValue (- word_of_nat (digits_val 0 ds))), s)
     else if \<not> neg \<and> digits_val 0 ds < 2 ^ 63 then (Some (IntValue (word_of_nat (digits_val 0 ds))), s)
     else if \<not> neg \<and> digits_val 0 ds < 2 ^ 64 then (Some (UIntValue (word_of_nat (digits_val 0 ds))), s)
     else decodeDouble fr t s)"
  using assms by (cases neg) (simp_all add: decodeNumber_digits decodeNumber_minus)

lemma decode_number_exact_example:
  "decodeNumber (undefined :: unit float_reader) \<lparr>tk_type = tokenNumber, tk_start = ''-9223372036854775808,'', tk_end = '',''\<rparr>
       \<lparr>rd_begin = [], rd_current = [], rd_errors = []\<rparr> =
     (Some (IntValue (- (2 ^ 63))), \<lparr>rd_begin = [], rd_current = [], rd_errors = []\<rparr>)"
  using decode_number_exact [of "''9223372036854775808''" "\<lparr>tk_type = tokenNumber, tk_start = ''-9223372036854775808,'', tk_end = '',''\<rparr>" True
      "undefined :: unit float_reader" "\<lparr>rd_begin = [], rd_current = [], rd_errors = []\<rparr>"]
  by (simp add: isdigit_iff token_text_def digit_of_def)

text \<open>
  The reader is more lenient than its grammar.  With its default settings a lone minus sign is
  the number zero, and behind a comment in an object any one token passes for the comma between two
  members.
\<close>

lemma reader_leniency:
  "(\<exists>s. parse ops fr default_features ''-'' NullValue = Some (Inr True, IntValue 0, s)) \<and>
   (\<exists>s. parse ops fr default_features odd_object NullValue =
     Some (Inr True, ObjectValue [(''a'', IntValue 1), (''b'', IntValue 2)], s))"
  using parse_minus parse_odd_comma by blast

end
