(* ===== verification/Proc_State.thy ===== *)
theory Proc_State
  imports PP_Prelude
begin

text \<open>
  The process-wide state of the agent, \<^verbatim>\<open>common/src/Cache/State.h\<close> and \<^verbatim>\<open>State.cpp\<close>: the
  per-second sampling counter, the unique-id counter and the start time announced by the
  collector-agent.
\<close>

section \<open>State and operations\<close>

record process_state =
  ps_tick :: i64
  ps_timestamp :: i64
  ps_starttime :: u64
  ps_trace_limit :: i64
  ps_uuid :: i64
  ps_ready :: bool

definition ProcessState :: "u64 \<Rightarrow> i64 \<Rightarrow> process_state" where
  "ProcessState now trace_limit =
     \<lparr>ps_tick = 0, ps_timestamp = 0, ps_starttime = now, ps_trace_limit = trace_limit,
      ps_uuid = 0, ps_ready = False\<rparr>"

definition GetUniqueId :: "process_state \<Rightarrow> i64 \<times> process_state" where
  "GetUniqueId s = (ps_uuid s, s\<lparr>ps_uuid := ps_uuid s + 1\<rparr>)"

definition IsReady :: "process_state \<Rightarrow> bool" where
  "IsReady s = ps_ready s"

definition ResetUniqueID :: "process_state \<Rightarrow> process_state" where
  "ResetUniqueID s = s\<lparr>ps_uuid := 0\<rparr>"

definition GetStartTime :: "process_state \<Rightarrow> u64" where
  "GetStartTime s = ps_starttime s"

definition SetStartTime :: "u64 \<Rightarrow> process_state \<Rightarrow> process_state" where
  "SetStartTime start_time s =
     (if \<not> ps_ready s then s\<lparr>ps_starttime := start_time, ps_ready := True\<rparr> else s)"

text \<open>
  \<^verbatim>\<open>CheckTraceLimit\<close>: \<open>clock\<close> is what \<^verbatim>\<open>std::time\<close> would return.  The result is \<open>True\<close> when the
  trace is to be dropped; the comparison with the limit is signed.
\<close>

definition CheckTraceLimit :: "i64 \<Rightarrow> i64 \<Rightarrow> process_state \<Rightarrow> bool \<times> process_state" where
  "CheckTraceLimit clock timestamp s =
     (let now = (if timestamp \<noteq> - 1 then timestamp else clock) in
      if ps_trace_limit s = - 1 then (False, s)
      else if ps_trace_limit s = 0 then (True, s)
      else if ps_timestamp s \<noteq> now then
        (let s' = s\<lparr>ps_timestamp := now, ps_tick := 0\<rparr> in (False, s'\<lparr>ps_tick := ps_tick s' + 1\<rparr>))
      else if sint (ps_trace_limit s) \<le> sint (ps_tick s) then (True, s)
      else (False, s\<lparr>ps_tick := ps_tick s + 1\<rparr>))"

text \<open>A run of sampling decisions, each at its own (already resolved) second.\<close>

fun check_run :: "i64 list \<Rightarrow> process_state \<Rightarrow> bool list \<times> process_state" where
  "check_run [] s = ([], s)"
| "check_run (t # ts) s =
     (let (b, s') = CheckTraceLimit t t s; (bs, s'') = check_run ts s' in (b # bs, s''))"

fun take_ids :: "nat \<Rightarrow> process_state \<Rightarrow> i64 list \<times> process_state" where
  "take_ids 0 s = ([], s)"
| "take_ids (Suc n) s =
     (let (i, s') = GetUniqueId s; (is, s'') = take_ids n s' in (i # is, s''))"

section \<open>The start time is announced once\<close>

text \<open>
  What the agent relies on of the abstract class \<^verbatim>\<open>State\<close>: the first announced start time is
  kept, later announcements are ignored.
\<close>

locale start_latch =
  fixes is_ready :: "'s \<Rightarrow> bool"
    and get_start :: "'s \<Rightarrow> 't"
    and set_start :: "'t \<Rightarrow> 's \<Rightarrow> 's"
  assumes set_first: "\<not> is_ready s \<Longrightarrow> is_ready (set_start t s) \<and> get_start (set_start t s) = t"
    and set_again: "is_ready s \<Longrightarrow> set_start t s = s"
begin

lemma ready_kept: "is_ready s \<Longrightarrow> fold set_start ts s = s"
  by (induction ts) (auto simp: set_again)

lemma first_wins:
  assumes "\<not> is_ready s"
  shows "get_start (fold set_start (t # ts) s) = t" and "is_ready (fold set_start (t # ts) s)"
  using assms set_first [of s t] by (auto simp: ready_kept)

end

interpretation ps: start_latch IsReady GetStartTime SetStartTime
  by unfold_locales (auto simp: IsReady_def GetStartTime_def SetStartTime_def)

section \<open>Sampling\<close>

lemma sint_add_one: "sint (w :: 64 word) < 2 ^ 63 - 1 \<Longrightarrow> sint (w + 1) = sint w + 1"
  using sint_range_size [of w]
  by (simp add: sint_word_ariths signed_take_bit_int_eq_self word_size)

text \<open>The number of calls at second \<open>t\<close> that let the trace through.\<close>

definition passed_at :: "i64 \<Rightarrow> i64 list \<Rightarrow> process_state \<Rightarrow> nat" where
  "passed_at t ts s = count_list (zip ts (fst (check_run ts s))) (t, False)"

lemma passed_at_Nil [simp]: "passed_at t [] s = 0"
  by (simp add: passed_at_def)

lemma passed_at_Cons:
  "passed_at t (a # ts) s =
     (if a = t \<and> \<not> fst (CheckTraceLimit a a s) then 1 else 0) + passed_at t ts (snd (CheckTraceLimit a a s))"
  by (auto simp: passed_at_def Let_def split: prod.splits)

text \<open>Room left at second \<open>t\<close>: a second other than the current one starts afresh.\<close>

definition room :: "process_state \<Rightarrow> i64 \<Rightarrow> nat" where
  "room s t = nat (sint (ps_trace_limit s) - (if ps_timestamp s = t then sint (ps_tick s) else 0))"

definition sampling_inv :: "process_state \<Rightarrow> bool" where
  "sampling_inv s \<longleftrightarrow> 0 < sint (ps_trace_limit s) \<and> 0 \<le> sint (ps_tick s) \<and>
     sint (ps_tick s) \<le> sint (ps_trace_limit s)"

lemma sampling_inv_not_special:
  "sampling_inv s \<Longrightarrow> ps_trace_limit s \<noteq> - 1 \<and> ps_trace_limit s \<noteq> 0"
  by (auto simp: sampling_inv_def)

lemma CheckTraceLimit_sampling_inv:
  assumes "sampling_inv s"
  shows "sampling_inv (snd (CheckTraceLimit c t s))"
  using assms sint_range_size [of "ps_trace_limit s"]
  by (auto simp: CheckTraceLimit_def Let_def sampling_inv_def sint_add_one word_size)

lemma passed_at_sorted:
  assumes "sampling_inv s" and "sorted (map sint (ps_timestamp s # ts))"
  shows "passed_at t ts s = min (count_list ts t) (room s t)"
  using assms
proof (induction ts arbitrary: s)
  case (Cons a ts)
  let ?s = "snd (CheckTraceLimit a a s)"
  have lim: "ps_trace_limit s \<noteq> - 1" "ps_trace_limit s \<noteq> 0"
    using Cons.prems(1) by (auto dest: sampling_inv_not_special)
  have rng: "sint (ps_trace_limit s) \<le> 2 ^ 63 - 1"
    using sint_range_size [of "ps_trace_limit s"] by (simp add: word_size)
  have now: "ps_timestamp ?s = a"
    using lim by (auto simp: CheckTraceLimit_def Let_def)
  have srt: "sorted (map sint (a # ts))" and ge: "sint (ps_timestamp s) \<le> sint a"
    using Cons.prems(2) by auto
  have IH: "passed_at t ts ?s = min (count_list ts t) (room ?s t)"
    using Cons.prems srt now by (intro Cons.IH) (auto intro: CheckTraceLimit_sampling_inv)
  show ?case
  proof (cases "ps_timestamp s = a")
    case True
    then show ?thesis
      using lim rng Cons.prems(1) unfolding passed_at_Cons IH
      by (auto simp: CheckTraceLimit_def Let_def room_def sampling_inv_def sint_add_one min_def)
  next
    case False
    have "ps_timestamp s = t \<Longrightarrow> count_list (a # ts) t = 0"
    proof -
      assume t: "ps_timestamp s = t"
      have "sint t \<noteq> sint a" using False t by (auto dest: signed_word_eqI)
      then have "sint t < sint a" using ge t by simp
      then have "t \<notin> set (a # ts)" using srt by fastforce
      then show ?thesis by (auto simp: count_list_0_iff)
    qed
    with False lim rng Cons.prems(1) show ?thesis
      unfolding passed_at_Cons IH
      by (auto simp: CheckTraceLimit_def Let_def room_def sampling_inv_def min_def)
  qed
qed simp

text \<open>
  C37: With a positive limit and a clock that does not run backwards, the number of traces let
  through in any one second is exactly the smaller of the number of requests in that second and
  the limit.
\<close>

theorem sampling_exact:
  assumes "0 < sint trace_limit" and "sorted (map sint (0 # ts))"
  shows "passed_at t ts (ProcessState now trace_limit) =
           min (count_list ts t) (nat (sint trace_limit))"
  using passed_at_sorted [of "ProcessState now trace_limit" ts t] assms
  by (simp add: sampling_inv_def ProcessState_def room_def)

theorem sampling_exact_witness:
  "passed_at 7 [5, 7, 7, 7, 9] (ProcessState 0 2) = 2"
proof -
  have "passed_at 7 [5, 7, 7, 7, 9] (ProcessState 0 2) =
          min (count_list [5, 7, 7, 7, 9 :: i64] 7) (nat (sint (2 :: i64)))"
    by (rule sampling_exact) simp_all
  then show ?thesis by simp
qed

lemma check_run_constant:
  "ps_trace_limit s = - 1 \<Longrightarrow> check_run ts s = (replicate (length ts) False, s)"
  "ps_trace_limit s = 0 \<Longrightarrow> check_run ts s = (replicate (length ts) True, s)"
  by (induction ts) (auto simp: CheckTraceLimit_def Let_def)

text \<open>
  The two special limits: with -1 no request is ever dropped, with 0 every request is, and
  neither touches the counters.
\<close>

lemma sampling_special_limits:
  "check_run ts (ProcessState now (- 1)) = (replicate (length ts) False, ProcessState now (- 1)) \<and>
   check_run ts (ProcessState now 0) = (replicate (length ts) True, ProcessState now 0)"
  by (simp add: check_run_constant ProcessState_def)

section \<open>Unique ids\<close>

lemma take_ids_eq:
  "take_ids n s = (map (\<lambda>i. ps_uuid s + word_of_nat i) [0..<n], s\<lparr>ps_uuid := ps_uuid s + word_of_nat n\<rparr>)"
proof (induction n arbitrary: s)
  case (Suc n)
  have "[0..<Suc n] = 0 # map Suc [0..<n]" by (simp add: map_Suc_upt upt_conv_Cons)
  then show ?case by (simp add: GetUniqueId_def Suc.IH add.assoc del: upt_Suc)
qed simp

text \<open>
  C38: Between two resets the unique ids handed out are consecutive, so no id is repeated before
  the 64-bit counter wraps around.
\<close>

theorem unique_ids_distinct:
  assumes "n \<le> 2 ^ 64"
  shows "distinct (fst (take_ids n (ResetUniqueID s))) \<and>
         fst (take_ids n (ResetUniqueID s)) = map word_of_nat [0..<n]"
proof -
  have "inj_on (word_of_nat :: nat \<Rightarrow> i64) {0..<n}"
    using assms by (auto intro!: inj_onI simp: word_of_nat_eq_iff take_bit_nat_eq_self)
  then show ?thesis
    by (simp add: take_ids_eq ResetUniqueID_def distinct_map)
qed

theorem unique_ids_distinct_witness:
  "distinct (fst (take_ids 3 (ResetUniqueID (ProcessState 0 1)))) \<and>
   fst (take_ids 3 (ResetUniqueID (ProcessState 0 1))) = [0, 1, 2]"
  using unique_ids_distinct [of 3 "ProcessState 0 1"] by (simp add: upt_rec)

text \<open>
  The start time of the process is the first one the collector-agent announces; every later
  announcement leaves the state as it is.
\<close>

lemma start_time_first_wins:
  "GetStartTime (fold SetStartTime (t # ts) (ProcessState now trace_limit)) = t \<and>
   IsReady (fold SetStartTime (t # ts) (ProcessState now trace_limit))"
  using ps.first_wins [of "ProcessState now trace_limit" t ts]
  by (simp add: IsReady_def ProcessState_def)

end
