(* ===== verification/Span_Agent.thy ===== *)
theory Span_Agent
  imports Agent_Trace Trace_Encoding Layer_Streams Json_Roundtrip Proc_State Version
begin

text \<open>
  The agent (class \<^verbatim>\<open>Agent\<close> of \<^verbatim>\<open>common.cpp\<close>), the pool of its connections (\<^verbatim>\<open>SpanConnectionPool.h\<close>) and
  the functions of the C interface.  The state of the process is a \<open>world\<close>: the agent, if there is
  one, the pool of trace nodes and the current node of the calling thread, and the operating system.
  The clock readings a call makes are arguments.
\<close>

section \<open>Calls that may not return\<close>

type_synonym ('s, 'a) oproc = "'s \<Rightarrow> ((cpp_exn + 'a) \<times> 's) option"

definition bindO :: "('s, 'a) oproc \<Rightarrow> ('a \<Rightarrow> ('s, 'b) oproc) \<Rightarrow> ('s, 'b) oproc" where
  "bindO m f s =
     (case m s of
        None \<Rightarrow> None
      | Some (Inl e, s') \<Rightarrow> Some (Inl e, s')
      | Some (Inr x, s') \<Rightarrow> f x s')"

definition liftO :: "('s, 'a) proc \<Rightarrow> ('s, 'a) oproc" where
  "liftO m s = Some (m s)"

definition finallyO :: "('s, 'a) oproc \<Rightarrow> ('s \<Rightarrow> 's) \<Rightarrow> ('s, 'a) oproc" where
  "finallyO m d s = map_option (\<lambda>(r, s'). (r, d s')) (m s)"

section \<open>State\<close>

text \<open>What the process gets from the C library: floating-point conversions and memory.\<close>

record 'd platform =
  pf_ops :: "'d float_ops"
  pf_reader :: "'d float_reader"
  pf_bool :: "'d \<Rightarrow> bool"
  pf_uint :: "'d \<Rightarrow> u32 option"
  pf_malloc :: allocator

text \<open>The callbacks registered for messages: there is one, \<^verbatim>\<open>Agent::HandleHelloMsg\<close>.\<close>

datatype msg_handler = HelloMsg

record span_pool =
  sp_co_host :: string
  con_counter :: u32
  sp_pool :: "msg_handler trans_layer list"
  routeVec :: "(int \<times> msg_handler) list"

record agent =
  span_timeout :: int
  agent_type :: int
  connection_pool :: span_pool
  statePtr :: process_state
  rawSpanHandler :: "nat option"

text \<open>
  \<open>w_spans\<close> keeps the spans handed to the connections, and \<open>w_watched\<close> the calls of the function
  registered with \<^verbatim>\<open>register_span_handler\<close>, which is a number here.
\<close>

record 'd world =
  w_agent :: "agent option"
  w_pool :: "'d pool"
  w_current_id :: node_id
  w_kernel :: kernel
  w_spans :: "string list"
  w_watched :: "(nat \<times> string) list"

definition onPool :: "('d pool, 'a) proc \<Rightarrow> ('d world, 'a) oproc" where
  "onPool m w = (case m (w_pool w) of (r, p) \<Rightarrow> Some (r, w\<lparr>w_pool := p\<rparr>))"

definition updPool :: "('d pool \<Rightarrow> 'd pool) \<Rightarrow> 'd world \<Rightarrow> 'd world" where
  "updPool f w = w\<lparr>w_pool := f (w_pool w)\<rparr>"

text \<open>\<^verbatim>\<open>ReferNode\<close> and the scope of the wrapper it returns, on the whole state.\<close>

definition withTrace :: "node_id \<Rightarrow> (int \<Rightarrow> ('d world, 'a) oproc) \<Rightarrow> ('d world, 'a) oproc" where
  "withTrace nid body =
     bindO (onPool (getUsedNode nid)) (\<lambda>i.
     bindO (onPool (modifyP (upd_node i addReference))) (\<lambda>_.
     finallyO (body i) (updPool (upd_node i decReference))))"

section \<open>The pool of connections\<close>

definition createConnection :: "span_pool \<Rightarrow> cpp_exn + msg_handler trans_layer \<times> span_pool" where
  "createConnection sp =
     map_sum (\<lambda>e. e)
       (\<lambda>t. (fold (\<lambda>(ty, h). RegPeerMsgCallback ty h) (routeVec sp) t, sp\<lparr>con_counter := con_counter sp + 1\<rparr>))
       (new_TransLayer (sp_co_host sp))"

definition new_SpanConnectionPool :: "string \<Rightarrow> (int \<times> msg_handler) list \<Rightarrow> cpp_exn + span_pool" where
  "new_SpanConnectionPool host routes =
     map_sum (\<lambda>e. e) (\<lambda>(t, sp). sp\<lparr>sp_pool := [t]\<rparr>)
       (createConnection \<lparr>sp_co_host = host, con_counter = 0, sp_pool = [], routeVec = routes\<rparr>)"

definition get_connection :: "span_pool \<Rightarrow> cpp_exn + msg_handler trans_layer \<times> span_pool" where
  "get_connection sp =
     (case sp_pool sp of [] \<Rightarrow> createConnection sp | t # ts \<Rightarrow> Inr (t, sp\<lparr>sp_pool := ts\<rparr>))"

definition free_connection :: "msg_handler trans_layer \<Rightarrow> span_pool \<Rightarrow> span_pool" where
  "free_connection t sp = sp\<lparr>sp_pool := t # sp_pool sp\<rparr>"

section \<open>The agent\<close>

definition new_Agent :: "u64 \<Rightarrow> string \<Rightarrow> int \<Rightarrow> i64 \<Rightarrow> int \<Rightarrow> cpp_exn + agent" where
  "new_Agent now cl_host timeout_ms trace_limit ty =
     map_sum (\<lambda>e. e)
       (\<lambda>sp. \<lparr>span_timeout = sint (word_of_int timeout_ms :: u32), agent_type = ty, connection_pool = sp,
              statePtr = ProcessState now trace_limit, rawSpanHandler = None\<rparr>)
       (new_SpanConnectionPool cl_host [(0, HelloMsg)])"

text \<open>The settings of the reader of the agent.\<close>

definition agent_builder :: "'d jvalue" where
  "agent_builder = jset ''collectComments'' (BooleanValue False) (reader_setDefaults NullValue)"

text \<open>
  \<^verbatim>\<open>HandleHelloMsg\<close>.  A non-null version is compared with the lowest one supported; the time is
  taken over when it is a string.  Reading the message always ends, with or without a value.
\<close>

definition hello_version :: "'d float_ops \<Rightarrow> 'd jvalue \<Rightarrow> cpp_exn + bool" where
  "hello_version ops root =
     (case at_key ''version'' root of
        Inl e \<Rightarrow> Inl e
      | Inr v \<Rightarrow>
          if \<not> isNull v \<or> isString v
          then map_sum (\<lambda>e. e) (\<lambda>version. 0 \<le> compare_version (c_str version) ''v0.7.0'') (asString ops v)
          else Inr True)"

definition hello_time :: "'d float_ops \<Rightarrow> 'd jvalue \<Rightarrow> (process_state, int) proc" where
  "hello_time ops root s =
     (case at_key ''time'' root of
        Inl e \<Rightarrow> (Inl e, s)
      | Inr v \<Rightarrow>
          if \<not> isNull v \<and> isString v then
            (case asString ops v of
               Inl e \<Rightarrow> (Inl e, s)
             | Inr str \<Rightarrow>
                 (case stoll str of
                    Inl e \<Rightarrow> (Inl e, s)
                  | Inr t \<Rightarrow> (Inr 0, SetStartTime (word_of_int t) s)))
          else (Inr 0, s))"

definition HandleHelloMsg :: "'d platform \<Rightarrow> int \<Rightarrow> bytes \<Rightarrow> (process_state, int) proc" where
  "HandleHelloMsg pf ty buf s =
     (if IsReady s then (Inr 0, s)
      else
        (case the (parseFromStream (pf_ops pf) (pf_reader pf) (pf_bool pf) (pf_uint pf) agent_builder buf NullValue) of
           (Inl e, _) \<Rightarrow> (Inl e, s)
         | (Inr ok, root, _) \<Rightarrow>
             (case hello_version (pf_ops pf) root of
                Inl e \<Rightarrow> (Inl e, s)
              | Inr supported \<Rightarrow> if supported then hello_time (pf_ops pf) root s else (Inr (- 1), s))))"

definition agent_callbacks :: "'d platform \<Rightarrow> (msg_handler, process_state) callbacks" where
  "agent_callbacks pf =
     \<lparr>on_message = (\<lambda>h ty buf. case h of HelloMsg \<Rightarrow> HandleHelloMsg pf ty buf), on_status = (\<lambda>h st s. s)\<rparr>"

text \<open>
  Sending a buffer, by the sign of the timeout: with a limit, not at all, or one round of events.
\<close>

definition flush :: "('h, 'a) callbacks \<Rightarrow> int \<Rightarrow> (('h, 'a) net, unit) oproc" where
  "flush cb timeout n =
     (if 0 < timeout then SyncSendAll cb (word_of_int timeout) n
      else if timeout < 0 then Some (Inr (), n)
      else map_option (\<lambda>(r, n). (map_sum (\<lambda>e. e) (\<lambda>_. ()) r, n)) (PoolEventOnce cb 0 n))"

text \<open>
  \<^verbatim>\<open>TrySendSpan\<close>.  The connection is owned by the call: when a callback throws, it is destroyed with
  the call instead of going back to the pool.
\<close>

definition TrySendSpan :: "'d platform \<Rightarrow> string \<Rightarrow> int \<Rightarrow> agent \<Rightarrow> ('d world, unit) oproc" where
  "TrySendSpan pf span timeout ag w =
     (case get_connection (connection_pool ag) of
        Inl e \<Rightarrow> Some (Inl e, w)
      | Inr (t, sp) \<Rightarrow>
          (let t = snd (copy_into_send_buffer (pf_malloc pf) span t); w = w\<lparr>w_spans := w_spans w @ [span]\<rparr> in
           case flush (agent_callbacks pf) timeout \<lparr>layer = t, kern = w_kernel w, env = statePtr ag\<rparr> of
             None \<Rightarrow> None
           | Some (Inl e, n) \<Rightarrow>
               Some (Inl e, w\<lparr>w_agent := Some (ag\<lparr>connection_pool := sp, statePtr := env n\<rparr>),
                              w_kernel := delete_TransLayer (layer n) (kern n)\<rparr>)
           | Some (Inr _, n) \<Rightarrow>
               Some (Inr (), w\<lparr>w_agent := Some (ag\<lparr>connection_pool := free_connection (layer n) sp, statePtr := env n\<rparr>),
                               w_kernel := kern n\<rparr>)))"

definition call_watcher :: "agent \<Rightarrow> string \<Rightarrow> 'd world \<Rightarrow> 'd world" where
  "call_watcher ag span w =
     (case rawSpanHandler ag of
        None \<Rightarrow> w
      | Some h \<Rightarrow> w\<lparr>w_watched := w_watched w @ [(h, c_str span)]\<rparr>)"

definition encode_span :: "'d platform \<Rightarrow> (nat \<Rightarrow> u64) \<Rightarrow> int \<Rightarrow> ('d world, string) oproc" where
  "encode_span pf clk root w =
     (case EncodeTraceToJsonSpan clk root (w_pool w) of
        None \<Rightarrow> None
      | Some (Inl e, p) \<Rightarrow> Some (Inl e, w\<lparr>w_pool := p\<rparr>)
      | Some (Inr v, p) \<Rightarrow> Some (NodeTreeWriter_write (pf_ops pf) (pf_bool pf) (pf_uint pf) v, w\<lparr>w_pool := p\<rparr>))"

definition SendSpanTrace :: "'d platform \<Rightarrow> (nat \<Rightarrow> u64) \<Rightarrow> agent \<Rightarrow> node_id \<Rightarrow> int \<Rightarrow> ('d world, unit) oproc" where
  "SendSpanTrace pf clk ag root_id timeout =
     withTrace root_id (\<lambda>root.
     bindO (encode_span pf clk root) (\<lambda>span.
     bindO (TrySendSpan pf span timeout ag) (\<lambda>_.
     liftO (modifyP (call_watcher ag span)))))"

text \<open>The part of \<^verbatim>\<open>EndTrace\<close> inside the scope of the wrapper; \<open>Some\<close> parent: the early return.\<close>

definition end_node :: "'d platform \<Rightarrow> u64 \<Rightarrow> (nat \<Rightarrow> u64) \<Rightarrow> agent \<Rightarrow> node_id \<Rightarrow> int \<Rightarrow> int \<Rightarrow> ('d world, node_id option) oproc" where
  "end_node pf now clk ag nid timeout i w =
     (let n = node_at (w_pool w) i in
      if \<not> IsRootNode n then
        bindO (onPool (onNode i (EndTrace_node now))) (\<lambda>_. onPool (getP (\<lambda>p. Some (tn_parent_id (node_at p i))))) w
      else if GetStatus n = E_TRACE_PASS then
        bindO (onPool (onNode i (EndTrace_node now))) (\<lambda>_.
        bindO (SendSpanTrace pf clk ag nid (if timeout = 0 then span_timeout ag else timeout)) (\<lambda>_.
        liftO (returnP None))) w
      else Some (Inr None, w))"

definition EndTrace :: "'d platform \<Rightarrow> u64 \<Rightarrow> (nat \<Rightarrow> u64) \<Rightarrow> agent \<Rightarrow> node_id \<Rightarrow> int \<Rightarrow> ('d world, node_id) oproc" where
  "EndTrace pf now clk ag nid timeout =
     bindO (withTrace nid (end_node pf now clk ag nid timeout)) (\<lambda>parent.
     case parent of
       Some x \<Rightarrow> liftO (returnP x)
     | None \<Rightarrow> bindO (liftO (modifyP (updPool (FreeNodeTree nid)))) (\<lambda>_. liftO (returnP E_ROOT_NODE)))"

definition GetNodePoolStatus :: "string \<Rightarrow> 'd world \<Rightarrow> 'd jvalue" where
  "GetNodePoolStatus version w = Status_value version (w_pool w)"

end
