(* ===== verification/Agent_Api.thy ===== *)
theory Agent_Api
  imports Span_Agent
begin

text \<open>
  The functions of the C interface (\<^verbatim>\<open>pinpoint/common.h\<close>, defined at the end of \<^verbatim>\<open>common.cpp\<close>).  Each of
  them does nothing without an agent and turns every exception into a default value.
\<close>

definition guarded :: "'r \<Rightarrow> (agent \<Rightarrow> ('d world, 'r) oproc) \<Rightarrow> 'd world \<Rightarrow> ('r \<times> 'd world) option" where
  "guarded dflt m w =
     (case w_agent w of
        None \<Rightarrow> Some (dflt, w)
      | Some ag \<Rightarrow>
          (case m ag w of
             None \<Rightarrow> None
           | Some (Inl _, w') \<Rightarrow> Some (dflt, w')
           | Some (Inr x, w') \<Rightarrow> Some (x, w')))"

section \<open>The agent as a whole\<close>

definition pinpoint_set_agent :: "u64 \<Rightarrow> string \<Rightarrow> int \<Rightarrow> i64 \<Rightarrow> int \<Rightarrow> ('d world, bool) proc" where
  "pinpoint_set_agent now address timeout_ms trace_limit ty w =
     (case w_agent w of
        Some _ \<Rightarrow> (Inr False, w)
      | None \<Rightarrow>
          (case new_Agent now address timeout_ms trace_limit ty of
             Inl e \<Rightarrow> (Inl e, w)
           | Inr ag \<Rightarrow> (Inr True, w\<lparr>w_agent := Some ag\<rparr>)))"

text \<open>The destructor of the agent closes its connections; the nodes belong to the thread and stay.\<close>

definition pinpoint_stop_agent :: "'d world \<Rightarrow> 'd world" where
  "pinpoint_stop_agent w =
     (case w_agent w of
        None \<Rightarrow> w
      | Some ag \<Rightarrow> w\<lparr>w_agent := None, w_kernel := fold delete_TransLayer (sp_pool (connection_pool ag)) (w_kernel w)\<rparr>)"

definition pinpoint_get_per_thread_id :: "'d world \<Rightarrow> node_id" where
  "pinpoint_get_per_thread_id w = w_current_id w"

definition pinpoint_update_per_thread_id :: "node_id \<Rightarrow> 'd world \<Rightarrow> 'd world" where
  "pinpoint_update_per_thread_id nid w = w\<lparr>w_current_id := nid\<rparr>"

section \<open>Traces\<close>

definition pinpoint_start_traceV1 :: "u64 \<Rightarrow> node_id \<Rightarrow> string list \<Rightarrow> 'd world \<Rightarrow> (node_id \<times> 'd world) option" where
  "pinpoint_start_traceV1 now parentId opts =
     guarded E_INVALID_NODE (\<lambda>ag. onPool (StartTrace (agent_type ag) now parentId opts))"

definition pinpoint_start_trace :: "u64 \<Rightarrow> node_id \<Rightarrow> 'd world \<Rightarrow> (node_id \<times> 'd world) option" where
  "pinpoint_start_trace now parentId = pinpoint_start_traceV1 now parentId []"

definition pinpoint_end_trace :: "'d platform \<Rightarrow> u64 \<Rightarrow> (nat \<Rightarrow> u64) \<Rightarrow> node_id \<Rightarrow> 'd world \<Rightarrow> (node_id \<times> 'd world) option" where
  "pinpoint_end_trace pf now clk nid = guarded E_INVALID_NODE (\<lambda>ag. EndTrace pf now clk ag nid 0)"

text \<open>The loop of \<^verbatim>\<open>pinpoint_force_end_trace\<close>; round \<open>k\<close> reads the clock \<open>clks k\<close>.\<close>

partial_function (option) force_loop ::
  "'d platform \<Rightarrow> (nat \<Rightarrow> nat \<Rightarrow> u64) \<Rightarrow> nat \<Rightarrow> int \<Rightarrow> node_id \<Rightarrow> 'd world \<Rightarrow> ((cpp_exn + unit) \<times> 'd world) option" where
  "force_loop pf clks k timeout nid w =
     (if nid = E_ROOT_NODE then Some (Inr (), w)
      else
        (case EndTrace pf (clks k 0) (\<lambda>i. clks k (Suc i)) (the (w_agent w)) nid timeout w of
           None \<Rightarrow> None
         | Some (Inl e, w') \<Rightarrow> Some (Inl e, w')
         | Some (Inr nid', w') \<Rightarrow>
             if nid' = E_INVALID_NODE then Some (Inr (), w') else force_loop pf clks (Suc k) timeout nid' w'))"

definition pinpoint_force_end_trace ::
  "'d platform \<Rightarrow> (nat \<Rightarrow> nat \<Rightarrow> u64) \<Rightarrow> node_id \<Rightarrow> int \<Rightarrow> 'd world \<Rightarrow> (node_id \<times> 'd world) option" where
  "pinpoint_force_end_trace pf clks nid timeout =
     guarded E_INVALID_NODE (\<lambda>ag. bindO (force_loop pf clks 0 timeout nid) (\<lambda>_. liftO (returnP E_ROOT_NODE)))"

definition pinpoint_trace_is_root :: "node_id \<Rightarrow> 'd world \<Rightarrow> (int \<times> 'd world) option" where
  "pinpoint_trace_is_root nid =
     guarded (- 1) (\<lambda>ag.
       if nid = E_ROOT_NODE then liftO (returnP (- 1))
       else bindO (onPool (IsRootTrace nid)) (\<lambda>b. liftO (returnP (if b then 1 else 0))))"

definition pinpoint_get_depth :: "node_id \<Rightarrow> 'd world \<Rightarrow> (int \<times> 'd world) option" where
  "pinpoint_get_depth nid =
     guarded (- 1) (\<lambda>ag. if nid = E_ROOT_NODE then liftO (returnP (- 1)) else onPool (GetDepth nid))"

definition pinpoint_get_sequence_id :: "node_id \<Rightarrow> 'd world \<Rightarrow> (int \<times> 'd world) option" where
  "pinpoint_get_sequence_id nid = guarded (- 1) (\<lambda>ag. onPool (GetSequenceId nid))"

definition change_trace_status :: "node_id \<Rightarrow> int \<Rightarrow> 'd world \<Rightarrow> (int \<times> 'd world) option" where
  "change_trace_status nid status = guarded 0 (\<lambda>ag. onPool (ChangeTraceStatus nid status))"

definition mark_current_trace_status :: "node_id \<Rightarrow> int \<Rightarrow> 'd world \<Rightarrow> (int \<times> 'd world) option" where
  "mark_current_trace_status nid status = change_trace_status nid status"

section \<open>Recording\<close>

definition pinpoint_add_clues :: "node_id \<Rightarrow> string \<Rightarrow> string \<Rightarrow> int \<Rightarrow> 'd world \<Rightarrow> (unit \<times> 'd world) option" where
  "pinpoint_add_clues nid key val flag = guarded () (\<lambda>ag. onPool (AnnotateTrace_V2 nid key val flag))"

definition pinpoint_add_clue :: "node_id \<Rightarrow> string \<Rightarrow> string \<Rightarrow> int \<Rightarrow> 'd world \<Rightarrow> (unit \<times> 'd world) option" where
  "pinpoint_add_clue nid key val flag = guarded () (\<lambda>ag. onPool (AnnotateTrace_V1 nid key val flag))"

definition pinpoint_add_exception :: "u64 \<Rightarrow> node_id \<Rightarrow> string \<Rightarrow> 'd world \<Rightarrow> (unit \<times> 'd world) option" where
  "pinpoint_add_exception now nid exp = guarded () (\<lambda>ag. onPool (AnnotateExceptionTrace now nid exp))"

definition pinpoint_set_context_key :: "node_id \<Rightarrow> string \<Rightarrow> string \<Rightarrow> 'd world \<Rightarrow> (unit \<times> 'd world) option" where
  "pinpoint_set_context_key nid key val = guarded () (\<lambda>ag. onPool (AddTraceContext nid key val))"

definition pinpoint_get_context_key :: "node_id \<Rightarrow> string \<Rightarrow> bool \<Rightarrow> int \<Rightarrow> 'd world \<Rightarrow> ((int \<times> string option) \<times> 'd world) option" where
  "pinpoint_get_context_key nid key has_buf buf_size =
     guarded (0, None) (\<lambda>ag. onPool (GetTraceContext nid key has_buf buf_size))"

definition catch_error :: "node_id \<Rightarrow> string \<Rightarrow> string \<Rightarrow> u32 \<Rightarrow> 'd world \<Rightarrow> (unit \<times> 'd world) option" where
  "catch_error nid msg error_filename error_lineno =
     guarded () (\<lambda>ag. onPool (AnnotateErrorTrace nid msg error_filename error_lineno))"

definition pinpoint_set_async_ctx :: "node_id \<Rightarrow> int \<Rightarrow> int \<Rightarrow> 'd world \<Rightarrow> (unit \<times> 'd world) option" where
  "pinpoint_set_async_ctx nid async_node_id node_sequence =
     guarded () (\<lambda>ag. onPool (SetAsyncContext nid async_node_id node_sequence))"

section \<open>The state of the process\<close>

definition onState :: "(process_state \<Rightarrow> 'r \<times> process_state) \<Rightarrow> agent \<Rightarrow> ('d world, 'r) oproc" where
  "onState f ag w = (case f (statePtr ag) of (r, s) \<Rightarrow> Some (Inr r, w\<lparr>w_agent := Some (ag\<lparr>statePtr := s\<rparr>)\<rparr>))"

definition check_trace_limit :: "i64 \<Rightarrow> i64 \<Rightarrow> 'd world \<Rightarrow> (int \<times> 'd world) option" where
  "check_trace_limit clock timestamp =
     guarded 0 (onState (\<lambda>s. case CheckTraceLimit clock timestamp s of (b, s) \<Rightarrow> (if b then 1 else 0, s)))"

definition generate_unique_id :: "'d world \<Rightarrow> (i64 \<times> 'd world) option" where
  "generate_unique_id = guarded 0 (onState GetUniqueId)"

definition reset_unique_id :: "'d world \<Rightarrow> (unit \<times> 'd world) option" where
  "reset_unique_id = guarded () (onState (\<lambda>s. ((), ResetUniqueID s)))"

definition pinpoint_start_time :: "u64 \<Rightarrow> 'd world \<Rightarrow> u64" where
  "pinpoint_start_time get_unix_time_ms w =
     (case w_agent w of
        Some ag \<Rightarrow> if GetStartTime (statePtr ag) \<noteq> 0 then GetStartTime (statePtr ag) else get_unix_time_ms
      | None \<Rightarrow> get_unix_time_ms)"

definition register_span_handler :: "nat option \<Rightarrow> 'd world \<Rightarrow> (unit \<times> 'd world) option" where
  "register_span_handler h = guarded () (\<lambda>ag w. Some (Inr (), w\<lparr>w_agent := Some (ag\<lparr>rawSpanHandler := h\<rparr>)\<rparr>))"

section \<open>Programs that use the interface\<close>

text \<open>The calls that may change the state, and sequences of them.\<close>

datatype api_call =
    SetAgent u64 string int i64 int
  | StopAgent
  | UpdateThreadId node_id
  | Start u64 node_id "string list"
  | End u64 "nat \<Rightarrow> u64" node_id
  | ForceEnd "nat \<Rightarrow> nat \<Rightarrow> u64" node_id int
  | AskRoot node_id
  | AskDepth node_id
  | AskSequence node_id
  | ChangeStatus node_id int
  | AddClues node_id string string int
  | AddClue node_id string string int
  | AddException u64 node_id string
  | SetContext node_id string string
  | GetContext node_id string bool int
  | CatchError node_id string string u32
  | SetAsync node_id int int
  | CheckLimit i64 i64
  | UniqueId
  | ResetId
  | RegisterHandler "nat option"

definition effect :: "('r \<times> 'd world) option \<Rightarrow> 'd world option" where
  "effect = map_option snd"

primrec api :: "'d platform \<Rightarrow> api_call \<Rightarrow> 'd world \<Rightarrow> 'd world option" where
  "api pf (SetAgent now host timeout limit ty) w = Some (snd (pinpoint_set_agent now host timeout limit ty w))"
| "api pf StopAgent w = Some (pinpoint_stop_agent w)"
| "api pf (UpdateThreadId nid) w = Some (pinpoint_update_per_thread_id nid w)"
| "api pf (Start now par opts) w = effect (pinpoint_start_traceV1 now par opts w)"
| "api pf (End now clk nid) w = effect (pinpoint_end_trace pf now clk nid w)"
| "api pf (ForceEnd clks nid timeout) w = effect (pinpoint_force_end_trace pf clks nid timeout w)"
| "api pf (AskRoot nid) w = effect (pinpoint_trace_is_root nid w)"
| "api pf (AskDepth nid) w = effect (pinpoint_get_depth nid w)"
| "api pf (AskSequence nid) w = effect (pinpoint_get_sequence_id nid w)"
| "api pf (ChangeStatus nid st) w = effect (change_trace_status nid st w)"
| "api pf (AddClues nid key val flag) w = effect (pinpoint_add_clues nid key val flag w)"
| "api pf (AddClue nid key val flag) w = effect (pinpoint_add_clue nid key val flag w)"
| "api pf (AddException now nid msg) w = effect (pinpoint_add_exception now nid msg w)"
| "api pf (SetContext nid key val) w = effect (pinpoint_set_context_key nid key val w)"
| "api pf (GetContext nid key buf n) w = effect (pinpoint_get_context_key nid key buf n w)"
| "api pf (CatchError nid msg file line) w = effect (catch_error nid msg file line w)"
| "api pf (SetAsync nid a b) w = effect (pinpoint_set_async_ctx nid a b w)"
| "api pf (CheckLimit clock ts) w = effect (check_trace_limit clock ts w)"
| "api pf UniqueId w = effect (generate_unique_id w)"
| "api pf ResetId w = effect (reset_unique_id w)"
| "api pf (RegisterHandler h) w = effect (register_span_handler h w)"

primrec api_run :: "'d platform \<Rightarrow> api_call list \<Rightarrow> 'd world \<Rightarrow> 'd world option" where
  "api_run pf [] w = Some w"
| "api_run pf (c # calls) w = (case api pf c w of None \<Rightarrow> None | Some w' \<Rightarrow> api_run pf calls w')"

text \<open>The process when its first thread starts.\<close>

definition start_world :: "kernel \<Rightarrow> 'd world" where
  "start_world k =
     \<lparr>w_agent = None, w_pool = PoolManager, w_current_id = E_ROOT_NODE, w_kernel = k, w_spans = [], w_watched = []\<rparr>"

end
