(* ===== verification/Agent_Inv.thy ===== *)
theory Agent_Inv
  imports Agent_Api
begin

text \<open>
  The invariant of the process and what every call of the interface does to it: the nodes of the
  thread form well-formed traces that nobody refers to between two calls, and the connections of the
  agent are in order.
\<close>

section \<open>Connections\<close>

lemma new_TransLayer_ok: "\<exists>t. new_TransLayer host = Inr t \<and> layer_inv t"
  using new_Chunks_inv [of "10 * 1024 * 1024" "40 * 1024"]
  by (auto simp: new_TransLayer_def new_Chunks_def layer_inv_def content_def)

lemma createConnection_ok:
  "\<exists>t. createConnection sp = Inr (t, sp\<lparr>con_counter := con_counter sp + 1\<rparr>) \<and> layer_inv t"
proof -
  have reg: "layer_inv (RegPeerMsgCallback ty h t) = layer_inv t" for ty h and t :: "msg_handler trans_layer"
    by (simp add: RegPeerMsgCallback_def layer_inv_def)
  have "layer_inv (fold (\<lambda>(ty, h). RegPeerMsgCallback ty h) rs t) = layer_inv t" for rs and t :: "msg_handler trans_layer"
    by (induction rs arbitrary: t) (simp_all add: split_beta reg)
  moreover obtain t :: "msg_handler trans_layer" where "new_TransLayer (sp_co_host sp) = Inr t" "layer_inv t"
    using new_TransLayer_ok by blast
  ultimately show ?thesis by (simp add: createConnection_def)
qed

definition connections_ok :: "agent \<Rightarrow> bool" where
  "connections_ok ag \<longleftrightarrow> list_all layer_inv (sp_pool (connection_pool ag))"

lemma get_connection_ok:
  "\<exists>t sp. get_connection (connection_pool ag) = Inr (t, sp) \<and>
     (connections_ok ag \<longrightarrow> layer_inv t \<and> list_all layer_inv (sp_pool sp))"
  using createConnection_ok [of "connection_pool ag"]
  by (cases "sp_pool (connection_pool ag)") (auto simp: get_connection_def connections_ok_def)

lemma new_Agent_ok: "\<exists>ag. new_Agent now host timeout limit ty = Inr ag \<and> connections_ok ag"
  using createConnection_ok [of "\<lparr>sp_co_host = host, con_counter = 0, sp_pool = [], routeVec = [(0, HelloMsg)]\<rparr>"]
  by (auto simp: new_Agent_def new_SpanConnectionPool_def connections_ok_def)

lemma flush_ok:
  "\<exists>r n'. flush cb timeout n = Some (r, n') \<and> (layer_inv (layer n) \<longrightarrow> layer_inv (layer n'))"
proof -
  have "\<exists>r n'. PoolEventOnce cb 0 n = Some (r, n') \<and> (layer_inv (layer n) \<longrightarrow> layer_inv (layer n'))"
    using PoolEventOnce_returns [of cb 0 n] PoolEventOnce_spec [of n cb 0] by (auto simp: event_spec_def)
  moreover have "\<exists>r n'. SyncSendAll cb t n = Some (r, n') \<and> (layer_inv (layer n) \<longrightarrow> layer_inv (layer n'))" for t
    using sync_loop_returns [of cb t 20 n] sync_loop_spec [of n cb t 20] by (auto simp: SyncSendAll_def)
  ultimately show ?thesis by (fastforce simp: flush_def)
qed

section \<open>What a call keeps\<close>

text \<open>The connections are in order as long as no span of a gigabyte has been sent.\<close>

definition net_inv :: "'d world \<Rightarrow> bool" where
  "net_inv w \<longleftrightarrow> (\<forall>s \<in> set (w_spans w). length s + 12 < 2 ^ 30) \<longrightarrow>
     (\<forall>ag. w_agent w = Some ag \<longrightarrow> connections_ok ag)"

text \<open>
  A step that leaves the traces of the thread as they are: nodes, references and connections are kept.
\<close>

definition still :: "'d world \<Rightarrow> 'd world \<Rightarrow> bool" where
  "still w w' \<longleftrightarrow> frame (w_pool w) (w_pool w') \<and> (net_inv w \<longrightarrow> net_inv w') \<and>
     (w_agent w = None \<longleftrightarrow> w_agent w' = None)"

lemma still_trans: "still w w1 \<Longrightarrow> still w1 w2 \<Longrightarrow> still w w2"
  using frame_trans by (auto simp: still_def)

lemma still_pool: "frame (w_pool w) p \<Longrightarrow> still w (w\<lparr>w_pool := p\<rparr>)"
  by (simp add: still_def net_inv_def)

lemma still_refl: "pool_shape (w_pool w) \<Longrightarrow> still w w"
  by (simp add: still_def frame_refl)

lemma watcher_still:
  assumes "pool_shape (w_pool w)"
  shows "still w (call_watcher ag span w)" and "w_spans (call_watcher ag span w) = w_spans w"
proof -
  have f: "w_pool (call_watcher ag span w) = w_pool w" "w_agent (call_watcher ag span w) = w_agent w"
      "w_spans (call_watcher ag span w) = w_spans w"
    by (simp_all add: call_watcher_def split: option.splits)
  show "still w (call_watcher ag span w)" using assms by (simp add: still_def net_inv_def f frame_refl)
  show "w_spans (call_watcher ag span w) = w_spans w" by (rule f)
qed

lemma TrySendSpan_still:
  assumes "pool_shape (w_pool w)" and "w_agent w = Some ag"
  shows "\<exists>r w'. TrySendSpan pf span timeout ag w = Some (r, w') \<and> still w w' \<and> w_pool w' = w_pool w \<and>
    w_spans w' = w_spans w @ [span] \<and> w_watched w' = w_watched w"
proof -
  obtain t sp where g: "get_connection (connection_pool ag) = Inr (t, sp)"
      "connections_ok ag \<longrightarrow> layer_inv t \<and> list_all layer_inv (sp_pool sp)"
    using get_connection_ok by blast
  define t' where "t' = snd (copy_into_send_buffer (pf_malloc pf) span t)"
  obtain r n' where f: "flush (agent_callbacks pf) timeout \<lparr>layer = t', kern = w_kernel w, env = statePtr ag\<rparr> = Some (r, n')"
      "layer_inv t' \<longrightarrow> layer_inv (layer n')"
    using flush_ok [of "agent_callbacks pf" timeout "\<lparr>layer = t', kern = w_kernel w, env = statePtr ag\<rparr>"] by auto
  have ok: "layer_inv (layer n')" if "connections_ok ag" "length span + 12 < 2 ^ 30"
    using that g(2) f(2) copy_into_send_buffer_inv [of t span "pf_malloc pf"] by (simp add: t'_def)
  show ?thesis
    using g f(1) ok assms frame_refl
    by (cases r) (auto simp: TrySendSpan_def Let_def still_def net_inv_def connections_ok_def free_connection_def t'_def [symmetric])
qed


section \<open>Ending a trace\<close>

lemma withTrace_dead: "\<not> alive (w_pool w) nid \<Longrightarrow> withTrace nid body w = Some (Inl Out_of_range, w)"
  by (simp add: withTrace_def bindO_def onPool_def getUsedNode_cases)

lemma withTrace_alive:
  assumes "alive (w_pool w) nid"
  shows "withTrace nid body w =
    map_option (\<lambda>(r, w'). (r, updPool (upd_node (nid - 1) decReference) w')) (body (nid - 1) (updPool (upd_node (nid - 1) addReference) w))"
  using assms by (simp add: withTrace_def bindO_def onPool_def getUsedNode_cases finallyO_def updPool_def)

lemma updPool_fields [simp]:
  "w_pool (updPool f w) = f (w_pool w)" "w_agent (updPool f w) = w_agent w" "w_spans (updPool f w) = w_spans w"
  "w_watched (updPool f w) = w_watched w" "w_kernel (updPool f w) = w_kernel w"
  by (simp_all add: updPool_def)

lemma net_inv_updPool [simp]: "net_inv (updPool f w) = net_inv w"
  by (simp add: net_inv_def)

lemma still_scope:
  assumes "pool_shape (w_pool w)" and "alive (w_pool w) nid" and "still (updPool (upd_node (nid - 1) addReference) w) w'"
  shows "still w (updPool (upd_node (nid - 1) decReference) w')"
  using assms frame_scope [OF assms(1) alive_in_range [OF assms(2)], of "w_pool w'"] by (simp add: still_def)

text \<open>Inside the scope of a wrapper the pool is well formed, with the same traces.\<close>

lemma scope_inv:
  assumes "pool_inv p" and "alive p nid"
  shows "pool_inv (upd_node (nid - 1) addReference p)" and "pool_shape p"
    and "trace_of (upd_node (nid - 1) addReference p) r es = trace_of p r es"
    and "alive (upd_node (nid - 1) addReference p) x = alive p x"
  using assms refs_inv [of p "nid - 1" addReference] alive_in_range [OF assms(2)]
  by (auto simp: pool_inv_def indexInUsedVec_def)

lemma scope_node:
  assumes "pool_shape p" and "alive p nid"
  shows "nd (upd_node (nid - 1) addReference p) nid = addReference (nd p nid)"
  using assms alive_in_range [OF assms(2)] by simp

lemma encode_span_ok:
  assumes inv: "pool_inv (w_pool w)" and t: "trace_of (w_pool w) r es"
  shows "\<exists>x p'. encode_span pf clk (r - 1) w = Some (x, w\<lparr>w_pool := p'\<rparr>) \<and> frame (w_pool w) p' \<and>
    EncodeTraceToJsonSpan clk (r - 1) (w_pool w) = Some (map_sum (\<lambda>e. e) (\<lambda>_. tn_value (nd p' r)) x, p') \<and>
    (if elements (recorded ''event'' (nd (w_pool w) r)) = None \<and> es \<noteq> [] then x = Inl Logic_error
     else x = Inr (compact (pf_ops pf) (tn_value (nd p' r))))"
  using encode_returns [OF inv t, of clk]
  by (auto simp: encode_span_def NodeTreeWriter_write_compact split: if_splits)

text \<open>What a trace needs to be encoded: its root has no string or number under the key of the events.\<close>

abbreviation encodable :: "'d pool \<Rightarrow> node_id \<Rightarrow> node_id list \<Rightarrow> bool" where
  "encodable p r es \<equiv> elements (recorded ''event'' (nd p r)) \<noteq> None \<or> es = []"

lemma recorded_addReference [simp]: "recorded key (addReference n) = recorded key n"
  by (simp add: recorded_def addReference_def)

lemma SendSpanTrace_ok:
  assumes inv: "pool_inv (w_pool w)" and t: "trace_of (w_pool w) r es" and ag: "w_agent w = Some ag"
  defines "q \<equiv> upd_node (r - 1) addReference (w_pool w)"
  shows "\<exists>x w'. SendSpanTrace pf clk ag r timeout w = Some (x, w') \<and> still w w' \<and>
    (if encodable (w_pool w) r es
     then (\<exists>v p'. EncodeTraceToJsonSpan clk (r - 1) q = Some (Inr v, p') \<and> w_spans w' = w_spans w @ [compact (pf_ops pf) v])
     else x = Inl Logic_error \<and> w_spans w' = w_spans w)"
proof -
  have al: "alive (w_pool w) r" using t by (simp add: trace_of_def)
  note sc = scope_inv [OF inv al]
  define w1 where "w1 = updPool (upd_node (r - 1) addReference) w"
  have w1: "pool_inv (w_pool w1)" "trace_of (w_pool w1) r es" "w_pool w1 = q" "w_agent w1 = Some ag" "w_spans w1 = w_spans w"
    using sc t ag by (simp_all add: w1_def q_def)
  have ev: "recorded ''event'' (nd (w_pool w1) r) = recorded ''event'' (nd (w_pool w) r)"
    using scope_node [OF sc(2) al] by (simp add: w1_def)
  obtain x p' where e: "encode_span pf clk (r - 1) w1 = Some (x, w1\<lparr>w_pool := p'\<rparr>)" "frame (w_pool w1) p'"
      "EncodeTraceToJsonSpan clk (r - 1) q = Some (map_sum (\<lambda>e. e) (\<lambda>_. tn_value (nd p' r)) x, p')"
      "if encodable (w_pool w) r es then x = Inr (compact (pf_ops pf) (tn_value (nd p' r))) else x = Inl Logic_error"
    using encode_span_ok [OF w1(1,2), of pf clk] ev w1(3) by (auto split: if_splits)
  define w2 where "w2 = w1\<lparr>w_pool := p'\<rparr>"
  have s2: "still w1 w2" using e(2) still_pool by (simp add: w2_def)
  have run: "SendSpanTrace pf clk ag r timeout w =
    map_option (\<lambda>(r', w'). (r', updPool (upd_node (r - 1) decReference) w'))
      (case x of Inl y \<Rightarrow> Some (Inl y, w2)
       | Inr span \<Rightarrow> bindO (TrySendSpan pf span timeout ag) (\<lambda>_. liftO (modifyP (call_watcher ag span))) w2)"
    unfolding SendSpanTrace_def withTrace_alive [OF al] w1_def [symmetric]
    by (simp add: bindO_def e(1) w2_def split: sum.splits)
  show ?thesis
  proof (cases "encodable (w_pool w) r es")
    case False
    then have "SendSpanTrace pf clk ag r timeout w = Some (Inl Logic_error, updPool (upd_node (r - 1) decReference) w2)"
      using run e(4) by simp
    then show ?thesis using False still_scope [OF sc(2) al, of w2] s2 by (simp add: w1_def w2_def)
  next
    case True
    define span where "span = compact (pf_ops pf) (tn_value (nd p' r))"
    have x: "x = Inr span" using True e(4) by (simp add: span_def)
    obtain y w3 where y: "TrySendSpan pf span timeout ag w2 = Some (y, w3)" "still w2 w3" "w_spans w3 = w_spans w @ [span]"
      using TrySendSpan_still [of w2 ag pf span timeout] frame_shape [OF e(2)] w1 by (auto simp: w2_def)
    define w4 where "w4 = (case y of Inl _ \<Rightarrow> w3 | Inr _ \<Rightarrow> call_watcher ag span w3)"
    have "pool_shape (w_pool w3)" using y(2) frame_shape by (auto simp: still_def)
    then have s4: "still w3 w4" "w_spans w4 = w_spans w3"
      using watcher_still [of w3 ag span] still_refl [of w3] by (cases y; simp add: w4_def)+
    have "SendSpanTrace pf clk ag r timeout w = Some (map_sum (\<lambda>e. e) (\<lambda>_. ()) y, updPool (upd_node (r - 1) decReference) w4)"
      unfolding run x using y(1) by (simp add: bindO_def liftO_def w4_def split: sum.splits)
    moreover have "still w (updPool (upd_node (r - 1) decReference) w4)"
      using still_trans [OF still_trans [OF s2 y(2)] s4(1)] by (intro still_scope [OF sc(2) al]) (simp add: w1_def)
    ultimately show ?thesis using True e(3) x s4(2) y(3) by (auto simp: span_def)
  qed
qed


lemma still_EndTrace_node:
  assumes "pool_inv p" and "alive p nid"
  shows "\<exists>p'. onNode (nid - 1) (EndTrace_node now) p = (Inr (), p') \<and> frame p p' \<and>
    nd p' nid = snd (EndTrace_node now (nd p nid)) \<and> (\<forall>x. alive p x \<longrightarrow> x \<noteq> nid \<longrightarrow> nd p' x = nd p x)"
proof -
  have s: "pool_shape p" "in_range (nid - 1) p" "node_ok (nd p nid)"
    using assms alive_in_range [OF assms(2)] by (auto simp: pool_inv_def)
  have eq: "onNode (nid - 1) (EndTrace_node now) p = (Inr (), upd_node (nid - 1) (\<lambda>_. snd (EndTrace_node now (nd p nid))) p)"
    using EndTrace_node_recorded(1) [OF s(3), of now] by (simp add: onNode_def split_beta)
  have "frame p (snd (onNode (nid - 1) (EndTrace_node now) p))"
    using s EndTrace_node_ok [OF s(3), of now] by (intro frame_onNode) simp_all
  moreover have "nd (upd_node (nid - 1) f p) x = nd p x" if "alive p x" "x \<noteq> nid" for x f
    using that s alive_pos [OF that(1)] by (simp add: node_at_upd)
  ultimately show ?thesis using eq s by simp
qed

lemma EndTrace_dead: "\<not> alive (w_pool w) nid \<Longrightarrow> EndTrace pf now clk ag nid timeout w = Some (Inl Out_of_range, w)"
  by (simp add: EndTrace_def bindO_def withTrace_dead)

lemma EndTrace_event:
  assumes inv: "pool_inv (w_pool w)" and t: "trace_of (w_pool w) r es" and nid: "nid \<in> set es"
  shows "\<exists>w'. EndTrace pf now clk ag nid timeout w = Some (Inr (tn_parent_id (nd (w_pool w) nid)), w') \<and> still w w' \<and>
    w_agent w' = w_agent w \<and> w_spans w' = w_spans w \<and> w_current_id w' = w_current_id w"
proof -
  have al: "alive (w_pool w) nid" using t nid by (auto simp: trace_of_def)
  note sc = scope_inv [OF inv al]
  define p1 where "p1 = upd_node (nid - 1) addReference (w_pool w)"
  have n1: "nd p1 nid = addReference (nd (w_pool w) nid)" using scope_node [OF sc(2) al] by (simp add: p1_def)
  have "nid \<noteq> r" "tn_id (nd (w_pool w) nid) = nid" "tn_root_id (nd (w_pool w) nid) = r"
    using t nid by (auto simp: trace_of_def)
  then have nr: "\<not> IsRootNode (nd p1 nid)" using n1 by (simp add: IsRootNode_def addReference_def)
  obtain p2 where p2: "onNode (nid - 1) (EndTrace_node now) p1 = (Inr (), p2)" "frame p1 p2" "nd p2 nid = snd (EndTrace_node now (nd p1 nid))"
    using still_EndTrace_node [OF sc(1), where now = now] sc(4) al by (auto simp: p1_def)
  have "tn_parent_id (nd p2 nid) = tn_parent_id (nd (w_pool w) nid)"
    using frame_node(1) [OF p2(2), of "nid - 1"] n1 alive_in_range [of nid p1] sc(4) al
    by (simp add: place_def p1_def addReference_def)
  then have run: "EndTrace pf now clk ag nid timeout w =
      Some (Inr (tn_parent_id (nd (w_pool w) nid)), updPool (upd_node (nid - 1) decReference) (w\<lparr>w_pool := p2\<rparr>))"
    using nr p2(1) by (simp add: EndTrace_def bindO_def withTrace_alive [OF al] end_node_def onPool_def liftO_def updPool_def
        p1_def [symmetric])
  have "still w (updPool (upd_node (nid - 1) decReference) (w\<lparr>w_pool := p2\<rparr>))"
    using p2(2) still_pool [of "updPool (upd_node (nid - 1) addReference) w" p2]
    by (intro still_scope [OF sc(2) al]) (simp add: p1_def updPool_def)
  then show ?thesis using run by (simp add: updPool_def)
qed

lemma EndTrace_root:
  assumes inv: "pool_inv (w_pool w)" and t: "trace_of (w_pool w) r es" and ag: "w_agent w = Some ag"
  defines "pass \<equiv> GetStatus (nd (w_pool w) r) = E_TRACE_PASS"
  shows "\<exists>x w1. EndTrace pf now clk ag r timeout w =
      Some (map_sum (\<lambda>e. e) (\<lambda>_. E_ROOT_NODE) x, if isl x then w1 else updPool (FreeNodeTree r) w1) \<and> still w w1 \<and>
    (if \<not> pass then x = Inr () \<and> w_spans w1 = w_spans w
     else if encodable (w_pool w) r es then \<exists>v. span_value now clk (w_pool w) r es v \<and> w_spans w1 = w_spans w @ [compact (pf_ops pf) v]
     else x = Inl Logic_error \<and> w_spans w1 = w_spans w)"
proof -
  have al: "alive (w_pool w) r" using t by (simp add: trace_of_def)
  note sc = scope_inv [OF inv al]
  define p1 where "p1 = upd_node (r - 1) addReference (w_pool w)"
  define w0 where "w0 = updPool (upd_node (r - 1) addReference) w"
  have w0: "w_pool w0 = p1" "w_agent w0 = Some ag" "w_spans w0 = w_spans w" using ag by (simp_all add: w0_def p1_def)
  have n1: "nd p1 r = addReference (nd (w_pool w) r)" using scope_node [OF sc(2) al] by (simp add: p1_def)
  have root: "IsRootNode (nd p1 r)" "GetStatus (nd p1 r) = GetStatus (nd (w_pool w) r)"
    using t n1 by (auto simp: trace_of_def root_ok_def IsRootNode_def addReference_def GetStatus_def)
  have run: "EndTrace pf now clk ag r timeout w = Some (map_sum (\<lambda>e. e) (\<lambda>_. E_ROOT_NODE) x,
      if isl x then updPool (upd_node (r - 1) decReference) w1 else updPool (FreeNodeTree r) (updPool (upd_node (r - 1) decReference) w1))"
    if "end_node pf now clk ag r timeout (r - 1) w0 = Some (map_sum (\<lambda>e. e) (\<lambda>_. None) x, w1)" for x w1
    using that by (cases x) (simp_all add: EndTrace_def bindO_def withTrace_alive [OF al] w0_def [symmetric] liftO_def)
  have scope: "still w (updPool (upd_node (r - 1) decReference) w1)" if "still w0 w1" for w1
    using that by (intro still_scope [OF sc(2) al]) (simp add: w0_def)
  show ?thesis
  proof (cases pass)
    case False
    then have "end_node pf now clk ag r timeout (r - 1) w0 = Some (Inr None, w0)"
      using root w0 by (simp add: end_node_def pass_def)
    with run [of "Inr ()" w0] scope [of w0] still_refl [of w0] w0 sc show ?thesis
      using False by (intro exI [of _ "Inr ()"] exI [of _ "updPool (upd_node (r - 1) decReference) w0"])
        (auto simp: pool_inv_def p1_def)
  next
    case True
    obtain p2 where p2: "onNode (r - 1) (EndTrace_node now) p1 = (Inr (), p2)" "frame p1 p2"
        "nd p2 r = snd (EndTrace_node now (nd p1 r))" "\<forall>x. alive p1 x \<longrightarrow> x \<noteq> r \<longrightarrow> nd p2 x = nd p1 x"
      using still_EndTrace_node [OF sc(1), where now = now] sc(4) al by (auto simp: p1_def)
    define w2 where "w2 = w0\<lparr>w_pool := p2\<rparr>"
    have p2w: "w_pool w2 = p2" by (simp add: w2_def)
    have s2: "still w0 w2" using p2(2) w0 still_pool [of w0 p2] by (simp add: w2_def)
    have w2: "pool_inv (w_pool w2)" "trace_of (w_pool w2) r es" "w_agent w2 = Some ag" "w_spans w2 = w_spans w"
      using frame_inv [OF p2(2)] frame_trace [OF p2(2), of r es] sc t w0 by (simp_all add: w2_def p1_def)
    let ?to = "if timeout = 0 then span_timeout ag else timeout"
    obtain x w3 where s3: "SendSpanTrace pf clk ag r ?to w2 = Some (x, w3)" "still w2 w3"
        "if encodable p2 r es
         then (\<exists>v p'. EncodeTraceToJsonSpan clk (r - 1) (upd_node (r - 1) addReference p2) = Some (Inr v, p') \<and> w_spans w3 = w_spans w2 @ [compact (pf_ops pf) v])
         else x = Inl Logic_error \<and> w_spans w3 = w_spans w2"
      using SendSpanTrace_ok [OF w2(1-3), of pf clk ?to] unfolding p2w by blast
    have "end_node pf now clk ag r timeout (r - 1) w0 = Some (map_sum (\<lambda>e. e) (\<lambda>_. None) x, w3)"
      using True root w0 p2(1) s3(1) by (cases x) (auto simp: end_node_def pass_def bindO_def onPool_def w2_def liftO_def)
    note run = run [OF this]
    have ok: "node_ok (nd p1 r)" using sc(1,4) al alive_in_range [of r p1] by (auto simp: pool_inv_def p1_def)
    have ev: "recorded ''event'' (nd p2 r) = recorded ''event'' (nd (w_pool w) r)"
      using EndTrace_node_recorded(2) [OF ok, of now] p2(3) n1 by simp
    have "span_value now clk (w_pool w) r es v"
      if enc: "EncodeTraceToJsonSpan clk (r - 1) (upd_node (r - 1) addReference p2) = Some (Inr v, p')"
        and e: "encodable (w_pool w) r es" for v p'
    proof -
      define q where "q = upd_node (r - 1) addReference p2"
      have al2: "alive p2 r" "pool_inv p2" "trace_of p2 r es" using w2 by (auto simp: w2_def trace_of_def)
      note sc2 = scope_inv [OF al2(2,1), folded q_def]
      have qr: "nd q r = addReference (nd p2 r)" using scope_node [OF sc2(2) al2(1)] by (simp add: q_def)
      have E: "recorded '':E'' (nd q r) = IntValue (now - tn_start_time (nd (w_pool w) r))"
        using EndTrace_node_recorded(3) [OF ok, of now] p2(3) n1 qr by (simp add: addReference_def recorded_def)
      have "nd q y = nd (w_pool w) y" if y: "y \<in> set es" for y
      proof -
        have "y \<noteq> r" "alive (w_pool w) y" using t y by (auto simp: trace_of_def)
        moreover from this have "nd p1 y = nd (w_pool w) y" "nd q y = nd p2 y"
          using alive_pos [of y "w_pool w"] sc(2) sc2(2) alive_in_range [OF al] alive_in_range [OF al2(1)]
          by (simp_all add: p1_def q_def node_at_upd)
        ultimately show ?thesis using p2(4) sc(4) by (simp add: p1_def)
      qed
      then show ?thesis
        using encode_span_value [OF sc2(1) _ enc [folded q_def] _ E] sc2(3) al2(3) ev qr by simp
    qed
    then show ?thesis
      using run scope [OF still_trans [OF s2 s3(2)]] s3(3) ev True w2
      by (intro exI [of _ x] exI [of _ "updPool (upd_node (r - 1) decReference) w3"]) (auto simp: w2_def, blast+)
  qed
qed


section \<open>The invariant of the process\<close>

definition api_inv :: "'d world \<Rightarrow> bool" where
  "api_inv w \<longleftrightarrow> pool_inv (w_pool w) \<and> quiet (w_pool w) \<and> net_inv w"

lemma frame_traces:
  assumes "frame p p'" and "pool_inv p"
  shows "traces p' = traces p"
proof (rule traces_eqI)
  show "trace_of p' r es" if "(r, es) \<in> traces p" for r es using that frame_trace [OF assms(1)] by (simp add: traces_def)
  show "\<exists>(r, es) \<in> traces p. y \<in> set (r # es)" if "alive p' y" for y
    using traces_cover [OF assms(2)] that frame_alive [OF assms(1)] by simp
qed

lemma still_inv:
  assumes "still w w'" and "api_inv w"
  shows "api_inv w' \<and> traces (w_pool w') = traces (w_pool w) \<and> (w_agent w' = None \<longleftrightarrow> w_agent w = None)"
  using assms frame_inv [of "w_pool w" "w_pool w'"] frame_quiet [of "w_pool w" "w_pool w'"] frame_traces [of "w_pool w" "w_pool w'"]
  by (auto simp: still_def api_inv_def)

lemma traces_free:
  assumes "pool_inv p" and "quiet p" and t: "trace_of p r es"
  shows "traces (FreeNodeTree r p) = traces p - {(r, es)}"
proof (rule traces_eqI)
  note f = FreeNodeTree_trace [OF assms]
  have other: "r' \<noteq> r" if "trace_of p r' es'" "(r', es') \<noteq> (r, es)" for r' es'
    using trace_of_unique [OF t that(1), of r] that(2) by (metis list.set_intros(1))
  show "trace_of (FreeNodeTree r p) r' es'" if "(r', es') \<in> traces p - {(r, es)}" for r' es'
    using that f(4) [of r' es'] other [of r' es'] unfolding traces_def by blast
  show "\<exists>(r', es') \<in> traces p - {(r, es)}. y \<in> set (r' # es')" if "alive (FreeNodeTree r p) y" for y
  proof -
    have y: "alive p y" "y \<notin> set (r # es)" using that f(3) by simp_all
    obtain r' es' where "trace_of p r' es'" "y \<in> set (r' # es')" by (rule alive_trace [OF assms(1) y(1)])
    then show ?thesis using y(2) by (intro bexI [of _ "(r', es')"]) (auto simp: traces_def)
  qed
qed

text \<open>A root that is ended: its trace is gone, or an exception has left everything as it was.\<close>

lemma EndTrace_root_inv:
  assumes inv: "api_inv w" and t: "trace_of (w_pool w) r es" and ag: "w_agent w = Some ag"
  shows "\<exists>x w'. EndTrace pf now clk ag r timeout w = Some (x, w') \<and> api_inv w' \<and> w_agent w' \<noteq> None \<and>
    (x = Inr E_ROOT_NODE \<and> traces (w_pool w') = traces (w_pool w) - {(r, es)} \<or>
     isl x \<and> traces (w_pool w') = traces (w_pool w))"
proof -
  obtain x :: "cpp_exn + unit" and w1 where e: "EndTrace pf now clk ag r timeout w =
      Some (map_sum (\<lambda>e. e) (\<lambda>_. E_ROOT_NODE) x, if isl x then w1 else updPool (FreeNodeTree r) w1)" "still w w1"
    using EndTrace_root [OF inv [unfolded api_inv_def, THEN conjunct1] t ag, of pf now clk timeout] by blast
  note s = still_inv [OF e(2) inv]
  have t1: "trace_of (w_pool w1) r es" using t frame_trace e(2) by (auto simp: still_def)
  have p1: "pool_inv (w_pool w1)" "quiet (w_pool w1)" using s by (simp_all add: api_inv_def)
  show ?thesis
    using e(1) s ag traces_free [OF p1 t1] FreeNodeTree_trace(1,2) [OF p1 t1]
    by (cases x) (auto simp: api_inv_def)
qed

lemma EndTrace_inv:
  assumes inv: "api_inv w" and ag: "w_agent w = Some ag"
  shows "\<exists>x w'. EndTrace pf now clk ag nid timeout w = Some (x, w') \<and> api_inv w' \<and> w_agent w' \<noteq> None"
proof (cases "alive (w_pool w) nid")
  case False
  then show ?thesis using assms by (simp add: EndTrace_dead)
next
  case True
  obtain r es where t: "trace_of (w_pool w) r es" "nid \<in> set (r # es)"
    using alive_trace [OF _ True] inv by (auto simp: api_inv_def)
  show ?thesis
  proof (cases "nid = r")
    case True
    then show ?thesis using EndTrace_root_inv [OF inv t(1) ag, of pf now clk timeout] by blast
  next
    case False
    then obtain w' where w': "EndTrace pf now clk ag nid timeout w = Some (Inr (tn_parent_id (nd (w_pool w) nid)), w')" "still w w'"
      using EndTrace_event [OF _ t(1), of nid pf now clk ag timeout] inv t(2) by (auto simp: api_inv_def)
    then show ?thesis using still_inv [OF w'(2) inv] ag by auto
  qed
qed

lemma force_loop_trace:
  assumes "api_inv w" and "w_agent w \<noteq> None" and "trace_of (w_pool w) r es" and "nid \<in> set (r # take j es)"
  shows "\<exists>x w'. force_loop pf clks k timeout nid w = Some (x, w') \<and> api_inv w' \<and> w_agent w' \<noteq> None \<and>
    (x = Inr () \<and> traces (w_pool w') = traces (w_pool w) - {(r, es)} \<or> isl x \<and> traces (w_pool w') = traces (w_pool w))"
  using assms
proof (induction j arbitrary: nid k w rule: less_induct)
  case (less j)
  obtain ag where ag: "w_agent w = Some ag" using less.prems(2) by blast
  have "set (r # take j es) \<subseteq> set (r # es)" using set_take_subset [of j es] by auto
  then have al: "alive (w_pool w) nid" using less.prems(3,4) by (auto simp: trace_of_def)
  then have nid: "nid \<noteq> E_ROOT_NODE" using alive_pos [of nid "w_pool w"] by auto
  show ?case
  proof (cases "nid = r")
    case True
    obtain x w1 where e: "EndTrace pf (clks k 0) (\<lambda>i. clks k (Suc i)) ag r timeout w = Some (x, w1)" "api_inv w1" "w_agent w1 \<noteq> None"
        "x = Inr E_ROOT_NODE \<and> traces (w_pool w1) = traces (w_pool w) - {(r, es)} \<or> isl x \<and> traces (w_pool w1) = traces (w_pool w)"
      using EndTrace_root_inv [OF less.prems(1,3) ag, of pf "clks k 0" "\<lambda>i. clks k (Suc i)" timeout] by auto
    then show ?thesis
      using True nid ag by (cases x) (auto simp: force_loop.simps [of pf clks k timeout r w] force_loop.simps [of pf clks "Suc k" timeout 0])
  next
    case False
    then have "nid \<in> set (take j es)" using less.prems(4) by simp
    then obtain i where i: "i < j" "i < length es" "nid = es ! i" by (auto simp: in_set_conv_nth)
    then have par: "tn_parent_id (nd (w_pool w) nid) \<in> set (r # take i es)" using less.prems(3) by (simp add: trace_of_def event_ok_def)
    obtain w1 where e: "EndTrace pf (clks k 0) (\<lambda>i. clks k (Suc i)) ag nid timeout w = Some (Inr (tn_parent_id (nd (w_pool w) nid)), w1)" "still w w1"
      using EndTrace_event [OF _ less.prems(3), of nid pf "clks k 0" "\<lambda>i. clks k (Suc i)" ag timeout] less.prems(1) i
      by (auto simp: api_inv_def)
    note s = still_inv [OF e(2) less.prems(1)]
    have t1: "trace_of (w_pool w1) r es" using less.prems(3) frame_trace e(2) by (auto simp: still_def)
    have "alive (w_pool w) (tn_parent_id (nd (w_pool w) nid))"
      using par less.prems(3) set_take_subset [of i es] by (auto simp: trace_of_def)
    then have "tn_parent_id (nd (w_pool w) nid) \<noteq> E_INVALID_NODE" using alive_pos [of _ "w_pool w"] by fastforce
    then have "force_loop pf clks k timeout nid w = force_loop pf clks (Suc k) timeout (tn_parent_id (nd (w_pool w) nid)) w1"
      using nid ag e(1) by (simp add: force_loop.simps [of pf clks k timeout nid w])
    then show ?thesis using less.IH [OF i(1) _ _ t1 par, of "Suc k"] s ag by auto
  qed
qed


section \<open>The functions of the interface\<close>

lemma guarded_inv:
  assumes "api_inv w" and "\<And>ag. w_agent w = Some ag \<Longrightarrow> \<exists>x w'. m ag w = Some (x, w') \<and> api_inv w'"
  shows "\<exists>w'. effect (guarded dflt m w) = Some w' \<and> api_inv w'"
proof (cases "w_agent w")
  case (Some ag)
  obtain x w' where "m ag w = Some (x, w')" "api_inv w'" using assms(2) [OF Some] by blast
  then show ?thesis using Some by (cases x) (simp_all add: guarded_def effect_def)
qed (use assms(1) in \<open>simp add: guarded_def effect_def\<close>)

lemma onPool_frame:
  assumes "api_inv w" and "\<And>p. pool_shape p \<Longrightarrow> frame p (snd (m p))"
  shows "\<exists>x w'. onPool m w = Some (x, w') \<and> api_inv w'"
proof -
  have "frame (w_pool w) (snd (m (w_pool w)))" using assms by (simp add: api_inv_def pool_inv_def)
  from still_inv [OF still_pool [OF this] assms(1)] show ?thesis by (auto simp: onPool_def split: prod.splits)
qed

lemma guarded_pool:
  assumes "api_inv w" and "\<And>p ag. pool_shape p \<Longrightarrow> frame p (snd (m ag p))"
  shows "\<exists>w'. effect (guarded dflt (\<lambda>ag. onPool (m ag)) w) = Some w' \<and> api_inv w'"
  using assms onPool_frame by (intro guarded_inv) blast+

lemma asking_frames:
  assumes "pool_shape p"
  shows "frame p (snd (IsRootTrace nid p))" and "frame p (snd (GetDepth nid p))" and "frame p (snd (GetSequenceId nid p))"
    and "frame p (snd (GetTraceContext nid key b n p))"
  using assms
  by (auto simp: IsRootTrace_def GetDepth_def GetSequenceId_def GetTraceContext_def bindP_def frame_refl
      intro!: frame_withNode frame_withWrapper split: sum.splits)

lemma StartTrace_inv:
  assumes inv: "pool_inv p" and q: "quiet p" and run: "StartTrace ty now par opts p = (res, p')"
  shows "pool_inv p' \<and> quiet p'"
proof (cases "par = E_ROOT_NODE")
  case True
  then have "new_root ty now p = (res, p')" using run by (simp add: StartTrace_def)
  from new_root_spec [OF inv this] show ?thesis using inv q joined_quiet by (auto simp: joined_def)
next
  case False
  show ?thesis
  proof (cases "alive p par")
    case True
    from alive_trace [OF inv this] obtain r es where t: "trace_of p r es" "par \<in> set (r # es)" .
    from start_event_spec [OF inv t run] show ?thesis using inv q joined_quiet by (auto simp: joined_def)
  next
    case dead: False
    then have "p' = p" using run False by (auto simp: StartTrace_def withNode_dead split: if_splits)
    then show ?thesis using inv q by simp
  qed
qed

lemma onState_inv: "api_inv w \<Longrightarrow> w_agent w = Some ag \<Longrightarrow> \<exists>x w'. onState f ag w = Some (x, w') \<and> api_inv w'"
  by (auto simp: onState_def api_inv_def net_inv_def connections_ok_def split: prod.splits)

lemma force_end_inv:
  assumes inv: "api_inv w"
  shows "\<exists>w'. effect (pinpoint_force_end_trace pf clks nid timeout w) = Some w' \<and> api_inv w'"
  unfolding pinpoint_force_end_trace_def
proof (rule guarded_inv [OF inv])
  fix ag
  assume ag: "w_agent w = Some ag"
  have "\<exists>x w'. force_loop pf clks 0 timeout nid w = Some (x, w') \<and> api_inv w'"
  proof (cases "alive (w_pool w) nid")
    case True
    obtain r es where t: "trace_of (w_pool w) r es" "nid \<in> set (r # es)"
      using alive_trace [OF _ True] inv by (auto simp: api_inv_def)
    then show ?thesis
      using force_loop_trace [OF inv _ t(1), of nid "length es" pf clks 0 timeout] ag by auto
  next
    case False
    then show ?thesis
      using inv ag by (cases "nid = E_ROOT_NODE") (simp_all add: force_loop.simps [of pf clks 0 timeout _ w] EndTrace_dead)
  qed
  then show "\<exists>x w'. bindO (force_loop pf clks 0 timeout nid) (\<lambda>_. liftO (returnP E_ROOT_NODE)) w = Some (x, w') \<and> api_inv w'"
    by (auto simp: bindO_def liftO_def split: sum.splits)
qed

lemma api_keeps:
  assumes inv: "api_inv w"
  shows "\<exists>w'. api pf c w = Some w' \<and> api_inv w'"
proof (cases c)
  case (SetAgent now host timeout limit ty)
  then show ?thesis
    using inv new_Agent_ok [of now host timeout limit ty]
    by (auto simp: pinpoint_set_agent_def api_inv_def net_inv_def split: option.splits)
next
  case StopAgent
  then show ?thesis using inv by (auto simp: pinpoint_stop_agent_def api_inv_def net_inv_def split: option.splits)
next
  case (UpdateThreadId nid)
  then show ?thesis using inv by (simp add: pinpoint_update_per_thread_id_def api_inv_def net_inv_def)
next
  case (Start now par opts)
  have "\<exists>x w'. onPool (StartTrace (agent_type ag) now par opts) w = Some (x, w') \<and> api_inv w'" for ag
    using inv StartTrace_inv [of "w_pool w" "agent_type ag" now par opts]
    by (auto simp: onPool_def api_inv_def net_inv_def split: prod.splits)
  then show ?thesis unfolding Start api.simps pinpoint_start_traceV1_def by (rule guarded_inv [OF inv])
next
  case (End now clk nid)
  have "\<exists>x w'. EndTrace pf now clk ag nid 0 w = Some (x, w') \<and> api_inv w'" if "w_agent w = Some ag" for ag
    using EndTrace_inv [OF inv that, of pf now clk nid 0] by blast
  then show ?thesis unfolding End api.simps pinpoint_end_trace_def by (rule guarded_inv [OF inv])
next
  case (ForceEnd clks nid timeout)
  then show ?thesis using force_end_inv [OF inv] by simp
next
  case (AskRoot nid)
  have "\<exists>x w'. bindO (onPool (IsRootTrace nid)) (\<lambda>b. liftO (returnP (if b then 1 else 0 :: int))) w = Some (x, w') \<and> api_inv w'"
    using onPool_frame [OF inv asking_frames(1) [of _ nid]] by (auto simp: bindO_def liftO_def split: sum.splits)
  then show ?thesis
    unfolding AskRoot api.simps pinpoint_trace_is_root_def by (intro guarded_inv [OF inv]) (simp add: liftO_def inv)
next
  case (AskDepth nid)
  show ?thesis
    unfolding AskDepth api.simps pinpoint_get_depth_def
    using onPool_frame [OF inv asking_frames(2) [of _ nid]] by (intro guarded_inv [OF inv]) (simp add: liftO_def inv)
next
  case (AskSequence nid)
  then show ?thesis using guarded_pool [OF inv asking_frames(3)] by (simp add: pinpoint_get_sequence_id_def)
next
  case (ChangeStatus nid st)
  then show ?thesis using guarded_pool [OF inv recording_frames(6)] by (simp add: change_trace_status_def)
next
  case (AddClues nid key val flag)
  then show ?thesis using guarded_pool [OF inv recording_frames(2)] by (simp add: pinpoint_add_clues_def)
next
  case (AddClue nid key val flag)
  then show ?thesis using guarded_pool [OF inv recording_frames(1)] by (simp add: pinpoint_add_clue_def)
next
  case (AddException now nid msg)
  then show ?thesis using guarded_pool [OF inv recording_frames(7)] by (simp add: pinpoint_add_exception_def)
next
  case (SetContext nid key val)
  then show ?thesis using guarded_pool [OF inv recording_frames(4)] by (simp add: pinpoint_set_context_key_def)
next
  case (GetContext nid key b n)
  then show ?thesis using guarded_pool [OF inv asking_frames(4)] by (simp add: pinpoint_get_context_key_def)
next
  case (CatchError nid msg fname line)
  then show ?thesis using guarded_pool [OF inv recording_frames(3)] by (simp add: catch_error_def)
next
  case (SetAsync nid a b)
  then show ?thesis using guarded_pool [OF inv recording_frames(5)] by (simp add: pinpoint_set_async_ctx_def)
next
  case (CheckLimit clock ts)
  show ?thesis unfolding CheckLimit api.simps check_trace_limit_def by (rule guarded_inv [OF inv]) (rule onState_inv [OF inv])
next
  case UniqueId
  show ?thesis unfolding UniqueId api.simps generate_unique_id_def by (rule guarded_inv [OF inv]) (rule onState_inv [OF inv])
next
  case ResetId
  show ?thesis unfolding ResetId api.simps reset_unique_id_def by (rule guarded_inv [OF inv]) (rule onState_inv [OF inv])
next
  case (RegisterHandler h)
  have "\<exists>x w'. Some (Inr (), w\<lparr>w_agent := Some (ag\<lparr>rawSpanHandler := h\<rparr>)\<rparr>) = Some (x, w') \<and> api_inv w'" if "w_agent w = Some ag" for ag
    using inv that by (auto simp: api_inv_def net_inv_def connections_ok_def)
  then show ?thesis unfolding RegisterHandler api.simps register_span_handler_def by (rule guarded_inv [OF inv])
qed

lemma api_run_keeps:
  assumes "api_inv w"
  shows "\<exists>w'. api_run pf calls w = Some w' \<and> api_inv w'"
  using assms
proof (induction calls arbitrary: w)
  case (Cons c calls)
  obtain w1 where "api pf c w = Some w1" "api_inv w1" using api_keeps [OF Cons.prems] by blast
  then show ?case using Cons.IH by simp
qed simp

lemma start_world_inv: "api_inv (start_world k :: 'd world)"
  using PoolManager_inv PoolManager_unused by (auto simp: api_inv_def start_world_def net_inv_def quiet_def)


section \<open>Traces and free nodes\<close>

lemma traces_root_iff:
  assumes "trace_of p r es" and "x \<in> set (r # es)"
  shows "x \<in> fst ` traces p \<longleftrightarrow> x = r"
proof
  assume "x \<in> fst ` traces p"
  then obtain es' where "trace_of p x es'" by (auto simp: traces_def)
  from trace_of_unique [OF assms(1) this assms(2)] show "x = r" by simp
next
  assume "x = r"
  then show "x \<in> fst ` traces p" using assms(1) by (intro image_eqI [of _ _ "(r, es)"]) (simp_all add: traces_def)
qed

lemma traces_without:
  assumes "trace_of p r es"
  shows "{t \<in> traces p. fst t \<noteq> r} = traces p - {(r, es)}"
proof -
  have one: "es' = es" if "trace_of p r es'" for es' using trace_of_unique [OF assms that, of r] by simp
  show ?thesis
  proof (rule set_eqI)
    fix t
    show "t \<in> {t \<in> traces p. fst t \<noteq> r} \<longleftrightarrow> t \<in> traces p - {(r, es)}"
      using one [of "snd t"] by (cases t) (auto simp: traces_def)
  qed
qed

lemma no_traces_no_leak:
  assumes inv: "pool_inv p" and none: "traces p = {}"
  shows "NoNodesLeak p"
proof -
  have s: "pool_shape p" using inv by (simp add: pool_inv_def)
  have "\<not> usedNodeSet p ! nat i" if "0 \<le> i" "i < maxId p" for i
    using traces_cover [OF inv, of "i + 1"] none that s by (auto simp: indexInUsedVec_def pool_shape_def)
  then have "set (freeNodeList p) = {0..<maxId p}" using s by (auto simp: pool_shape_def)
  moreover have "distinct (freeNodeList p)" using s by (simp add: pool_shape_def)
  ultimately have "length (freeNodeList p) = nat (maxId p)" using distinct_card [of "freeNodeList p"] by simp
  then have "length (freeNodeList p) = length (nodeIndexVec p) * 128" using s by (simp add: pool_shape_def)
  then show ?thesis by (simp add: NoNodesLeak_def freeNodesCount_def totalNodesCount_def)
qed

end
