(* ===== verification/Agent_Safety.thy ===== *)
theory Agent_Safety
  imports Agent_Inv
begin

text \<open>
  The properties of the interface as a whole: it is safe for every program, ending a trace frees
  exactly its nodes, the span that is sent is the trace, and the first message of the collector.
\<close>


text \<open>
  C2: Ending a trace refines the abstract picture of the pool.  \<^verbatim>\<open>pinpoint_end_trace\<close> always comes
  back.  An identifier that is not in use gives -1 and changes nothing; an event gives the identifier
  of its parent and its trace stays; a root gives 0 and its trace, with all its nodes and no other,
  is gone, or -1 when an exception was thrown, and then the trace stays.  When no trace is left, no
  node has leaked.
\<close>

theorem end_trace_refines:
  assumes inv: "api_inv w" and ag: "w_agent w = Some ag"
  shows "\<exists>x w'. pinpoint_end_trace pf now clk nid w = Some (x, w') \<and> (traces (w_pool w') = {} \<longrightarrow> NoNodesLeak (w_pool w')) \<and>
    (if \<not> alive (w_pool w) nid then x = - 1 \<and> w' = w
     else if nid \<notin> fst ` traces (w_pool w) then x = tn_parent_id (nd (w_pool w) nid) \<and> traces (w_pool w') = traces (w_pool w)
     else x = 0 \<and> traces (w_pool w') = {t \<in> traces (w_pool w). fst t \<noteq> nid} \<or> x = - 1 \<and> traces (w_pool w') = traces (w_pool w))"
proof (cases "alive (w_pool w) nid")
  case False
  then show ?thesis
    using ag inv no_traces_no_leak [of "w_pool w"] by (simp add: pinpoint_end_trace_def guarded_def EndTrace_dead api_inv_def)
next
  case True
  obtain r es where t: "trace_of (w_pool w) r es" "nid \<in> set (r # es)"
    using alive_trace [OF _ True] inv by (auto simp: api_inv_def)
  note roots = traces_root_iff [OF t]
  have leak: "traces (w_pool w') = {} \<longrightarrow> NoNodesLeak (w_pool w')" if "api_inv w'" for w' :: "'a world"
    using no_traces_no_leak that by (auto simp: api_inv_def)
  show ?thesis
  proof (cases "nid = r")
    case True
    note gone = traces_without [OF t(1)]
    obtain x w' where e: "EndTrace pf now clk ag r 0 w = Some (x, w')" "api_inv w'"
        "x = Inr E_ROOT_NODE \<and> traces (w_pool w') = traces (w_pool w) - {(r, es)} \<or> isl x \<and> traces (w_pool w') = traces (w_pool w)"
      using EndTrace_root_inv [OF inv t(1) ag, of pf now clk 0] by blast
    then have "pinpoint_end_trace pf now clk r w = Some (case x of Inl _ \<Rightarrow> - 1 | Inr y \<Rightarrow> y, w')"
      using ag by (simp add: pinpoint_end_trace_def guarded_def split: sum.splits)
    then show ?thesis
      using True roots leak [OF e(2)] e(3) gone \<open>alive (w_pool w) nid\<close> by (cases x) simp_all
  next
    case False
    then obtain w' where "EndTrace pf now clk ag nid 0 w = Some (Inr (tn_parent_id (nd (w_pool w) nid)), w')" "still w w'"
      using EndTrace_event [OF _ t(1), of nid pf now clk ag 0] inv t(2) by (auto simp: api_inv_def)
    then show ?thesis
      using False roots leak [of w'] ag still_inv [of w w'] inv \<open>alive (w_pool w) nid\<close> by (auto simp: pinpoint_end_trace_def guarded_def)
  qed
qed

lemma clue_recorded:
  assumes inv: "pool_inv p" and al: "alive p r" and key: "hd key \<noteq> CHR '':''"
  shows "\<exists>p'. AnnotateTrace_V1 r key val E_LOC_CURRENT p = (Inr (), p') \<and> frame p p' \<and>
    recorded key (nd p' r) = StringValue val \<and> GetStatus (nd p' r) = GetStatus (nd p r)"
proof -
  have s: "pool_shape p" "in_range (r - 1) p" "node_ok (nd p r)"
    using inv alive_in_range [OF al] by (auto simp: pool_inv_def)
  have ok: "node_ok (addReference (nd p r))" using s(3) by simp
  have f: "frame p (snd (AnnotateTrace_V1 r key val E_LOC_CURRENT p))" using recording_frames(1) [OF s(1)] .
  define n where "n = addReference (nd p r)"
  define n' where "n' = n\<lparr>tn_value := snd (set_key key (StringValue val) (tn_value n))\<rparr>"
  have "AddAnnotation key (StringValue val) n = (Inr (), n')" "recorded key n' = StringValue val"
    using AddAnnotation_step(1) [OF ok, of "StringValue val" key] recorded_AddAnnotation [OF ok, of key key "StringValue val"]
    by (simp_all add: n_def n'_def)
  moreover have "recorded key (decReference n') = recorded key n'" "GetStatus (decReference n') = GetStatus (nd p r)"
    by (simp_all add: recorded_def decReference_def GetStatus_def n'_def n_def addReference_def)
  ultimately show ?thesis
    using f key s by (simp add: AnnotateTrace_V1_def NotInternalKey_def bindP_def withWrapper_def withNode_alive [OF al] onNode_def
        n_def [symmetric])
qed

text \<open>A process with an agent and a trace with one event, for concrete runs.\<close>

definition sample_agent :: agent where
  "sample_agent = \<lparr>span_timeout = 0, agent_type = 1300,
     connection_pool = \<lparr>sp_co_host = ''tcp:localhost:9999'', con_counter = 0, sp_pool = [], routeVec = [(0, HelloMsg)]\<rparr>,
     statePtr = ProcessState 1 (- 1), rawSpanHandler = None\<rparr>"

definition sample_pool :: "unit pool" where
  "sample_pool = snd (StartTrace 1300 20 128 [] (snd (StartTrace 1300 10 0 [] PoolManager)))"

definition sample_world :: "unit world" where
  "sample_world = (start_world quiet_kernel)\<lparr>w_agent := Some sample_agent, w_pool := sample_pool\<rparr>"

lemma sample_world_inv: "api_inv sample_world" "w_agent sample_world = Some sample_agent"
proof -
  let ?p1 = "snd (StartTrace 1300 10 0 [] (PoolManager :: unit pool))"
  have "quiet (PoolManager :: unit pool)" using PoolManager_unused by (auto simp: quiet_def)
  then have "pool_inv ?p1 \<and> quiet ?p1" using StartTrace_inv [OF PoolManager_inv _ surjective_pairing] by blast
  then have "pool_inv sample_pool \<and> quiet sample_pool"
    unfolding sample_pool_def using StartTrace_inv [OF _ _ surjective_pairing] by blast
  then show "api_inv sample_world"
    by (simp add: api_inv_def sample_world_def start_world_def net_inv_def connections_ok_def sample_agent_def)
qed (simp add: sample_world_def)

lemma sample_pool_nodes: "alive sample_pool 128" "alive sample_pool 127" "tn_root_id (nd sample_pool 127) = 128"
  "GetStatus (nd sample_pool 128) = E_TRACE_PASS" "recorded ''event'' (nd sample_pool 128) = NullValue"
  unfolding sample_pool_def by code_simp+

lemma sample_trace: "trace_of sample_pool 128 [127]"
proof -
  have inv: "pool_inv sample_pool" using sample_world_inv(1) by (simp add: api_inv_def sample_world_def)
  from alive_trace [OF inv sample_pool_nodes(2)] obtain r es where t: "trace_of sample_pool r es" "127 \<in> set (r # es)" .
  then have r: "r = 128" using sample_pool_nodes(3) by (auto simp: trace_of_def)
  have "map_option re_sequence (tn_extra (nd sample_pool 128)) = Some 1" unfolding sample_pool_def by code_simp
  then have "length es = 1" using t(1) r by (auto simp: trace_of_def root_ok_def)
  then have "es = [127]" using t(2) r by (auto simp: length_Suc_conv)
  then show ?thesis using t(1) r by simp
qed

theorem end_trace_refines_witness:
  "\<exists>x w'. pinpoint_end_trace (undefined :: unit platform) 30 (\<lambda>_. 30) 127 sample_world = Some (x, w') \<and> x = 128 \<and>
     traces (w_pool w') = traces sample_pool"
proof -
  have "tn_parent_id (nd sample_pool 127) = 128" unfolding sample_pool_def by code_simp
  moreover have "127 \<notin> fst ` traces sample_pool" using traces_root_iff [OF sample_trace, of 127] by simp
  moreover have "w_pool sample_world = sample_pool" by (simp add: sample_world_def)
  ultimately show ?thesis
    using end_trace_refines [OF sample_world_inv, of "undefined :: unit platform" 30 "\<lambda>_. 30" 127] sample_pool_nodes(2) by auto
qed



text \<open>
  C24: A clue with the key \<open>event\<close> breaks the report of its trace.  If a program annotates the root of a
  trace that has events with a string under that key, ending the root always fails with -1 when the
  trace is to be reported: nothing is sent, the trace stays in the pool, and its nodes are not freed.
\<close>

theorem event_clue_leaks:
  assumes inv: "api_inv w" and ag: "w_agent w = Some ag" and t: "(r, y # es) \<in> traces (w_pool w)"
    and pass: "GetStatus (nd (w_pool w) r) = E_TRACE_PASS"
  shows "\<exists>w1 w'. pinpoint_add_clue r ''event'' val E_LOC_CURRENT w = Some ((), w1) \<and>
    pinpoint_end_trace pf now clk r w1 = Some (- 1, w') \<and> w_spans w' = w_spans w \<and> traces (w_pool w') = traces (w_pool w)"
proof -
  let ?n = "nd (w_pool w) r"
  have tr: "trace_of (w_pool w) r (y # es)" using t by (simp add: traces_def)
  obtain p1 where p1: "AnnotateTrace_V1 r ''event'' val E_LOC_CURRENT (w_pool w) = (Inr (), p1)" "frame (w_pool w) p1"
      "recorded ''event'' (nd p1 r) = StringValue val" "GetStatus (nd p1 r) = GetStatus ?n"
    using clue_recorded [of "w_pool w" r "''event''" val] inv tr by (auto simp: api_inv_def trace_of_def)
  define w1 where "w1 = w\<lparr>w_pool := p1\<rparr>"
  have run1: "pinpoint_add_clue r ''event'' val E_LOC_CURRENT w = Some ((), w1)"
    using ag p1(1) by (simp add: pinpoint_add_clue_def guarded_def onPool_def w1_def)
  have s: "still w w1" using still_pool [OF p1(2)] by (simp add: w1_def)
  note i1 = still_inv [OF s inv]
  have t1: "trace_of (w_pool w1) r (y # es)" and ag1: "w_agent w1 = Some ag"
    using tr frame_trace [OF p1(2)] ag by (simp_all add: w1_def)
  obtain x :: "cpp_exn + unit" and w2 where "EndTrace pf now clk ag r 0 w1 =
      Some (map_sum (\<lambda>e. e) (\<lambda>_. E_ROOT_NODE) x, if isl x then w2 else updPool (FreeNodeTree r) w2)" "still w1 w2"
      "x = Inl Logic_error" "w_spans w2 = w_spans w1"
    using EndTrace_root [OF i1 [unfolded api_inv_def, THEN conjunct1, THEN conjunct1] t1 ag1, of pf now clk 0] p1(3,4) pass
    by (auto simp: w1_def)
  then show ?thesis
    using run1 ag1 still_inv [of w1 w2] i1 by (auto simp: pinpoint_end_trace_def guarded_def w1_def)
qed

theorem event_clue_leaks_witness:
  "\<exists>w1 w'. pinpoint_add_clue 128 ''event'' ''x'' E_LOC_CURRENT sample_world = Some ((), w1) \<and>
     pinpoint_end_trace (undefined :: unit platform) 30 (\<lambda>_. 30) 128 w1 = Some (- 1, w')"
  using event_clue_leaks [OF sample_world_inv, of 128 127 "[]" "''x''" "undefined :: unit platform" 30 "\<lambda>_. 30"]
    sample_trace sample_pool_nodes by (auto simp: traces_def sample_world_def)

text \<open>
  C22: \<^verbatim>\<open>pinpoint_force_end_trace\<close> always comes back, although it loops until it reaches the root.
  Started at any node of a trace it walks up to the root; either it returns 0 and the whole trace is
  gone, or the report of the root failed, it returns -1 and the trace stays.
\<close>

theorem force_end_returns:
  assumes inv: "api_inv w" and ag: "w_agent w = Some ag" and t: "(r, es) \<in> traces (w_pool w)" and nid: "nid \<in> set (r # es)"
  shows "\<exists>x w'. pinpoint_force_end_trace pf clks nid timeout w = Some (x, w') \<and>
    (x = 0 \<and> traces (w_pool w') = traces (w_pool w) - {(r, es)} \<or> x = - 1 \<and> traces (w_pool w') = traces (w_pool w))"
proof -
  have tr: "trace_of (w_pool w) r es" using t by (simp add: traces_def)
  obtain x w' where "force_loop pf clks 0 timeout nid w = Some (x, w')"
      "x = Inr () \<and> traces (w_pool w') = traces (w_pool w) - {(r, es)} \<or> isl x \<and> traces (w_pool w') = traces (w_pool w)"
    using force_loop_trace [OF inv _ tr, of nid "length es" pf clks 0 timeout] ag nid by auto
  then show ?thesis
    using ag by (cases x) (simp_all add: pinpoint_force_end_trace_def guarded_def bindO_def liftO_def)
qed

theorem force_end_returns_witness:
  "\<exists>x w'. pinpoint_force_end_trace (undefined :: unit platform) (\<lambda>_ _. 30) 127 0 sample_world = Some (x, w')"
  using force_end_returns [OF sample_world_inv, of 128 "[127]" 127 "undefined :: unit platform" "\<lambda>_ _. 30" 0] sample_trace
  by (auto simp: traces_def sample_world_def)

text \<open>
  The first message of the collector.  A message with a version and a time, written as compact
  JSON, is refused, so that the connection is given up, exactly when the version is older than 0.7.0;
  otherwise its time becomes the start time.  A time that is not a number is an exception, which
  leaves the state as it was.
\<close>

lemma hello_message:
  assumes "\<not> IsReady s" and "jv_ok v" "readable v" "fits 999 v" "as_read v = v"
    and "at_key ''time'' v = Inr (StringValue time)" and "at_key ''version'' v = Inr (StringValue version)"
  shows "HandleHelloMsg pf ty (compact (pf_ops pf) v) s =
    (if compare_version (c_str version) ''v0.7.0'' < 0 then (Inr (- 1), s)
     else (case stoll time of Inl e \<Rightarrow> (Inl e, s) | Inr n \<Rightarrow> (Inr 0, SetStartTime (word_of_int n) s)))"
proof -
  obtain st where st: "parse (pf_ops pf) (pf_reader pf) default_features (compact (pf_ops pf) v) NullValue = Some (Inr True, v, st)"
    using parse_compact [of v default_features "pf_ops pf" "pf_reader pf" NullValue] assms by (auto simp: default_features_def)
  then have "parseFromStream (pf_ops pf) (pf_reader pf) (pf_bool pf) (pf_uint pf) agent_builder (compact (pf_ops pf) v) NullValue =
      Some (Inr True, v, getFormattedErrorMessages st)"
    by (simp add: parseFromStream_def agent_builder_def newCharReader_defaults)
  then show ?thesis
    using assms(1,6,7) by (simp add: HandleHelloMsg_def hello_version_def hello_time_def asString_def isNull_def isString_def not_less
        split: sum.splits)
qed

end
