(* ===== verification/Collector_Accept.thy ===== *)
theory Collector_Accept
  imports PP_Prelude
begin

text \<open>
  Admitting and shutting down (\<^verbatim>\<open>startListen\<close>, \<^verbatim>\<open>shutdown\<close>, \<^verbatim>\<open>trackConn\<close>, \<^verbatim>\<open>untrackConn\<close> of
  \<^verbatim>\<open>collector-agent/server/Server.go\<close>).  The accept loop, the handlers and the shutdown run in goroutines of
  their own: a step is one of their atomic actions, and a run is any interleaving of them.  What a
  handler does in between is \<^verbatim>\<open>handleClient\<close>, which ends by closing the connection.
\<close>

section \<open>State\<close>

text \<open>
  Connections are numbered in the order in which they are accepted.  The accept loop waits, or it has
  a connection in its hands: just accepted, let through by the check of \<^verbatim>\<open>shuttingDown\<close>, or admitted.  A
  handler of an admitted connection is about to be started, serves, has left \<^verbatim>\<open>handleClient\<close>, or has been
  taken from \<^verbatim>\<open>conns\<close>; then it gives its slot back.
\<close>

datatype acceptor = Waiting | Accepted nat | LetThrough nat | Admitted nat | Finished
datatype handler = Untracked_yet | Tracked | Serving | Left | Removed

record listen_state =
  acceptor :: acceptor
  accepted :: nat
  handlers :: "nat \<rightharpoonup> handler"
  connSem :: nat
  conns :: "nat set"
  closed :: "nat set"
  shuttingDown :: bool
  listener_open :: bool
  conns_closed :: bool

definition start_listening :: listen_state where
  "start_listening =
     \<lparr>acceptor = Waiting, accepted = 0, handlers = Map.empty, connSem = 0, conns = {}, closed = {}, shuttingDown = False,
      listener_open = True, conns_closed = False\<rparr>"

definition max_conns :: "int \<Rightarrow> nat" where
  "max_conns MaxConnections = (if MaxConnections \<le> 0 then 1000 else nat MaxConnections)"

section \<open>Actions\<close>

definition accept_conn :: "listen_state \<Rightarrow> listen_state" where
  "accept_conn s = s\<lparr>acceptor := Accepted (accepted s), accepted := Suc (accepted s)\<rparr>"

definition check_shutdown :: "nat \<Rightarrow> listen_state \<Rightarrow> listen_state" where
  "check_shutdown n s =
     (if shuttingDown s then s\<lparr>closed := insert n (closed s), acceptor := Waiting\<rparr> else s\<lparr>acceptor := LetThrough n\<rparr>)"

definition take_slot :: "nat \<Rightarrow> nat \<Rightarrow> listen_state \<Rightarrow> listen_state" where
  "take_slot maxConns n s =
     (if connSem s < maxConns then s\<lparr>connSem := Suc (connSem s), handlers := (handlers s)(n \<mapsto> Untracked_yet), acceptor := Admitted n\<rparr>
      else s\<lparr>closed := insert n (closed s), acceptor := Waiting\<rparr>)"

definition trackConn :: "nat \<Rightarrow> listen_state \<Rightarrow> listen_state" where
  "trackConn n s = s\<lparr>conns := insert n (conns s), handlers := (handlers s)(n \<mapsto> Tracked)\<rparr>"

definition start_handler :: "nat \<Rightarrow> listen_state \<Rightarrow> listen_state" where
  "start_handler n s = s\<lparr>handlers := (handlers s)(n \<mapsto> Serving), acceptor := Waiting\<rparr>"

definition leave_handler :: "nat \<Rightarrow> listen_state \<Rightarrow> listen_state" where
  "leave_handler n s = s\<lparr>closed := insert n (closed s), handlers := (handlers s)(n \<mapsto> Left)\<rparr>"

definition untrackConn :: "nat \<Rightarrow> listen_state \<Rightarrow> listen_state" where
  "untrackConn n s = s\<lparr>conns := conns s - {n}, handlers := (handlers s)(n \<mapsto> Removed)\<rparr>"

definition release_slot :: "nat \<Rightarrow> listen_state \<Rightarrow> listen_state" where
  "release_slot n s = s\<lparr>connSem := connSem s - 1, handlers := (handlers s)(n := None)\<rparr>"

definition close_conns :: "listen_state \<Rightarrow> listen_state" where
  "close_conns s = s\<lparr>closed := closed s \<union> conns s, conns_closed := True\<rparr>"

text \<open>
  An error of \<^verbatim>\<open>Accept\<close>, which need not mean that the listener is closed, ends the accept loop.  The shutdown
  sets its flag, closes the listener, and closes the connections, in this order.
\<close>

inductive listen_step :: "nat \<Rightarrow> listen_state \<Rightarrow> listen_state \<Rightarrow> bool" for maxConns :: nat where
  accept: "acceptor s = Waiting \<Longrightarrow> listener_open s \<Longrightarrow> listen_step maxConns s (accept_conn s)"
| accept_error: "acceptor s = Waiting \<Longrightarrow> listen_step maxConns s (s\<lparr>acceptor := Finished\<rparr>)"
| check: "acceptor s = Accepted n \<Longrightarrow> listen_step maxConns s (check_shutdown n s)"
| slot: "acceptor s = LetThrough n \<Longrightarrow> listen_step maxConns s (take_slot maxConns n s)"
| track: "acceptor s = Admitted n \<Longrightarrow> handlers s n = Some Untracked_yet \<Longrightarrow> listen_step maxConns s (trackConn n s)"
| go: "acceptor s = Admitted n \<Longrightarrow> handlers s n = Some Tracked \<Longrightarrow> listen_step maxConns s (start_handler n s)"
| leave: "handlers s n = Some Serving \<Longrightarrow> listen_step maxConns s (leave_handler n s)"
| untrack: "handlers s n = Some Left \<Longrightarrow> listen_step maxConns s (untrackConn n s)"
| release: "handlers s n = Some Removed \<Longrightarrow> listen_step maxConns s (release_slot n s)"
| shut: "listen_step maxConns s (s\<lparr>shuttingDown := True\<rparr>)"
| close_listener: "shuttingDown s \<Longrightarrow> listen_step maxConns s (s\<lparr>listener_open := False\<rparr>)"
| close_all: "\<not> listener_open s \<Longrightarrow> \<not> conns_closed s \<Longrightarrow> listen_step maxConns s (close_conns s)"

inductive_cases listen_stepE: "listen_step maxConns s s'"

inductive listen_reach :: "nat \<Rightarrow> listen_state \<Rightarrow> bool" for maxConns :: nat where
  start: "listen_reach maxConns start_listening"
| step: "listen_reach maxConns s \<Longrightarrow> listen_step maxConns s s' \<Longrightarrow> listen_reach maxConns s'"

section \<open>The limit on connections\<close>

text \<open>
  Every admitted connection holds one slot, \<^verbatim>\<open>conns\<close> holds the tracked ones, and a connection that is
  open is in the hands of the accept loop or has a handler.
\<close>

definition listen_inv :: "nat \<Rightarrow> listen_state \<Rightarrow> bool" where
  "listen_inv maxConns s \<longleftrightarrow>
     finite (dom (handlers s)) \<and> connSem s = card (dom (handlers s)) \<and> connSem s \<le> maxConns \<and>
     (\<forall>n \<in> dom (handlers s). n < accepted s) \<and>
     (\<forall>n. acceptor s = Accepted n \<or> acceptor s = LetThrough n \<longrightarrow> n < accepted s \<and> handlers s n = None) \<and>
     conns s = {n. handlers s n \<in> {Some Tracked, Some Serving, Some Left}} \<and>
     (\<forall>n < accepted s. n \<notin> closed s \<longrightarrow> acceptor s = Accepted n \<or> acceptor s = LetThrough n \<or> n \<in> dom (handlers s))"

lemma start_listening_inv: "listen_inv m start_listening"
  by (simp add: listen_inv_def start_listening_def)

lemma handler_change_inv:
  assumes "listen_inv m s" and "handlers s n = Some h" and "conns s' = {n. handlers s' n \<in> {Some Tracked, Some Serving, Some Left}}"
    and "handlers s' = (handlers s)(n \<mapsto> h')" and "connSem s' = connSem s" and "accepted s' = accepted s"
    and "acceptor s' = acceptor s \<or> acceptor s = Admitted n \<and> acceptor s' = Waiting" and "closed s \<subseteq> closed s'"
  shows "listen_inv m s'"
proof -
  have "dom (handlers s') = dom (handlers s)" using assms(2,4) by auto
  then show ?thesis using assms unfolding listen_inv_def by auto
qed

lemma take_slot_inv:
  assumes "listen_inv m s" and "acceptor s = LetThrough n"
  shows "listen_inv m (take_slot m n s)"
proof -
  have "n < accepted s" "handlers s n = None" using assms by (simp_all add: listen_inv_def)
  then show ?thesis using assms by (auto simp: listen_inv_def take_slot_def domIff)
qed

lemma release_slot_inv:
  assumes "listen_inv m s" and "handlers s n = Some Removed" and "n \<in> closed s"
  shows "listen_inv m (release_slot n s)"
proof -
  have d: "dom (handlers (release_slot n s)) = dom (handlers s) - {n}" by (auto simp: release_slot_def)
  have "n \<in> dom (handlers s)" using assms(2) by auto
  then have "card (dom (handlers s) - {n}) = card (dom (handlers s)) - 1" by simp
  then show ?thesis
    using assms d unfolding listen_inv_def by (auto simp: release_slot_def)
qed

text \<open>A handler that has left has closed its connection.\<close>

definition left_closed :: "listen_state \<Rightarrow> bool" where
  "left_closed s \<longleftrightarrow> (\<forall>n. handlers s n \<in> {Some Left, Some Removed} \<longrightarrow> n \<in> closed s)"

lemma listen_step_inv:
  assumes "listen_step m s s'" and "listen_inv m s" and "left_closed s"
  shows "listen_inv m s' \<and> left_closed s'"
proof -
  have conns: "conns s = {n. handlers s n \<in> {Some Tracked, Some Serving, Some Left}}" using assms(2) by (simp add: listen_inv_def)
  show ?thesis
    using assms(1)
  proof cases
    case accept
    then show ?thesis using assms(2,3)
      by (auto simp: listen_inv_def left_closed_def accept_conn_def less_Suc_eq)
  next
    case (check n)
    then show ?thesis using assms(2,3) by (auto simp: listen_inv_def left_closed_def check_shutdown_def)
  next
    case (slot n)
    then show ?thesis using assms(3) take_slot_inv [OF assms(2)] by (auto simp: left_closed_def take_slot_def)
  next
    case (track n)
    then have "listen_inv m s'"
      using conns by (intro handler_change_inv [OF assms(2), of n Untracked_yet s' Tracked]) (auto simp: trackConn_def)
    then show ?thesis using assms(3) track by (auto simp: left_closed_def trackConn_def)
  next
    case (go n)
    then have "listen_inv m s'"
      using conns by (intro handler_change_inv [OF assms(2), of n Tracked s' Serving]) (auto simp: start_handler_def)
    then show ?thesis using assms(3) go by (auto simp: left_closed_def start_handler_def)
  next
    case (leave n)
    then have "listen_inv m s'"
      using conns by (intro handler_change_inv [OF assms(2), of n Serving s' Left]) (auto simp: leave_handler_def)
    then show ?thesis using assms(3) leave by (auto simp: left_closed_def leave_handler_def)
  next
    case (untrack n)
    then have "listen_inv m s'"
      using conns by (intro handler_change_inv [OF assms(2), of n Left s' Removed]) (auto simp: untrackConn_def)
    then show ?thesis using assms(3) untrack by (auto simp: left_closed_def untrackConn_def)
  next
    case (release n)
    then show ?thesis using assms(3) release_slot_inv [OF assms(2), of n] by (auto simp: left_closed_def release_slot_def)
  qed (use assms(2,3) in \<open>auto simp: listen_inv_def left_closed_def close_conns_def\<close>)
qed

lemma listen_reach_inv: "listen_reach m s \<Longrightarrow> listen_inv m s \<and> left_closed s"
proof (induction rule: listen_reach.induct)
  case start
  then show ?case using start_listening_inv [of m] by (simp add: left_closed_def start_listening_def)
qed (blast dest: listen_step_inv)

text \<open>
  C26: Whatever the clients do and however the goroutines are interleaved, the server never serves
  more connections than its limit (1000 when the setting is not positive), never has more than one
  further connection open, which is the one in the hands of the accept loop, and the set of tracked
  connections is within the limit.  No connection leaks: one that is open has a handler or is in the
  hands of the accept loop.
\<close>

theorem connection_limit:
  assumes "listen_reach (max_conns setting) s"
  shows "card (conns s) \<le> max_conns setting \<and> card {n. n < accepted s \<and> n \<notin> closed s} \<le> Suc (max_conns setting) \<and>
    (\<forall>n < accepted s. n \<notin> closed s \<longrightarrow> n \<in> dom (handlers s) \<or> acceptor s \<in> {Accepted n, LetThrough n})"
proof -
  let ?m = "max_conns setting" and ?open = "{n. n < accepted s \<and> n \<notin> closed s}"
  have inv: "listen_inv ?m s" using listen_reach_inv [OF assms] by simp
  have fin: "finite (dom (handlers s))" and lim: "card (dom (handlers s)) \<le> ?m" using inv by (simp_all add: listen_inv_def)
  have "conns s \<subseteq> dom (handlers s)" using inv by (auto simp: listen_inv_def)
  then have c: "card (conns s) \<le> ?m" using card_mono [OF fin] lim by (meson le_trans)
  define held where "held = {n. acceptor s = Accepted n \<or> acceptor s = LetThrough n}"
  have h: "held \<subseteq> {x}" if "acceptor s = Accepted x \<or> acceptor s = LetThrough x" for x using that by (auto simp: held_def)
  have "finite held \<and> card held \<le> 1"
  proof (cases "held = {}")
    case False
    then obtain x where "held \<subseteq> {x}" using h by (auto simp: held_def)
    then show ?thesis using card_mono [of "{x}" held] finite_subset [of held "{x}"] by simp
  qed simp
  moreover have "?open \<subseteq> dom (handlers s) \<union> held" using inv by (auto simp: listen_inv_def held_def)
  ultimately have "card ?open \<le> card (dom (handlers s)) + card held"
    using card_mono [of "dom (handlers s) \<union> held" ?open] card_Un_le [of "dom (handlers s)" held] fin by simp
  then show ?thesis using c lim inv \<open>finite held \<and> card held \<le> 1\<close> by (auto simp: listen_inv_def)
qed

text \<open>A run that admits one connection, and one in which the shutdown overtakes it.\<close>

definition run_to_slot :: "nat \<Rightarrow> listen_state" where
  "run_to_slot m = take_slot m 0 (check_shutdown 0 (accept_conn start_listening))"

lemma reach_slot: "listen_reach m (run_to_slot m)"
proof -
  have "listen_reach m (accept_conn start_listening)"
    by (rule listen_reach.step [OF listen_reach.start accept]) (simp_all add: start_listening_def)
  then have "listen_reach m (check_shutdown 0 (accept_conn start_listening))"
    by (rule listen_reach.step [OF _ check]) (simp add: start_listening_def accept_conn_def)
  then show ?thesis unfolding run_to_slot_def
    by (rule listen_reach.step [OF _ slot]) (simp add: start_listening_def accept_conn_def check_shutdown_def)
qed

theorem connection_limit_witness:
  "card (conns (run_to_slot 1000)) \<le> 1000 \<and> card {n. n < accepted (run_to_slot 1000) \<and> n \<notin> closed (run_to_slot 1000)} \<le> 1001"
  using connection_limit [of 0 "run_to_slot 1000"] reach_slot [of 1000] by (simp add: max_conns_def)


end
