(* ===== verification/Collector_Server.thy ===== *)
theory Collector_Server
  imports Trans_Layer Json_Writer
begin

text \<open>
  The other end of the wire: the server of the collector agent
  (\<^verbatim>\<open>collector-agent/server/Server.go\<close>), which greets every client, cuts what it sends into packets
  and hands the spans to a router.  The router is an interface of the source
  (\<^verbatim>\<open>I_PacketRouter\<close>) and so an argument here.

  A connection is the list of the pieces its \<^verbatim>\<open>Read\<close> returns; a piece that does not fit into the
  slice it is read into is continued by the next \<^verbatim>\<open>Read\<close>, an empty slice reads nothing, and after the
  last piece \<^verbatim>\<open>Read\<close> fails (the client has closed, or the server is shutting down).
\<close>

section \<open>The language\<close>

text \<open>Conversions between the integer types, and slices; a slice out of range is a panic.\<close>

definition int32 :: "int \<Rightarrow> int" where
  "int32 x = signed_take_bit 31 x"

definition uint32 :: "int \<Rightarrow> u32" where
  "uint32 x = word_of_int x"

definition slice :: "'a list \<Rightarrow> int \<Rightarrow> int \<Rightarrow> 'a list option" where
  "slice xs lo hi =
     (if 0 \<le> lo \<and> lo \<le> hi \<and> hi \<le> int (length xs) then Some (take (nat (hi - lo)) (drop (nat lo) xs)) else None)"

definition FormatInt :: "int \<Rightarrow> string" where
  "FormatInt x = (if x < 0 then ''-'' @ decimal (nat (- x)) else decimal (nat x))"

text \<open>
  A string as \<^verbatim>\<open>json.Marshal\<close> writes it.  Bytes from 0x80 on are copied, which is what it does with
  valid UTF-8 other than U+2028 and U+2029.
\<close>

definition marshal_char :: "char \<Rightarrow> string" where
  "marshal_char c =
     (if c = CHR 0x22 \<or> c = CHR 0x5C then [CHR 0x5C, c]
      else if c = CHR 0x08 then [CHR 0x5C, CHR ''b'']
      else if c = CHR 0x0C then [CHR 0x5C, CHR ''f'']
      else if c = CHR 0x0A then [CHR 0x5C, CHR ''n'']
      else if c = CHR 0x0D then [CHR 0x5C, CHR ''r'']
      else if c = CHR 0x09 then [CHR 0x5C, CHR ''t'']
      else if byte c < 0x20 \<or> c = CHR ''<'' \<or> c = CHR ''>'' \<or> c = CHR ''&'' then appendHex (byte c)
      else [c])"

definition marshal_string :: "string \<Rightarrow> string" where
  "marshal_string s = [CHR 0x22] @ concat (map marshal_char s) @ [CHR 0x22]"

section \<open>Connections\<close>

datatype read_answer = Reads char bytes
datatype write_answer = Writes nat | WriteError

type_synonym reads = "read_answer list"

record conn =
  c_writes :: "write_answer list"
  c_sent :: bytes
  c_open :: bool

definition conn_read :: "nat \<Rightarrow> reads \<Rightarrow> bytes option \<times> reads" where
  "conn_read room rs =
     (if room = 0 then (Some [], rs)
      else
        case rs of
          [] \<Rightarrow> (None, [])
        | Reads b bs # as \<Rightarrow>
            (Some (take room (b # bs)), case drop room (b # bs) of [] \<Rightarrow> as | b # bs \<Rightarrow> Reads b bs # as))"

text \<open>\<^verbatim>\<open>Write\<close>: the number of bytes taken, or an error; without further answers it takes everything.\<close>

definition conn_write :: "bytes \<Rightarrow> conn \<Rightarrow> nat option \<times> conn" where
  "conn_write d c =
     (case c_writes c of
        [] \<Rightarrow> (Some (length d), c\<lparr>c_sent := c_sent c @ d\<rparr>)
      | Writes n # as \<Rightarrow> (Some (min n (length d)), c\<lparr>c_writes := as, c_sent := c_sent c @ take n d\<rparr>)
      | WriteError # as \<Rightarrow> (None, c\<lparr>c_writes := as\<rparr>))"

section \<open>The server\<close>

record server =
  createTime :: i64
  uniqueIDCounter :: i64
  lastTime :: i64

definition CreateServer :: "i64 \<Rightarrow> server" where
  "CreateServer now = \<lparr>createTime = now, uniqueIDCounter = 0, lastTime = 0\<rparr>"

abbreviation (input) CLIENT_HEADER_SIZE :: int where "CLIENT_HEADER_SIZE \<equiv> 8"

definition genUniqueId :: "server \<Rightarrow> i64 \<times> server" where
  "genUniqueId s = (let n = uniqueIDCounter s + 1 in (createTime s + n, s\<lparr>uniqueIDCounter := n\<rparr>))"

definition ParseHeader :: "bytes \<Rightarrow> u32 \<times> u32" where
  "ParseHeader buffer = (ntohl (take 4 (drop 4 buffer)), ntohl (take 4 buffer))"

text \<open>
  \<^verbatim>\<open>matchFullPacket\<close>: the token, the number of bytes still missing, and the packet (its length, type
  and body); \<open>None\<close> is a panic.
\<close>

definition matchFullPacket :: "int \<Rightarrow> bytes \<Rightarrow> int \<Rightarrow> int \<Rightarrow> (int \<times> int \<times> int \<times> int \<times> bytes) option" where
  "matchFullPacket RecvBufSize buffer start len =
     (if len < CLIENT_HEADER_SIZE then Some (0, int32 (CLIENT_HEADER_SIZE - len), 0, 0, [])
      else
        case slice buffer start (int32 (start + len)) of
          None \<Rightarrow> None
        | Some b \<Rightarrow>
            let (bodyLen, Type) = ParseHeader b in
            if uint32 RecvBufSize < bodyLen then Some (0, 0, 0, 0, [])
            else if len < sint (bodyLen + 8) then
              Some (0, int32 (int32 (sint bodyLen + CLIENT_HEADER_SIZE) - len), 0, 0, [])
            else
              let lo = int32 (start + CLIENT_HEADER_SIZE) in
              (case slice buffer lo (int32 (lo + sint bodyLen)) of
                 None \<Rightarrow> None
               | Some body \<Rightarrow> Some (int32 (sint bodyLen + CLIENT_HEADER_SIZE), 0, sint bodyLen, sint Type, body)))"

text \<open>\<^verbatim>\<open>respToClient\<close>; the Boolean says whether it returns an error.\<close>

function resp_loop :: "bytes \<Rightarrow> conn \<Rightarrow> bool \<times> conn" where
  "resp_loop d c =
     (if d = [] then (False, c)
      else
        (case conn_write d c of
           (None, c) \<Rightarrow> (True, c)
         | (Some n, c) \<Rightarrow> if n = 0 then (True, c) else resp_loop (drop n d) c))"
  by pat_completeness auto
termination
  by (relation "measure (\<lambda>(d, c). length d)") auto

declare resp_loop.simps [simp del]

definition respToClient :: "u32 \<Rightarrow> bytes \<Rightarrow> conn \<Rightarrow> bool \<times> conn" where
  "respToClient msgType msgBody c =
     (if 2147483647 < length msgBody then (False, c)
      else resp_loop (header msgType (word_of_nat (length msgBody)) @ msgBody) c)"

text \<open>The greeting: the clock is read until it differs from the time of the last one.\<close>

fun hello_clock :: "i64 \<Rightarrow> i64 list \<Rightarrow> i64 option" where
  "hello_clock prev [] = None"
| "hello_clock prev (now # ts) = (if now = prev then hello_clock prev ts else Some now)"

definition genHello :: "string \<Rightarrow> i64 list \<Rightarrow> server \<Rightarrow> (string \<times> server) option" where
  "genHello Version clock s =
     (case hello_clock (lastTime s) clock of
        None \<Rightarrow> None
      | Some now \<Rightarrow>
          Some (''{'' @ marshal_string ''appid'' @ '':'' @ marshal_string ''no'' @
                '','' @ marshal_string ''appname'' @ '':'' @ marshal_string ''no'' @
                '','' @ marshal_string ''time'' @ '':'' @ marshal_string (FormatInt (sint now)) @
                '','' @ marshal_string ''version'' @ '':'' @ marshal_string Version @ ''}'',
                s\<lparr>lastTime := now\<rparr>))"

section \<open>Serving a client\<close>

text \<open>
  What a client handler works on: the server, its connection and the router.  The router takes the
  body of a packet and says whether that failed; it may also block for ever, which is \<open>None\<close>.
\<close>

type_synonym 'r router = "bytes \<Rightarrow> 'r \<Rightarrow> (bool \<times> 'r) option"

record 'r session =
  ss_server :: server
  ss_conn :: conn
  ss_router :: 'r

definition parsePacket :: "'r router \<Rightarrow> u32 \<Rightarrow> bytes \<Rightarrow> 'r session \<Rightarrow> (bool \<times> 'r session) option" where
  "parsePacket DispatchPacket packetType body ss =
     (if packetType = 1 then
        map_option (\<lambda>(err, r). (err, ss\<lparr>ss_router := r\<rparr>)) (DispatchPacket body (ss_router ss))
      else if packetType = 2 then
        (let (uid, s) = genUniqueId (ss_server ss);
             (err, c) = respToClient 2 (''{'' @ marshal_string ''uid'' @ '':'' @ FormatInt (sint uid) @ ''}'') (ss_conn ss)
         in Some (err, ss\<lparr>ss_server := s, ss_conn := c\<rparr>))
      else Some (False, ss))"

text \<open>
  The loop from the label \<^verbatim>\<open>ParseAgain\<close>: it ends by reading on, with the buffer and the two offsets as
  they are then, by leaving the handler, or in a panic.
\<close>

datatype parsed = ReadOn bytes int int | Leave | Panics

partial_function (option) parse_again ::
  "'r router \<Rightarrow> int \<Rightarrow> bytes \<Rightarrow> int \<Rightarrow> int \<Rightarrow> 'r session \<Rightarrow> (parsed \<times> 'r session) option" where
  "parse_again DispatchPacket RecvBufSize buf inOffset packetOffset ss =
     (case matchFullPacket RecvBufSize buf (int32 packetOffset) (int32 (inOffset - packetOffset)) of
        None \<Rightarrow> Some (Panics, ss)
      | Some (token, needs, packetLen, packetType, body) \<Rightarrow>
          if token = 0 then
            (if needs = 0 then Some (Leave, ss)
             else if RecvBufSize - inOffset < needs then
               (if RecvBufSize div 2 < needs then Some (Leave, ss)
                else
                  let unParsedSize = inOffset - packetOffset in
                  Some (ReadOn (take (nat unParsedSize) (drop (nat packetOffset) buf) @ drop (nat unParsedSize) buf) unParsedSize 0, ss))
             else Some (ReadOn buf inOffset packetOffset, ss))
          else
            (case parsePacket DispatchPacket (uint32 packetType) body ss of
               None \<Rightarrow> None
             | Some (err, ss) \<Rightarrow>
                 if err then Some (Leave, ss)
                 else if packetOffset + token = inOffset then Some (ReadOn buf 0 0, ss)
                 else parse_again DispatchPacket RecvBufSize buf inOffset (packetOffset + token) ss))"

partial_function (option) client_loop ::
  "'r router \<Rightarrow> int \<Rightarrow> bytes \<Rightarrow> int \<Rightarrow> int \<Rightarrow> reads \<Rightarrow> 'r session \<Rightarrow> (bool \<times> 'r session) option" where
  "client_loop DispatchPacket RecvBufSize buf inOffset packetOffset rs ss =
     (case conn_read (length buf - nat inOffset) rs of
        (None, rs) \<Rightarrow> Some (False, ss)
      | (Some [], rs) \<Rightarrow> Some (False, ss)
      | (Some (x # xs), rs) \<Rightarrow>
          let buf = take (nat inOffset) buf @ (x # xs) @ drop (nat inOffset + length (x # xs)) buf;
              inOffset = inOffset + int (length (x # xs))
          in (case parse_again DispatchPacket RecvBufSize buf inOffset packetOffset ss of
                None \<Rightarrow> None
              | Some (Panics, ss) \<Rightarrow> Some (True, ss)
              | Some (Leave, ss) \<Rightarrow> Some (False, ss)
              | Some (ReadOn buf inOffset packetOffset, ss) \<Rightarrow>
                  client_loop DispatchPacket RecvBufSize buf inOffset packetOffset rs ss))"

text \<open>
  \<^verbatim>\<open>handleClient\<close>: whether it panics, and the session afterwards, with the connection closed; \<open>None\<close>
  when it does not end.
\<close>

definition handleClient ::
  "'r router \<Rightarrow> int \<Rightarrow> string \<Rightarrow> i64 list \<Rightarrow> reads \<Rightarrow> 'r session \<Rightarrow> (bool \<times> 'r session) option" where
  "handleClient DispatchPacket RecvBufSize Version clock rs ss =
     (case genHello Version clock (ss_server ss) of
        None \<Rightarrow> None
      | Some (handshake, s) \<Rightarrow>
          let ss = ss\<lparr>ss_server := s, ss_conn := snd (respToClient 0 handshake (ss_conn ss))\<rparr> in
          (case (if RecvBufSize < 0 then Some (True, ss)
                 else client_loop DispatchPacket RecvBufSize (replicate (nat RecvBufSize) CHR 0x00) 0 0 rs ss) of
             None \<Rightarrow> None
           | Some (panic, ss) \<Rightarrow> Some (panic, ss\<lparr>ss_conn := (ss_conn ss)\<lparr>c_open := False\<rparr>\<rparr>)))"

end
