(* ===== verification/Collector_Stream.thy ===== *)
theory Collector_Stream
  imports Collector_Server Layer_Streams
begin

text \<open>
  What the server of the collector agent makes of a stream of packets, however it is cut into pieces.
\<close>

section \<open>Integers and slices\<close>

lemma int32_id [simp]: "- 2147483648 \<le> x \<Longrightarrow> x < 2147483648 \<Longrightarrow> int32 x = x"
  by (simp add: int32_def signed_take_bit_int_eq_self)

lemma uint32_sint [simp]: "uint32 (sint (w :: u32)) = w"
  by (simp add: uint32_def)

lemma slice_nat: "a \<le> b \<Longrightarrow> b \<le> length xs \<Longrightarrow> slice xs (int a) (int b) = Some (take (b - a) (drop a xs))"
  by (simp add: slice_def flip: of_nat_diff)

lemma unat_uint32: "0 \<le> x \<Longrightarrow> x < 4294967296 \<Longrightarrow> unat (uint32 x) = nat x"
  by (simp add: uint32_def unat_eq_nat_uint uint_word_of_int)

lemma uint32_less: "0 \<le> x \<Longrightarrow> x < 4294967296 \<Longrightarrow> uint32 x < w \<longleftrightarrow> x < int (unat w)"
  by (simp only: word_less_nat_alt unat_uint32 nat_less_iff)

lemma sint_small: "unat (w :: u32) < 2147483648 \<Longrightarrow> sint w = int (unat w)"
  by (simp add: sint_small_32)

section \<open>Matching packets\<close>

text \<open>
  The buffer has its full length, and \<open>d\<close> is what it holds between the two offsets; the size is small
  enough for the 32-bit arithmetic of the source.
\<close>

definition holds :: "int \<Rightarrow> bytes \<Rightarrow> nat \<Rightarrow> nat \<Rightarrow> bytes \<Rightarrow> bool" where
  "holds n buf i p d \<longleftrightarrow> int (length buf) = n \<and> n < 2147483640 \<and> p \<le> i \<and> int i \<le> n \<and> d = take (i - p) (drop p buf)"

text \<open>How many bytes a beginning of a packet still needs.\<close>

definition missing :: "bytes \<Rightarrow> int" where
  "missing z = (if length z < 8 then 8 - int (length z) else 8 + int (body_length z) - int (length z))"

lemma packet_not_Nil [simp]: "packet m \<noteq> []"
  using packet_length [of m] by (metis add_eq_0_iff_both_eq_0 list.size(3) zero_neq_numeral)

lemma holds_length:
  assumes "holds n buf i p d"
  shows "length d = i - p" "p + length d = i" "take (length d) (drop p buf) = d"
  using assms by (auto simp: holds_def)

lemma holds_rest:
  assumes "holds n buf i p (x @ b)"
  shows "holds n buf i (p + length x) b" "p + length x = i - length b"
proof -
  have le: "p + (length x + length b) = i" using holds_length(2) [OF assms] by simp
  have "take (i - p) (drop p buf) = x @ b" using assms by (simp add: holds_def)
  then have "drop (length x) (take (i - p) (drop p buf)) = b" by simp
  then show "holds n buf i (p + length x) b" using assms le by (simp add: holds_def drop_take add.commute)
  show "p + length x = i - length b" using le by simp
qed

lemma match_header:
  assumes "holds n buf i p d" and "8 \<le> length d"
  shows "slice buf (int p) (int32 (int p + int (length d))) = Some d"
    and "ParseHeader d = (ntohl (take 4 (drop 4 d)), ntohl (take 4 d))"
proof -
  have "int p + int (length d) = int i" "int i < 2147483648" using assms by (auto simp: holds_def)
  then show "slice buf (int p) (int32 (int p + int (length d))) = Some d"
    using slice_nat [of p i buf] assms by (simp add: holds_def)
qed (simp add: ParseHeader_def)

lemma match_short:
  assumes h: "holds n buf i p d" and cut: "cut_short d"
  shows "matchFullPacket n buf (int p) (int (length d)) =
    Some (0, if 8 \<le> length d \<and> n < int (body_length d) then 0 else missing d, 0, 0, [])"
proof (cases "length d < 8")
  case True
  then show ?thesis by (simp add: matchFullPacket_def missing_def)
next
  case False
  let ?w = "ntohl (take 4 (drop 4 d))"
  have n: "0 \<le> n" "n < 2147483640" using h by (auto simp: holds_def)
  have lt: "uint32 n < ?w \<longleftrightarrow> n < int (body_length d)"
    using uint32_less [of n] n by (simp add: body_length_def)
  show ?thesis
  proof (cases "n < int (body_length d)")
    case True
    then show ?thesis using match_header [OF h] False lt by (simp add: matchFullPacket_def)
  next
    case F: False
    have b: "unat ?w = body_length d" by (simp add: body_length_def)
    have s: "sint ?w = int (body_length d)" using sint_small [of ?w] F n b by simp
    have "unat (?w + 8) = body_length d + 8" using b F n by (simp add: unat_word_ariths)
    then have s8: "sint (?w + 8) = int (body_length d) + 8" using sint_small [of "?w + 8"] F n by simp
    have "int (length d) < int (body_length d) + 8" using cut False by (simp add: cut_short_def)
    then show ?thesis
      using match_header [OF h] False F lt s s8 n by (simp add: matchFullPacket_def missing_def)
  qed
qed

lemma match_packet:
  assumes h: "holds n buf i p d" and d: "d = packet m @ y" and m: "int (length (snd m)) \<le> n"
  shows "matchFullPacket n buf (int p) (int (length d)) =
    Some (int (length (packet m)), 0, int (length (snd m)), sint (fst m), snd m)"
proof -
  let ?w = "ntohl (take 4 (drop 4 d))"
  have n: "0 \<le> n" "n < 2147483640" using h by (auto simp: holds_def)
  have len: "8 + length (snd m) \<le> length d" unfolding d by simp
  have sz: "sized m" using m n by simp
  have parts: "ntohl (take 4 d) = fst m" "unat ?w = length (snd m)" "take (length (snd m)) (drop 8 d) = snd m"
    using packet_parts [OF sz, of y] unfolding d [symmetric] by (simp_all add: body_length_def)
  have nlt: "\<not> uint32 n < ?w" using uint32_less [of n ?w] n m unfolding parts(2) by simp
  have s: "sint ?w = int (length (snd m))" using sint_small [of ?w] m n parts(2) by simp
  have "unat (?w + 8) = length (snd m) + 8" using parts(2) m n by (simp add: unat_word_ariths)
  then have s8: "sint (?w + 8) = int (length (snd m)) + 8" using sint_small [of "?w + 8"] m n by simp
  have pi: "p + 8 + length (snd m) \<le> i" using len holds_length(2) [OF h] by simp
  then have le: "p + 8 + length (snd m) \<le> length buf" using h by (simp add: holds_def)
  have body: "take (length (snd m)) (drop (p + 8) buf) = snd m"
  proof -
    have "drop 8 d = take (i - p - 8) (drop (p + 8) buf)" using h by (simp add: holds_def drop_take add.commute)
    moreover have "length (snd m) \<le> i - p - 8" using pi by simp
    ultimately show ?thesis using parts(3) by (simp add: min_absorb1)
  qed
  have c: "int32 (int p + 8) = int (p + 8)" "int32 (int (p + 8) + int (length (snd m))) = int (p + 8 + length (snd m))"
    using le n h by (simp_all add: holds_def)
  have "slice buf (int (p + 8)) (int (p + 8 + length (snd m))) = Some (snd m)"
    using slice_nat [of "p + 8" "p + 8 + length (snd m)" buf] le body by simp
  then show ?thesis
    using match_header [OF h] len nlt s s8 parts(1) m n c by (simp add: matchFullPacket_def Let_def)
qed

section \<open>Serving packets\<close>

text \<open>The packets one after the other, until one of them fails.\<close>

fun serve :: "'r router \<Rightarrow> (u32 \<times> bytes) list \<Rightarrow> 'r session \<Rightarrow> (bool \<times> 'r session) option" where
  "serve D [] ss = Some (False, ss)"
| "serve D (m # ms) ss =
     (case parsePacket D (fst m) (snd m) ss of
        None \<Rightarrow> None
      | Some (err, ss) \<Rightarrow> if err then Some (True, ss) else serve D ms ss)"

lemma serve_append:
  "serve D (ms @ ms') ss = (case serve D ms ss of None \<Rightarrow> None | Some (err, ss) \<Rightarrow> if err then Some (True, ss) else serve D ms' ss)"
  by (induction ms arbitrary: ss) (simp_all split: option.splits prod.splits)

text \<open>What the handler does when a packet has begun and not ended: it reads on, or it leaves.\<close>

definition read_on :: "int \<Rightarrow> bytes \<Rightarrow> nat \<Rightarrow> nat \<Rightarrow> bytes \<Rightarrow> parsed" where
  "read_on n buf i p d =
     (if 8 \<le> length d \<and> n < int (body_length d) then Leave
      else if n - int i < missing d then
        (if n div 2 < missing d then Leave else ReadOn (d @ drop (length d) buf) (int (length d)) 0)
      else ReadOn buf (int i) (int p))"

lemma missing_pos: "cut_short d \<Longrightarrow> 0 < missing d"
  by (auto simp: missing_def cut_short_def)

lemma offsets:
  assumes "holds n buf i p d"
  shows "int32 (int p) = int p" "int32 (int i - int p) = int (length d)"
  using assms holds_length [OF assms] by (simp_all add: holds_def of_nat_diff)

lemma parse_again_short:
  assumes h: "holds n buf i p d" and cut: "cut_short d"
  shows "parse_again D n buf (int i) (int p) ss = Some (read_on n buf i p d, ss)"
proof -
  have "nat (int i - int p) = length d" "take (length d) (drop p buf) = d" "int i - int p = int (length d)"
    using holds_length [OF h] by simp_all
  then show ?thesis
    using match_short [OF h cut] missing_pos [OF cut] offsets [OF h]
    by (subst parse_again.simps) (simp add: read_on_def Let_def)
qed

lemma parse_again_packet:
  assumes h: "holds n buf i p d" and d: "d = packet m @ y" and m: "int (length (snd m)) \<le> n"
  shows "parse_again D n buf (int i) (int p) ss =
    (case parsePacket D (fst m) (snd m) ss of
       None \<Rightarrow> None
     | Some (err, ss) \<Rightarrow>
         if err then Some (Leave, ss)
         else if y = [] then Some (ReadOn buf 0 0, ss)
         else parse_again D n buf (int i) (int (p + length (packet m))) ss)"
proof -
  have "int p + int (length (packet m)) = int i \<longleftrightarrow> y = []"
    unfolding holds_length(2) [OF h, symmetric] d by simp
  then show ?thesis
    using match_packet [OF h d m] offsets [OF h]
    by (subst parse_again.simps) (auto split: option.splits)
qed

lemma parse_again_packets:
  assumes "holds n buf i p (packets ms @ z)" and "cut_short z" and "list_all (\<lambda>m. int (length (snd m)) \<le> n) ms"
  shows "parse_again D n buf (int i) (int p) ss =
    (case serve D ms ss of
       None \<Rightarrow> None
     | Some (err, ss) \<Rightarrow>
         Some (if err then Leave else if ms \<noteq> [] \<and> z = [] then ReadOn buf 0 0 else read_on n buf i (i - length z) z, ss))"
  using assms
proof (induction ms arbitrary: p ss)
  case Nil
  then have "i - length z = p" using holds_length [of n buf i p z] by (auto simp: holds_def)
  then show ?case using parse_again_short [of n buf i p z] Nil by simp
next
  case (Cons m ms)
  have h: "holds n buf i p (packet m @ (packets ms @ z))" using Cons.prems(1) by simp
  have h': "holds n buf i (p + length (packet m)) (packets ms @ z)"
    using holds_rest(1) [OF h] .
  show ?case
    using parse_again_packet [OF h refl, of D ss] Cons.IH [OF h'] Cons.prems(2,3)
    by (cases ms) (auto split: option.splits prod.splits)
qed

section \<open>The handler\<close>

definition pieces :: "bytes list \<Rightarrow> reads" where
  "pieces ds = map (\<lambda>d. Reads (hd d) (tl d)) ds"

lemma conn_read_pieces:
  assumes "[] \<notin> set ds" and "ds \<noteq> []" and "0 < room"
  shows "\<exists>d ds'. conn_read room (pieces ds) = (Some d, pieces ds') \<and> d \<noteq> [] \<and> length d \<le> room \<and>
     [] \<notin> set ds' \<and> concat ds = d @ concat ds'"
proof -
  obtain b bs es where ds: "ds = (b # bs) # es" using assms(1,2) by (cases ds; cases "hd ds") auto
  show ?thesis
  proof (cases "drop room (b # bs)")
    case Nil
    then show ?thesis using assms ds
      by (intro exI [of _ "b # bs"] exI [of _ es]) (auto simp: conn_read_def pieces_def)
  next
    case (Cons c r)
    have "take room (b # bs) @ c # r = b # bs" using Cons append_take_drop_id [of room "b # bs"] by simp
    then show ?thesis using assms ds Cons
      by (intro exI [of _ "take room (b # bs)"] exI [of _ "(c # r) # es"]) (auto simp: conn_read_def pieces_def)
  qed
qed

lemma conn_read_piece:
  assumes "x \<noteq> []" and "0 < room"
  shows "conn_read room (pieces (x # ds)) = (Some (take room x), pieces (if length x \<le> room then ds else drop room x # ds))"
  using assms by (cases x; cases "drop room x") (auto simp: conn_read_def pieces_def)

lemma holds_read:
  assumes "holds n buf i p d" and "length e \<le> length buf - i"
  shows "holds n (take i buf @ e @ drop (i + length e) buf) (i + length e) p (d @ e)"
proof -
  have le: "p \<le> i" "i \<le> length buf" using assms(1) by (auto simp: holds_def)
  have "take (i - p + length e) (drop p (take i buf @ e @ drop (i + length e) buf)) = drop p (take i buf) @ e"
    using le by simp
  then have "take (i + length e - p) (drop p (take i buf @ e @ drop (i + length e) buf)) = take (i - p) (drop p buf) @ e"
    using le by (simp add: drop_take)
  then show ?thesis using assms by (auto simp: holds_def)
qed

lemma client_loop_end: "client_loop D n buf i p [] ss = Some (False, ss)"
  by (subst client_loop.simps) (simp add: conn_read_def)

lemma client_loop_full: "length buf \<le> nat i \<Longrightarrow> client_loop D n buf i p rs ss = Some (False, ss)"
  by (subst client_loop.simps) (simp add: conn_read_def)

text \<open>One turn of the loop: a piece is read, the packets in it are served, and the handler reads on or leaves.\<close>

lemma client_loop_turn:
  assumes h: "holds n buf i p b" and rd: "conn_read (length buf - i) rs = (Some d, rs')" "d \<noteq> []" "length d \<le> length buf - i"
    and split: "b @ d = packets ms @ z" "cut_short z" "list_all (\<lambda>m. int (length (snd m)) \<le> n) ms"
  shows "client_loop D n buf (int i) (int p) rs ss =
    (let buf' = take i buf @ d @ drop (i + length d) buf in
     case serve D ms ss of
       None \<Rightarrow> None
     | Some (err, ss) \<Rightarrow>
         (case (if err then Leave else if ms \<noteq> [] \<and> z = [] then ReadOn buf' 0 0
                else read_on n buf' (i + length d) (i + length d - length z) z) of
            ReadOn buf j q \<Rightarrow> client_loop D n buf j q rs' ss
          | Leave \<Rightarrow> Some (False, ss)
          | Panics \<Rightarrow> Some (True, ss)))"
proof -
  obtain x xs where d: "d = x # xs" using rd(2) by (cases d) auto
  have "holds n (take i buf @ d @ drop (i + length d) buf) (i + length d) p (packets ms @ z)"
    using holds_read [OF h rd(3)] split(1) by simp
  note parse = parse_again_packets [OF this split(2,3), of D ss]
  have "client_loop D n buf (int i) (int p) rs ss =
    (case parse_again D n (take i buf @ d @ drop (i + length d) buf) (int (i + length d)) (int p) ss of
       None \<Rightarrow> None
     | Some (Panics, ss) \<Rightarrow> Some (True, ss)
     | Some (Leave, ss) \<Rightarrow> Some (False, ss)
     | Some (ReadOn buf j q, ss) \<Rightarrow> client_loop D n buf j q rs' ss)"
    using rd(1) unfolding d by (subst client_loop.simps) (simp add: Let_def algebra_simps)
  then show ?thesis
    unfolding parse by (simp add: Let_def split: option.splits prod.splits parsed.splits)
qed

text \<open>A packet that arrives alone at an empty buffer.\<close>

lemma client_loop_packet:
  assumes h: "holds n buf 0 0 []" and m: "int (length (packet m)) \<le> n"
  shows "\<exists>buf'. holds n buf' 0 0 [] \<and> client_loop D n buf 0 0 (pieces (packet m # ds)) ss =
    (case parsePacket D (fst m) (snd m) ss of
       None \<Rightarrow> None | Some (err, ss) \<Rightarrow> if err then Some (False, ss) else client_loop D n buf' 0 0 (pieces ds) ss)"
proof -
  let ?buf = "packet m @ drop (length (packet m)) buf"
  have le: "length (packet m) \<le> length buf" "0 < length buf" using h m by (auto simp: holds_def)
  then have "conn_read (length buf - 0) (pieces (packet m # ds)) = (Some (packet m), pieces ds)"
    using conn_read_piece [of "packet m" "length buf" ds] by simp
  from client_loop_turn [OF h this, of "[m]" "[]" D ss] le m
  have "client_loop D n buf 0 0 (pieces (packet m # ds)) ss =
      (case parsePacket D (fst m) (snd m) ss of
         None \<Rightarrow> None | Some (err, ss) \<Rightarrow> if err then Some (False, ss) else client_loop D n ?buf 0 0 (pieces ds) ss)"
    by (auto simp: Let_def cut_short_def split: option.splits)
  moreover have "holds n ?buf 0 0 []" using h le by (auto simp: holds_def)
  ultimately show ?thesis by blast
qed

lemma packet_front:
  assumes "b @ w = packets (m # ms) @ z" and "sized m" and "cut_short b"
  shows "missing b = 8 + int (length (snd m)) - int (length b) \<or> length b < 8 \<and> missing b = 8 - int (length b)"
    and "length b < length (packet m)" and "8 \<le> length b \<Longrightarrow> body_length b = length (snd m)"
proof -
  have body: "body_length b = length (snd m)" if "8 \<le> length b"
    using packet_parts(2) [OF assms(2), of "packets ms @ z"] body_length_append [OF that, of w] assms(1) by simp
  show "length b < length (packet m)" using assms(3) body by (cases "length b < 8") (auto simp: cut_short_def)
  show "8 \<le> length b \<Longrightarrow> body_length b = length (snd m)" by (rule body)
  show "missing b = 8 + int (length (snd m)) - int (length b) \<or> length b < 8 \<and> missing b = 8 - int (length b)"
    using body by (auto simp: missing_def)
qed

text \<open>
  Reading on keeps what has been read; at the beginning of a packet that is at most half as long as
  the buffer the handler does not leave, and there is room to read into.
\<close>

lemma read_on_holds:
  assumes h: "holds n buf i p b" and cut: "cut_short b" and "read_on n buf i p b \<noteq> Leave"
  shows "\<exists>buf' i' p'. read_on n buf i p b = ReadOn buf' (int i') (int p') \<and> holds n buf' i' p' b \<and> (int i' < n \<or> int (length b) = n)"
proof (cases "n - int i < missing b")
  case True
  have "length b \<le> length buf" using h by (auto simp: holds_def)
  then have "holds n (b @ drop (length b) buf) (length b) 0 b" using h by (auto simp: holds_def)
  moreover have "int (length b) \<le> n" using h \<open>length b \<le> length buf\<close> by (simp add: holds_def)
  moreover have "read_on n buf i p b = ReadOn (b @ drop (length b) buf) (int (length b)) (int 0)"
    using True assms(3) by (auto simp: read_on_def split: if_splits)
  ultimately show ?thesis by force
next
  case False
  then have "read_on n buf i p b = ReadOn buf (int i) (int p)" using assms(3) by (auto simp: read_on_def split: if_splits)
  moreover have "int i < n" using False missing_pos [OF cut] by linarith
  ultimately show ?thesis using h by blast
qed

lemma read_on_stays:
  assumes "b @ w = packets (m # ms) @ z" and "cut_short b" and "2 * int (length (snd m)) \<le> n" and "16 \<le> n" and "n < 2147483640"
  shows "read_on n buf i p b \<noteq> Leave" and "int (length b) < n"
proof -
  have sz: "sized m" using assms(3,5) by simp
  note front = packet_front [OF assms(1) sz assms(2)]
  have "missing b \<le> n div 2" using front(1,3) assms(3,4) by (auto simp: missing_def)
  moreover have "\<not> (8 \<le> length b \<and> n < int (body_length b))" using front(3) assms(3) by auto
  ultimately show "read_on n buf i p b \<noteq> Leave" by (simp add: read_on_def not_less)
  show "int (length b) < n" using front(2) assms(3,4) by simp
qed

text \<open>After a turn the handler goes on with the rest of the packets, if it does so wherever it may read on.\<close>

lemma after_turn:
  assumes hb: "holds n buf i p b" and cut: "cut_short b" and rest: "b @ w = packets ms @ z"
    and half: "list_all (\<lambda>m. 2 * int (length (snd m)) \<le> n) ms" and n: "16 \<le> n"
    and go: "\<And>buf1 i1 p1. holds n buf1 i1 p1 b \<Longrightarrow> (ms \<noteq> [] \<Longrightarrow> int i1 < n) \<Longrightarrow>
      client_loop D n buf1 (int i1) (int p1) rs ss = map_option (\<lambda>(err, ss). (False, ss)) (serve D ms ss)"
  shows "(case (if c \<and> b = [] then ReadOn buf 0 0 else read_on n buf i p b) of
        ReadOn buf j q \<Rightarrow> client_loop D n buf j q rs ss | Leave \<Rightarrow> Some (False, ss) | Panics \<Rightarrow> Some (True, ss)) =
      map_option (\<lambda>(err, ss). (False, ss)) (serve D ms ss)"
proof -
  have small: "n < 2147483640" using hb by (simp add: holds_def)
  have stays: "read_on n buf i p b \<noteq> Leave \<and> int (length b) < n" if ne: "ms \<noteq> []"
  proof -
    obtain m ms' where "ms = m # ms'" using ne by (cases ms) auto
    then show ?thesis using read_on_stays(1) [of b w m ms' z n buf i p] read_on_stays(2) [of b w m ms' z n] rest cut half n small by simp
  qed
  consider (reset) "c \<and> b = []" | (leave) "\<not> (c \<and> b = [])" "read_on n buf i p b = Leave"
    | (stay) "\<not> (c \<and> b = [])" "read_on n buf i p b \<noteq> Leave" by blast
  then show ?thesis
  proof cases
    case reset
    have "holds n buf 0 0 b" using hb reset by (auto simp: holds_def)
    then show ?thesis using go [of buf 0 0] reset n by simp
  next
    case leave
    then have "ms = []" using stays by blast
    then show ?thesis using leave by auto
  next
    case stay
    then obtain buf1 i1 p1 where "read_on n buf i p b = ReadOn buf1 (int i1) (int p1)" "holds n buf1 i1 p1 b"
        "int i1 < n \<or> int (length b) = n"
      using read_on_holds [OF hb cut] by blast
    then show ?thesis using stay(1) go [of buf1 i1 p1] stays by auto
  qed
qed

text \<open>
  However the stream is cut, its packets are served, provided that none is longer than half of the
  buffer.
\<close>

lemma client_loop_stream:
  assumes "holds n buf i p b" and "[] \<notin> set ds" and "b @ concat ds = packets ms @ z" and "cut_short z" and "cut_short b"
    and "list_all (\<lambda>m. 2 * int (length (snd m)) \<le> n) ms" and "16 \<le> n" and "ms \<noteq> [] \<Longrightarrow> int i < n"
  shows "client_loop D n buf (int i) (int p) (pieces ds) ss = map_option (\<lambda>(err, ss). (False, ss)) (serve D ms ss)"
  using assms
proof (induction "length (concat ds)" arbitrary: buf i p b ds ms ss rule: less_induct)
  case less
  note h = less.prems(1)
  have n: "int (length buf) = n" "n < 2147483640" using h by (simp_all add: holds_def)
  have sz: "list_all sized ms" using less.prems(6) by (rule list.pred_mono_strong) (use n in simp)
  consider (over) "ds = [] \<or> length buf \<le> i" | (turn) "ds \<noteq> []" "i < length buf" by fastforce
  then show ?case
  proof cases
    case over
    have "ms = []"
    proof (rule ccontr)
      assume "ms \<noteq> []"
      then obtain m ms' where ms: "ms = m # ms'" by (cases ms) auto
      then have "ds = []" using over less.prems(8) n by auto
      then show False using packet_front(2) [of b "[]" m ms' z] less.prems(3,5) sz ms arg_cong [OF less.prems(3), of length] by simp
    qed
    then show ?thesis using over client_loop_end client_loop_full [of buf "int i"] by (auto simp: pieces_def)
  next
    case turn
    obtain d ds' where rd: "conn_read (length buf - i) (pieces ds) = (Some d, pieces ds')" "d \<noteq> []" "length d \<le> length buf - i"
        "[] \<notin> set ds'" "concat ds = d @ concat ds'"
      using conn_read_pieces [OF less.prems(2) turn(1), of "length buf - i"] turn(2) by auto
    have "(b @ d) @ concat ds' = packets ms @ z" using less.prems(3) rd(5) by simp
    then obtain ms1 ms2 b' where s: "ms = ms1 @ ms2" "b @ d = packets ms1 @ b'" "b' @ concat ds' = packets ms2 @ z" "cut_short b'"
      using split_stream [of "b @ d" "concat ds'" ms z] sz less.prems(4) by blast
    have half: "list_all (\<lambda>m. 2 * int (length (snd m)) \<le> n) ms2" and half1: "list_all (\<lambda>m. 2 * int (length (snd m)) \<le> n) ms1"
      using less.prems(6) s(1) by simp_all
    have fit: "list_all (\<lambda>m. int (length (snd m)) \<le> n) ms1" using half1 by (rule list.pred_mono_strong) simp
    let ?buf = "take i buf @ d @ drop (i + length d) buf" and ?i = "i + length d"
    note step = client_loop_turn [OF h rd(1-3) s(2,4) fit, of D ss]
    have hb: "holds n ?buf ?i (?i - length b') b'"
      using holds_rest [of n ?buf ?i p "packets ms1" b'] holds_read [OF h rd(3)] s(2) by simp
    have rest: "(case (if ms1 \<noteq> [] \<and> b' = [] then ReadOn ?buf 0 0 else read_on n ?buf ?i (?i - length b') b') of
        ReadOn buf j q \<Rightarrow> client_loop D n buf j q (pieces ds') ss1 | Leave \<Rightarrow> Some (False, ss1) | Panics \<Rightarrow> Some (True, ss1)) =
      map_option (\<lambda>(err, ss). (False, ss)) (serve D ms2 ss1)" for ss1
    proof (rule after_turn [OF hb s(4,3) half less.prems(7)])
      show "client_loop D n buf1 (int i1) (int p1) (pieces ds') ss1 = map_option (\<lambda>(err, ss). (False, ss)) (serve D ms2 ss1)"
        if "holds n buf1 i1 p1 b'" "ms2 \<noteq> [] \<Longrightarrow> int i1 < n" for buf1 i1 p1
        using less.hyps [of ds' buf1 i1 p1 b' ms2 ss1] that rd(2,4,5) s(3,4) half less.prems(4,7) by simp
    qed
    show ?thesis
    proof (cases "serve D ms1 ss")
      case None
      then show ?thesis using step s(1) by (simp add: serve_append)
    next
      case (Some r)
      obtain err ss1 where "r = (err, ss1)" by fastforce
      then show ?thesis using Some step s(1) rest [of ss1] by (simp add: serve_append Let_def)
    qed
  qed
qed

section \<open>Properties\<close>

text \<open>The handler has ended and closed the connection.\<close>

definition hang_up :: "bool \<times> 'r session \<Rightarrow> bool \<times> 'r session" where
  "hang_up r = (False, (snd r)\<lparr>ss_conn := (ss_conn (snd r))\<lparr>c_open := False\<rparr>\<rparr>)"

text \<open>The session when the greeting has been sent.\<close>

definition greeted :: "string \<Rightarrow> server \<Rightarrow> 'r session \<Rightarrow> 'r session" where
  "greeted h s ss = ss\<lparr>ss_server := s, ss_conn := snd (respToClient 0 h (ss_conn ss))\<rparr>"

lemma handleClient_loop:
  assumes "genHello Version clock (ss_server ss) = Some (h, s)" and "0 \<le> n"
    and "client_loop D n (replicate (nat n) CHR 0x00) 0 0 rs (greeted h s ss) = map_option (\<lambda>(err, ss). (False, ss)) r"
  shows "handleClient D n Version clock rs ss = map_option hang_up r"
  using assms by (cases r) (auto simp: handleClient_def greeted_def hang_up_def)

lemma holds_fresh: "0 \<le> n \<Longrightarrow> n < 2147483640 \<Longrightarrow> holds n (replicate (nat n) CHR 0x00) 0 0 []"
  by (simp add: holds_def)

text \<open>
  C6: The server serves every packet of a client, in order and exactly once, however the stream is cut
  into reads.  For a buffer of at least 16 bytes, a client that sends packets none of which is longer
  than half of the buffer, and perhaps an unfinished one, has exactly these packets served, one after
  the other, until one of them fails; then the connection is closed.  The handler ends when the stream
  ends and never panics; only a router that blocks can keep it from ending.
\<close>

theorem server_serves_stream:
  assumes "genHello Version clock (ss_server ss) = Some (h, s)" and "16 \<le> n" and "n < 2147483640"
    and "[] \<notin> set ds" and "concat ds = packets ms @ z" and "cut_short z" and "list_all (\<lambda>m. 2 * int (length (snd m)) \<le> n) ms"
  shows "handleClient D n Version clock (pieces ds) ss = map_option hang_up (serve D ms (greeted h s ss))"
proof (rule handleClient_loop [OF assms(1)])
  show "client_loop D n (replicate (nat n) CHR 0x00) 0 0 (pieces ds) (greeted h s ss) =
      map_option (\<lambda>(err, ss). (False, ss)) (serve D ms (greeted h s ss))"
    using client_loop_stream [OF holds_fresh, of n ds ms z D "greeted h s ss"] assms by (simp add: cut_short_def)
qed (use assms in simp)

text \<open>A router that keeps what it is given, and a session.\<close>

definition log_router :: "bytes list router" where
  "log_router body r = Some (False, r @ [body])"

definition idle_session :: "bytes list session" where
  "idle_session = \<lparr>ss_server = CreateServer 1, ss_conn = \<lparr>c_writes = [], c_sent = [], c_open = True\<rparr>, ss_router = []\<rparr>"

lemma greets: "genHello V [5] (ss_server idle_session) = Some (fst (the (genHello V [5] (CreateServer 1))), (CreateServer 1)\<lparr>lastTime := 5\<rparr>)"
  by (simp add: idle_session_def genHello_def CreateServer_def)

theorem server_serves_stream_witness:
  "map_option (\<lambda>r. ss_router (snd r))
     (handleClient log_router 64 ''v0.8.0'' [5] (pieces [take 5 (packets [(1, ''ab''), (1, ''c'')]), drop 5 (packets [(1, ''ab''), (1, ''c'')])]) idle_session) =
   Some [''ab'', ''c'']"
proof -
  let ?P = "packets [(1 :: u32, ''ab''), (1, ''c'')]"
  have "take 5 ?P \<noteq> []" "drop 5 ?P \<noteq> []" by (simp_all add: packet_def header_def htonl_def)
  then show ?thesis
    using server_serves_stream [OF greets, of 64 "[take 5 ?P, drop 5 ?P]" "[(1, ''ab''), (1, ''c'')]" "[]" log_router "''v0.8.0''"]
    by (simp add: cut_short_def parsePacket_def log_router_def hang_up_def greeted_def idle_session_def)
qed

text \<open>
  C29: A packet that fits into the buffer can be refused.  Take two packets of which the first leaves
  room for just the header of the second, and the second is longer than half of the buffer but fits
  into it.  If the client's bytes arrive in one piece, the handler closes the connection after the
  first packet and the second is lost; if they arrive packet by packet, both are served.
\<close>

theorem fitting_packet_refused:
  assumes hello: "genHello Version clock (ss_server ss) = Some (h, s)" and n: "n = int (length (packet p)) + 8" "n < 2147483640"
    and q: "n div 2 < int (length (snd q))" "int (length (packet q)) \<le> n"
  shows "handleClient D n Version clock (pieces [packet p @ packet q]) ss = map_option hang_up (serve D [p] (greeted h s ss)) \<and>
    handleClient D n Version clock (pieces [packet p, packet q]) ss = map_option hang_up (serve D [p, q] (greeted h s ss))"
proof
  let ?z = "take 8 (packet q)" and ?buf = "replicate (nat n) CHR 0x00" and ?s = "greeted h s ss"
  have nat: "nat n = length (packet p) + 8" using n by simp
  note fresh = holds_fresh [of n]
  show "handleClient D n Version clock (pieces [packet p @ packet q]) ss = map_option hang_up (serve D [p] ?s)"
  proof (rule handleClient_loop [OF hello])
    have body: "body_length ?z = length (snd q)" using packet_parts(2) [of q "[]"] q n body_length_append [of ?z "drop 8 (packet q)"] by simp
    have ne: "snd q \<noteq> []" using q(1) n by (cases "snd q") simp_all
    then have z: "cut_short ?z" "missing ?z = int (length (snd q))" using body q n by (simp_all add: cut_short_def missing_def)
    have "read_on n buf (nat n) (nat n - 8) ?z = Leave" for buf using z(2) q n ne by (simp add: read_on_def)
    then show "client_loop D n ?buf 0 0 (pieces [packet p @ packet q]) ?s = map_option (\<lambda>(err, ss). (False, ss)) (serve D [p] ?s)"
      using client_loop_turn [OF fresh, of _ "packet p @ ?z" _ "[p]" ?z D ?s] conn_read_piece [of "packet p @ packet q" "nat n"] n nat z(1)
      by (auto simp: Let_def split: option.splits)
  qed (use n in simp)
  show "handleClient D n Version clock (pieces [packet p, packet q]) ss = map_option hang_up (serve D [p, q] ?s)"
  proof (rule handleClient_loop [OF hello])
    obtain buf1 where b1: "holds n buf1 0 0 []" "client_loop D n ?buf 0 0 (pieces [packet p, packet q]) ?s =
        (case parsePacket D (fst p) (snd p) ?s of
           None \<Rightarrow> None | Some (err, ss) \<Rightarrow> if err then Some (False, ss) else client_loop D n buf1 0 0 (pieces [packet q]) ss)"
      using client_loop_packet [OF fresh, of p D "[packet q]" ?s] n by auto
    have "client_loop D n buf1 0 0 (pieces [packet q]) ss = map_option (\<lambda>(err, ss). (False, ss)) (serve D [q] ss)" for ss
    proof -
      have "client_loop D n buf 0 0 (pieces []) ss = Some (False, ss)" for buf ss by (simp add: pieces_def client_loop_end)
      then show ?thesis
        using client_loop_packet [OF b1(1) q(2), of D "[]" ss] by (cases "parsePacket D (fst q) (snd q) ss") auto
    qed
    then show "client_loop D n ?buf 0 0 (pieces [packet p, packet q]) ?s = map_option (\<lambda>(err, ss). (False, ss)) (serve D [p, q] ?s)"
      using b1(2) by (cases "parsePacket D (fst p) (snd p) ?s") auto
  qed (use n in simp)
qed

theorem fitting_packet_refused_witness:
  "map_option (\<lambda>r. ss_router (snd r)) (handleClient log_router 18 ''v0.8.0'' [5] (pieces [packet (1, ''ab'') @ packet (1, ''0123456789'')]) idle_session) =
     Some [''ab''] \<and>
   map_option (\<lambda>r. ss_router (snd r)) (handleClient log_router 18 ''v0.8.0'' [5] (pieces [packet (1, ''ab''), packet (1, ''0123456789'')]) idle_session) =
     Some [''ab'', ''0123456789'']"
  using fitting_packet_refused [OF greets, of 18 "(1, ''ab'')" "(1, ''0123456789'')" log_router "''v0.8.0''"]
  by (simp add: parsePacket_def log_router_def hang_up_def greeted_def idle_session_def)

end
