(* ===== verification/Collector_Span.thy ===== *)
theory Collector_Span
  imports Collector_Server
begin

text \<open>
  The spans of the collector agent: the data it decodes from a packet
  (\<^verbatim>\<open>collector-agent/agent/AgentRouter.go\<close>) with their accessors, and the small parsers of
  \<^verbatim>\<open>collector-agent/common/Utils.go\<close>.
\<close>

section \<open>Strings\<close>

type_synonym i32 = "32 word"

text \<open>\<^verbatim>\<open>strings.Split\<close> at a one-character separator, and \<^verbatim>\<open>strings.SplitN\<close> with at most two parts.\<close>

fun Split :: "char \<Rightarrow> string \<Rightarrow> string list" where
  "Split sep [] = [[]]"
| "Split sep (c # s) = (if c = sep then [] # Split sep s else (c # hd (Split sep s)) # tl (Split sep s))"

definition SplitN2 :: "char \<Rightarrow> string \<Rightarrow> string list" where
  "SplitN2 sep s =
     (if sep \<in> set s then [takeWhile (\<lambda>c. c \<noteq> sep) s, tl (dropWhile (\<lambda>c. c \<noteq> sep) s)] else [s])"

text \<open>\<^verbatim>\<open>strconv.ParseInt\<close> in base 10 with a number of bits; an error is \<open>None\<close>.\<close>

definition ParseInt :: "nat \<Rightarrow> string \<Rightarrow> int option" where
  "ParseInt bits s =
     (let neg = (s \<noteq> [] \<and> hd s = CHR ''-'');
          ds = (if s \<noteq> [] \<and> (hd s = CHR ''-'' \<or> hd s = CHR ''+'') then tl s else s);
          n = (if neg then - int (digits_val 0 ds) else int (digits_val 0 ds))
      in if ds = [] \<or> \<not> list_all isdigit ds \<or> n < - (2 ^ (bits - 1)) \<or> 2 ^ (bits - 1) \<le> n then None else Some n)"

definition ParseStringField :: "string \<Rightarrow> (string \<rightharpoonup> string)" where
  "ParseStringField v =
     foldl (\<lambda>ret item. case SplitN2 CHR ''='' item of [a, b] \<Rightarrow> ret(a \<mapsto> b) | _ \<Rightarrow> ret) Map.empty (Split CHR '' '' v)"

definition ParseDotFormatToTime :: "string \<Rightarrow> i64 option" where
  "ParseDotFormatToTime v =
     (case Split CHR ''.'' v of
        a # b # _ \<Rightarrow>
          (case ParseInt 32 a of
             None \<Rightarrow> None
           | Some sec \<Rightarrow> (case ParseInt 32 b of None \<Rightarrow> None | Some ms \<Rightarrow> Some (word_of_int sec * 1000 + word_of_int ms)))
      | _ \<Rightarrow> None)"

record PTransactionId =
  pt_AgentId :: string
  pt_AgentStartTime :: i64
  pt_Sequence :: i64

definition TypeV1_String_TransactionId :: "string \<Rightarrow> PTransactionId option" where
  "TypeV1_String_TransactionId tid_s =
     (case Split CHR ''^'' tid_s of
        agentId # startTime # sequenceId # _ \<Rightarrow>
          Some \<lparr>pt_AgentId = agentId,
                pt_AgentStartTime = (case ParseInt 64 startTime of Some v \<Rightarrow> word_of_int v | None \<Rightarrow> 0),
                pt_Sequence = (case ParseInt 64 sequenceId of Some v \<Rightarrow> word_of_int v | None \<Rightarrow> 0)\<rparr>
      | _ \<Rightarrow> None)"

section \<open>Spans\<close>

record TErrorInfo =
  er_Msg :: string
  er_File :: string
  er_Line :: i64

record TExceptionInfo =
  ex_ClassName :: string
  ex_Message :: string
  ex_StartTime :: i64

record TAsyncId =
  as_AsyncId :: i32
  as_Sequence :: i32

record TSpanEvent =
  ev_Name :: string
  ev_Sequence :: i32
  ev_Depth :: i32
  ev_ExceptionInfo :: string
  ev_ExceptionInfoV2 :: "TExceptionInfo option"
  ev_DestinationId :: string
  ev_NextSpanId :: i64
  ev_EndPoint :: string
  ev_StartElapsed :: i32
  ev_EndElapsed :: i32
  ev_StartElapsedV2 :: i32
  ev_EndElapsedV2 :: i32
  ev_ServiceType :: i32
  ev_Annotations :: "string list"
  ev_SqlMeta :: "string option"
  ev_AsyId :: i32

definition GetEndElapsed :: "TSpanEvent \<Rightarrow> i32" where
  "GetEndElapsed ev = (if ev_EndElapsedV2 ev \<noteq> 0 then ev_EndElapsedV2 ev else ev_EndElapsed ev)"

definition GetStartElapsed :: "TSpanEvent \<Rightarrow> i32" where
  "GetStartElapsed ev = (if ev_StartElapsedV2 ev \<noteq> 0 then ev_StartElapsedV2 ev else ev_StartElapsed ev)"

text \<open>A span; the list of its events may hold null pointers.\<close>

record TSpan =
  ts_AppServerType :: i32
  ts_AppServerTypeV2 :: i32
  ts_ParentAppServerType :: i32
  ts_ParentSpanId :: i64
  ts_ParentApplicationName :: string
  ts_StartTime :: i64
  ts_StartTimeV2 :: i64
  ts_ElapsedTime :: i32
  ts_ElapsedTimeV2 :: i32
  ts_AppId :: string
  ts_AppIdV2 :: string
  ts_AppName :: string
  ts_AppNameV2 :: string
  ts_Follows :: "TSpanEvent option list"
  ts_Annotations :: "string list"
  ts_SpanName :: string
  ts_SpanId :: i64
  ts_ServerType :: i32
  ts_TransactionId :: string
  ts_Uri :: string
  ts_UT :: string
  ts_EndPoint :: string
  ts_RemoteAddr :: string
  ts_AcceptorHost :: string
  ts_ExceptionInfo :: string
  ts_ExceptionInfoV2 :: "TExceptionInfo option"
  ts_ErrorInfo :: "TErrorInfo option"
  ts_ErrorMarked :: i32
  ts_NginxHeader :: string
  ts_ApacheHeader :: string
  ts_LocalAsyncId :: "TAsyncId option"

definition IsFailed :: "TSpan \<Rightarrow> bool" where
  "IsFailed span \<longleftrightarrow> ts_ErrorInfo span \<noteq> None \<or> 0 < length (ts_ExceptionInfo span)"

definition GetAppServerType :: "TSpan \<Rightarrow> i32" where
  "GetAppServerType span = (if ts_AppServerTypeV2 span \<noteq> 0 then ts_AppServerTypeV2 span else ts_AppServerType span)"

definition GetElapsedTime :: "TSpan \<Rightarrow> i32" where
  "GetElapsedTime span = (if ts_ElapsedTimeV2 span \<noteq> 0 then ts_ElapsedTimeV2 span else ts_ElapsedTime span)"

definition GetStartTime_span :: "TSpan \<Rightarrow> i64" where
  "GetStartTime_span span = (if ts_StartTimeV2 span \<noteq> 0 then ts_StartTimeV2 span else ts_StartTime span)"

definition GetAppid :: "TSpan \<Rightarrow> string" where
  "GetAppid span = (if 0 < length (ts_AppIdV2 span) then ts_AppIdV2 span else ts_AppId span)"

definition GetAppName :: "TSpan \<Rightarrow> string" where
  "GetAppName span = (if 0 < length (ts_AppNameV2 span) then ts_AppNameV2 span else ts_AppName span)"

definition FindHistogramLevel :: "TSpan \<Rightarrow> nat" where
  "FindHistogramLevel span =
     (let e = sint (GetElapsedTime span) in
      if e \<le> 100 then 0 else if e \<le> 300 then 1 else if e \<le> 500 then 2 else if e \<le> 1000 then 3
      else if e \<le> 3000 then 4 else if e \<le> 5000 then 5 else if e \<le> 8000 then 6 else 7)"

text \<open>
  \<^verbatim>\<open>GetAgentInfo\<close>: the application, its name and type, and the start time of its agent, or an error.
\<close>

datatype info_error = NoAppid | NoAppName | NoAppServerType

definition agent_start_time :: "i64 \<Rightarrow> string \<Rightarrow> string" where
  "agent_start_time configStart tid =
     (case Split CHR ''^'' tid of
        _ # start # _ # _ \<Rightarrow> if length start \<le> 10 then start @ ''000'' else start
      | _ \<Rightarrow> FormatInt (sint configStart) @ ''000'')"

definition GetAgentInfo :: "i64 \<Rightarrow> TSpan \<Rightarrow> info_error + string \<times> string \<times> i32 \<times> string" where
  "GetAgentInfo configStart span =
     (if length (GetAppid span) = 0 then Inl NoAppid
      else if length (GetAppName span) = 0 then Inl NoAppName
      else if GetAppServerType span = 0 then Inl NoAppServerType
      else Inr (GetAppid span, GetAppName span, GetAppServerType span, agent_start_time configStart (ts_TransactionId span)))"

text \<open>The span that \<^verbatim>\<open>DispatchPacket\<close> decodes into, and one with the fields that the router asks for.\<close>

definition default_span :: TSpan where
  "default_span =
     \<lparr>ts_AppServerType = 0, ts_AppServerTypeV2 = 0, ts_ParentAppServerType = 0, ts_ParentSpanId = - 1, ts_ParentApplicationName = [],
      ts_StartTime = 0, ts_StartTimeV2 = 0, ts_ElapsedTime = 0, ts_ElapsedTimeV2 = 0, ts_AppId = [], ts_AppIdV2 = [], ts_AppName = [],
      ts_AppNameV2 = [], ts_Follows = [], ts_Annotations = [], ts_SpanName = [], ts_SpanId = 0, ts_ServerType = 0,
      ts_TransactionId = [], ts_Uri = [], ts_UT = [], ts_EndPoint = [], ts_RemoteAddr = [], ts_AcceptorHost = [], ts_ExceptionInfo = [],
      ts_ExceptionInfoV2 = None, ts_ErrorInfo = None, ts_ErrorMarked = 0, ts_NginxHeader = [], ts_ApacheHeader = [],
      ts_LocalAsyncId = None\<rparr>"

definition sample_span :: TSpan where
  "sample_span = default_span\<lparr>ts_AppIdV2 := ''app'', ts_AppNameV2 := ''name'', ts_AppServerTypeV2 := 1300\<rparr>"

end
