(* ===== verification/Collector_Stats.thy ===== *)
theory Collector_Stats
  imports Collector_Span
begin

text \<open>
  The statistics of an agent of the collector: response times (\<^verbatim>\<open>RequestCounter.go\<close>) and the
  histograms per URL template (\<^verbatim>\<open>UrlTemplate.go\<close>).  The clock readings are arguments; the mutexes
  make every operation atomic.
\<close>

section \<open>Request counter\<close>

record RequestCounter =
  rc_counter :: "i32 list"
  reqProfileLastTime :: i64
  reqTop1LastTime :: i64
  CTime :: i64
  rc_max :: u32
  rc_total :: u32
  rc_times :: u32

definition createRequestCounter :: "i64 \<Rightarrow> RequestCounter" where
  "createRequestCounter now =
     \<lparr>rc_counter = replicate 4 0, reqProfileLastTime = 0, reqTop1LastTime = 0, CTime = now, rc_max = 0, rc_total = 0, rc_times = 0\<rparr>"

definition getReqLevel :: "u32 \<Rightarrow> nat" where
  "getReqLevel e = (if e \<le> 1 then 0 else if e \<le> 3 then 1 else if e \<le> 5 then 2 else 3)"

definition updateReqTimeProfile :: "u32 \<Rightarrow> RequestCounter \<Rightarrow> RequestCounter" where
  "updateReqTimeProfile e r =
     (let counter = (if reqProfileLastTime r \<noteq> CTime r then map (\<lambda>_. 0) (rc_counter r) else rc_counter r);
          level = getReqLevel e
      in r\<lparr>rc_counter := counter[level := counter ! level + 1], reqProfileLastTime := CTime r\<rparr>)"

text \<open>The length of the window in seconds, \<^verbatim>\<open>statIntervalSec\<close>, is an argument.\<close>

definition updateReqTop1TimeSummary :: "i64 \<Rightarrow> u32 \<Rightarrow> RequestCounter \<Rightarrow> RequestCounter" where
  "updateReqTop1TimeSummary sec e r =
     (let r = (if sint (reqTop1LastTime r + sec + 1) \<le> sint (CTime r)
               then r\<lparr>reqTop1LastTime := CTime r, rc_total := 0, rc_times := 0, rc_max := 0\<rparr> else r);
          r = (if rc_max r < e then r\<lparr>rc_max := e\<rparr> else r)
      in r\<lparr>rc_total := rc_total r + e, rc_times := rc_times r + 1\<rparr>)"

definition GetMaxAvg :: "i64 \<Rightarrow> i64 \<Rightarrow> RequestCounter \<Rightarrow> u32 \<times> u32" where
  "GetMaxAvg sec now r =
     (if sint now < sint (reqTop1LastTime r + sec + 1) \<and> 0 < rc_times r then (rc_max r, rc_total r div rc_times r) else (0, 0))"

definition GetReqTimeProfiler :: "i64 \<Rightarrow> RequestCounter \<Rightarrow> i32 list" where
  "GetReqTimeProfiler now r = (if sint now < sint (reqProfileLastTime r + 2) then rc_counter r else [0, 0, 0, 0])"

definition GetLastBusyTime :: "RequestCounter \<Rightarrow> i64" where
  "GetLastBusyTime r = CTime r"

text \<open>
  Milliseconds to seconds, rounded up.  The source divides in \<^verbatim>\<open>float64\<close>, which is exact enough for
  32-bit operands that the rounding is that of the exact quotient.  What the conversion of a negative
  number to \<^verbatim>\<open>uint32\<close> gives depends on the platform; here it wraps.
\<close>

definition ceil_seconds :: "i32 \<Rightarrow> u32" where
  "ceil_seconds elapsed = uint32 (- ((- sint elapsed) div 1000))"

definition RequestCounter_Interceptor :: "i64 \<Rightarrow> i64 \<Rightarrow> TSpan \<Rightarrow> RequestCounter \<Rightarrow> RequestCounter" where
  "RequestCounter_Interceptor sec now span r =
     (if ts_LocalAsyncId span \<noteq> None then r
      else
        let elapsed = GetElapsedTime span in
        updateReqTimeProfile (ceil_seconds elapsed) (updateReqTop1TimeSummary sec elapsed (r\<lparr>CTime := now\<rparr>)))"

section \<open>Histograms per URL template\<close>

record uriStatHistogram =
  us_Total :: i64
  us_Max :: i64
  TimestampHistogram :: "i32 list"

definition new_histogram :: uriStatHistogram where
  "new_histogram = \<lparr>us_Total = 0, us_Max = 0, TimestampHistogram = replicate 8 0\<rparr>"

definition histogram_Update :: "TSpan \<Rightarrow> uriStatHistogram \<Rightarrow> uriStatHistogram" where
  "histogram_Update span h =
     (let elapseTime = scast (GetElapsedTime span) :: i64;
          h = h\<lparr>us_Total := us_Total h + elapseTime\<rparr>;
          h = (if sint (us_Max h) < sint elapseTime then h\<lparr>us_Max := elapseTime\<rparr> else h);
          level = FindHistogramLevel span
      in h\<lparr>TimestampHistogram := (TimestampHistogram h)[level := TimestampHistogram h ! level + 1]\<rparr>)"

record statHistograms =
  TotalHistogram :: uriStatHistogram
  FailedHistogram :: uriStatHistogram

definition stat_Update :: "TSpan \<Rightarrow> statHistograms \<Rightarrow> statHistograms" where
  "stat_Update span st =
     (let st = st\<lparr>TotalHistogram := histogram_Update span (TotalHistogram st)\<rparr> in
      if IsFailed span then st\<lparr>FailedHistogram := histogram_Update span (FailedHistogram st)\<rparr> else st)"

type_synonym UrlTemplateReport = "string \<rightharpoonup> statHistograms"

definition CreateUrlTemplateReport :: UrlTemplateReport where
  "CreateUrlTemplateReport = Map.empty"

definition updateUriSnapshot :: "TSpan \<Rightarrow> UrlTemplateReport \<Rightarrow> UrlTemplateReport" where
  "updateUriSnapshot span utr =
     (let st = (case utr (ts_UT span) of None \<Rightarrow> \<lparr>TotalHistogram = new_histogram, FailedHistogram = new_histogram\<rparr> | Some st \<Rightarrow> st)
      in utr(ts_UT span \<mapsto> stat_Update span st))"

definition UrlTemplate_Interceptor :: "TSpan \<Rightarrow> UrlTemplateReport \<Rightarrow> UrlTemplateReport" where
  "UrlTemplate_Interceptor span utr = (if 0 < length (ts_UT span) then updateUriSnapshot span utr else utr)"

text \<open>\<^verbatim>\<open>MoveUtReport\<close>: what has been collected, per template, and the report started anew.\<close>

definition ToUriHistogram :: "uriStatHistogram \<Rightarrow> i64 \<times> i64 \<times> i32 list" where
  "ToUriHistogram h = (us_Total h, us_Max h, TimestampHistogram h)"

definition MoveUtReport ::
  "UrlTemplateReport \<Rightarrow> (string \<rightharpoonup> (i64 \<times> i64 \<times> i32 list) \<times> (i64 \<times> i64 \<times> i32 list)) \<times> UrlTemplateReport" where
  "MoveUtReport utr =
     (map_option (\<lambda>st. (ToUriHistogram (TotalHistogram st), ToUriHistogram (FailedHistogram st))) \<circ> utr, Map.empty)"

end
