(* ===== verification/Collector_Sender.thy ===== *)
theory Collector_Sender
  imports Collector_Stats
begin

text \<open>
  What an agent of the collector does with a span: the error analysis (\<^verbatim>\<open>ErrorAnalysis.go\<close>) and the
  sender (\<^verbatim>\<open>SpanSender.go\<close>), which turns the span into a message in which names are replaced by
  numbers that have been registered with the backend.

  The calls to the backend are answered by a list of outcomes; the messages of the protocol are
  generated code and appear as the fields that the source sets.  \<^verbatim>\<open>murmur3\<close> is a library and so an
  argument.
\<close>

section \<open>Runs that may panic\<close>

text \<open>A call on a state: the value it returns, or \<open>None\<close> when it panics, and the state then.\<close>

type_synonym ('s, 'a) grun = "'s \<Rightarrow> 'a option \<times> 's"

definition returnG :: "'a \<Rightarrow> ('s, 'a) grun" where
  "returnG x s = (Some x, s)"

definition bindG :: "('s, 'a) grun \<Rightarrow> ('a \<Rightarrow> ('s, 'b) grun) \<Rightarrow> ('s, 'b) grun" where
  "bindG m f s = (case m s of (None, s) \<Rightarrow> (None, s) | (Some x, s) \<Rightarrow> f x s)"

fun mapG :: "('a \<Rightarrow> ('s, 'b) grun) \<Rightarrow> 'a list \<Rightarrow> ('s, 'b list) grun" where
  "mapG f [] = returnG []"
| "mapG f (x # xs) = bindG (f x) (\<lambda>y. bindG (mapG f xs) (\<lambda>ys. returnG (y # ys)))"

section \<open>Error analysis\<close>

record PException =
  px_ExceptionMessage :: string
  px_ExceptionClassName :: string
  px_StartTime :: i64
  px_ExceptionId :: i64
  px_ExceptionDepth :: i32

record PExceptionMetaData =
  pm_TransactionId :: "PTransactionId option"
  pm_SpanId :: i64
  pm_UriTemplate :: string
  pm_Exceptions :: "PException list"

text \<open>The filter: the counter of exceptions and what has been handed to the sending goroutines.\<close>

record ErrorAnalysisFilter =
  ea_id :: i64
  ea_sent :: "PExceptionMetaData list"

definition getNewExceptionId :: "(ErrorAnalysisFilter, i64) grun" where
  "getNewExceptionId e = (Some (ea_id e + 1), e\<lparr>ea_id := ea_id e + 1\<rparr>)"

text \<open>A null pointer among the events is dereferenced, which panics.\<close>

fun parseException ::
  "TSpanEvent option list \<Rightarrow> i64 \<Rightarrow> i32 \<Rightarrow> TExceptionInfo option \<Rightarrow> i64 \<Rightarrow> (ErrorAnalysisFilter, PException list) grun" where
  "parseException [] parentErrorId depth parentExp startTime = returnG []"
| "parseException (None # evs) parentErrorId depth parentExp startTime = (\<lambda>e. (None, e))"
| "parseException (Some ev # evs) parentErrorId depth parentExp startTime =
     (case ev_ExceptionInfoV2 ev of
        None \<Rightarrow> parseException evs parentErrorId depth parentExp startTime
      | Some v2 \<Rightarrow>
          bindG (case parentExp of
                   Some p \<Rightarrow> if ex_Message p = ex_Message v2 then returnG parentErrorId else getNewExceptionId
                 | None \<Rightarrow> getNewExceptionId) (\<lambda>id.
          bindG (parseException evs parentErrorId depth parentExp startTime) (\<lambda>exps.
          returnG (\<lparr>px_ExceptionMessage = ex_Message v2, px_ExceptionClassName = ex_ClassName v2,
                    px_StartTime = ex_StartTime v2 + startTime, px_ExceptionId = id, px_ExceptionDepth = depth + 1\<rparr> # exps))))"

definition scanTSpanTree :: "TSpan \<Rightarrow> (ErrorAnalysisFilter, PExceptionMetaData) grun" where
  "scanTSpanTree span =
     (let startTime = GetStartTime_span span;
          meta = (\<lambda>exps. \<lparr>pm_TransactionId = TypeV1_String_TransactionId (ts_TransactionId span), pm_SpanId = ts_SpanId span,
                          pm_UriTemplate = ts_UT span, pm_Exceptions = exps\<rparr>)
      in case ts_ExceptionInfoV2 span of
           Some v2 \<Rightarrow>
             bindG getNewExceptionId (\<lambda>id.
             bindG (parseException (ts_Follows span) id 0 (Some v2) startTime) (\<lambda>exps.
             returnG (meta (\<lparr>px_ExceptionMessage = ex_Message v2, px_ExceptionClassName = ex_ClassName v2,
                             px_StartTime = ex_StartTime v2 + startTime, px_ExceptionId = id, px_ExceptionDepth = 0\<rparr> # exps))))
         | None \<Rightarrow>
             bindG (parseException (ts_Follows span) 0 0 None startTime) (\<lambda>exps. returnG (meta exps)))"

definition ErrorAnalysis_Interceptor :: "TSpan \<Rightarrow> (ErrorAnalysisFilter, bool) grun" where
  "ErrorAnalysis_Interceptor span =
     (if ts_ErrorMarked span = 1 then
        bindG (scanTSpanTree span) (\<lambda>meta e. (Some True, e\<lparr>ea_sent := ea_sent e @ [meta]\<rparr>))
      else returnG True)"

section \<open>Registered names\<close>

datatype Meta_Type = META_Default_api | META_Web_request_api | META_String_api | META_Sql_uid_api | META_INVOCATION_API

type_synonym metaKey = "Meta_Type \<times> string"

text \<open>A value of the map has the dynamic type \<^verbatim>\<open>int32\<close> or \<^verbatim>\<open>[]byte\<close>; the other type assertion panics.\<close>

datatype meta_id = IdInt i32 | IdBytes bytes

fun asInt32 :: "meta_id \<Rightarrow> i32 option" where
  "asInt32 (IdInt i) = Some i"
| "asInt32 (IdBytes b) = None"

fun asBytes :: "meta_id \<Rightarrow> bytes option" where
  "asBytes (IdBytes b) = Some b"
| "asBytes (IdInt i) = None"

datatype rpc_answer = NoConnection | Refused | Confirmed

datatype meta_message = ApiMeta i32 string int | StringMeta i32 string | SqlUidMeta bytes string

section \<open>Messages\<close>

datatype ann_value = AnnString string | AnnSql bytes string | AnnHeader i64 i32 i32 i32 i32

record PSpanEvent =
  pe_StartElapsed :: i32
  pe_EndElapsed :: i32
  pe_ServiceType :: i32
  pe_Depth :: i32
  pe_Sequence :: i32
  pe_AsyncEvent :: i32
  pe_ApiId :: i32
  pe_ExceptionInfo :: "(i32 \<times> string) option"
  pe_NextEvent :: "string \<times> i64 \<times> string"
  pe_Annotation :: "(i32 \<times> ann_value) list"

record PSpan =
  ps_ParentSpanId :: i64
  ps_ServiceType :: i32
  ps_ApplicationServiceType :: i32
  ps_SpanId :: i64
  ps_StartTime :: i64
  ps_Elapsed :: i32
  ps_TransactionId :: "PTransactionId option"
  ps_ApiId :: i32
  ps_ParentInfo :: "string \<times> i32 \<times> string"
  ps_AcceptEvent :: "string \<times> string \<times> string"
  ps_Err :: i32
  ps_ExceptionInfo :: "(i32 \<times> string) option"
  ps_Annotation :: "(i32 \<times> ann_value) list"
  ps_SpanEvent :: "PSpanEvent list"

record PSpanChunk =
  pc_TransactionId :: "PTransactionId option"
  pc_SpanId :: i64
  pc_KeyTime :: i64
  pc_ApplicationServiceType :: i32
  pc_EndPoint :: string
  pc_LocalAsyncId :: "i32 \<times> i32"
  pc_SpanEvent :: "PSpanEvent list"

datatype PSpanMessage = MsgSpan PSpan | MsgChunk PSpanChunk

text \<open>
  The sender.  \<open>unique_id_count\<close> is the counter of the process, \<open>sd_answers\<close> what the backend will
  answer, \<open>sd_confirmed\<close> the registrations it has confirmed.
\<close>

record SpanSender =
  idMap :: "metaKey \<rightharpoonup> meta_id"
  pendingMeta :: "metaKey set"
  unique_id_count :: i32
  spanMessageBufferCh :: "PSpanMessage list"
  sendStreamRespCh :: "i32 list"
  sd_answers :: "rpc_answer list"
  sd_confirmed :: "meta_message list"

definition createSpanSender :: "rpc_answer list \<Rightarrow> SpanSender" where
  "createSpanSender answers =
     \<lparr>idMap = Map.empty, pendingMeta = {}, unique_id_count = 1, spanMessageBufferCh = [], sendStreamRespCh = [],
      sd_answers = answers, sd_confirmed = []\<rparr>"

definition cleanAllMetaData :: "SpanSender \<Rightarrow> SpanSender" where
  "cleanAllMetaData s = s\<lparr>idMap := Map.empty, pendingMeta := {}\<rparr>"

text \<open>\<^verbatim>\<open>SenderGrpcMetaData\<close>: the message of the kind of name, from the number in the map.\<close>

definition meta_message_of :: "metaKey \<Rightarrow> (metaKey \<rightharpoonup> meta_id) \<Rightarrow> meta_message option" where
  "meta_message_of key ids =
     (case ids key of
        None \<Rightarrow> None
      | Some mid \<Rightarrow>
          (case fst key of
             META_Default_api \<Rightarrow> map_option (\<lambda>i. ApiMeta i (snd key) 0) (asInt32 mid)
           | META_Web_request_api \<Rightarrow> map_option (\<lambda>i. ApiMeta i (snd key) 100) (asInt32 mid)
           | META_String_api \<Rightarrow> map_option (\<lambda>i. StringMeta i (snd key)) (asInt32 mid)
           | META_Sql_uid_api \<Rightarrow> map_option (\<lambda>b. SqlUidMeta b (snd key)) (asBytes mid)
           | META_INVOCATION_API \<Rightarrow> map_option (\<lambda>i. ApiMeta i (snd key) 200) (asInt32 mid)))"

definition SenderGrpcMetaData :: "metaKey \<Rightarrow> (SpanSender, unit) grun" where
  "SenderGrpcMetaData key s =
     (let answer = (case sd_answers s of [] \<Rightarrow> NoConnection | a # _ \<Rightarrow> a);
          s = s\<lparr>sd_answers := tl (sd_answers s)\<rparr>
      in if answer = NoConnection then (Some (), s)
         else
           case meta_message_of key (idMap s) of
             None \<Rightarrow> (None, s)
           | Some m \<Rightarrow>
               (Some (), if answer = Confirmed
                         then s\<lparr>pendingMeta := pendingMeta s - {key}, sd_confirmed := sd_confirmed s @ [m]\<rparr> else s))"

definition getMetaApiId :: "string \<Rightarrow> Meta_Type \<Rightarrow> (SpanSender, i32) grun" where
  "getMetaApiId name metaType s =
     (let key = (metaType, name) in
      case idMap s key of
        Some mid \<Rightarrow>
          if key \<notin> pendingMeta s then (asInt32 mid, s)
          else bindG (SenderGrpcMetaData key) (\<lambda>_ s. (asInt32 mid, s)) s
      | None \<Rightarrow>
          let newId = unique_id_count s + 1;
              s = s\<lparr>unique_id_count := newId, idMap := (idMap s)(key \<mapsto> IdInt newId), pendingMeta := insert key (pendingMeta s)\<rparr>
          in bindG (SenderGrpcMetaData key) (\<lambda>_. returnG newId) s)"

definition getSqlUidMetaApiId :: "(bytes \<Rightarrow> bytes) \<Rightarrow> string \<Rightarrow> (SpanSender, bytes) grun" where
  "getSqlUidMetaApiId murmur3 name s =
     (let key = (META_Sql_uid_api, name) in
      case idMap s key of
        Some mid \<Rightarrow>
          if key \<notin> pendingMeta s then (asBytes mid, s)
          else bindG (SenderGrpcMetaData key) (\<lambda>_ s. (asBytes mid, s)) s
      | None \<Rightarrow>
          let sqlUid = murmur3 name;
              s = s\<lparr>idMap := (idMap s)(key \<mapsto> IdBytes sqlUid), pendingMeta := insert key (pendingMeta s)\<rparr>
          in bindG (SenderGrpcMetaData key) (\<lambda>_. returnG sqlUid) s)"

section \<open>Building messages\<close>

text \<open>An annotation \<open>key:text\<close> with a 32-bit key; others are left out.\<close>

definition annotation_of :: "string \<Rightarrow> (i32 \<times> ann_value) option" where
  "annotation_of ann =
     (let key = takeWhile (\<lambda>c. c \<noteq> CHR '':'') ann in
      if CHR '':'' \<in> set ann \<and> key \<noteq> [] then
        map_option (\<lambda>v. (word_of_int v, AnnString (tl (dropWhile (\<lambda>c. c \<noteq> CHR '':'') ann)))) (ParseInt 32 key)
      else None)"

definition annotations_of :: "string list \<Rightarrow> (i32 \<times> ann_value) list" where
  "annotations_of anns = List.map_filter annotation_of anns"

definition exception_info :: "string \<Rightarrow> (SpanSender, (i32 \<times> string) option) grun" where
  "exception_info text =
     (if 0 < length text then bindG (getMetaApiId ''___EXP___'' META_String_api) (\<lambda>id. returnG (Some (id, text))) else returnG None)"

definition sql_annotation :: "(bytes \<Rightarrow> bytes) \<Rightarrow> string option \<Rightarrow> (SpanSender, (i32 \<times> ann_value) list) grun" where
  "sql_annotation murmur3 sql =
     (case sql of
        None \<Rightarrow> returnG []
      | Some q \<Rightarrow> bindG (getSqlUidMetaApiId murmur3 q) (\<lambda>id. returnG [(25, AnnSql id q)]))"

definition api_type :: "TSpanEvent \<Rightarrow> Meta_Type" where
  "api_type ev = (if ev_ServiceType ev = 100 then META_INVOCATION_API else META_Default_api)"

definition createPinpointSpanEv :: "(bytes \<Rightarrow> bytes) \<Rightarrow> TSpanEvent \<Rightarrow> (SpanSender, PSpanEvent) grun" where
  "createPinpointSpanEv murmur3 ev =
     bindG (getMetaApiId (ev_Name ev) (api_type ev)) (\<lambda>apiId.
     bindG (exception_info (ev_ExceptionInfo ev)) (\<lambda>exc.
     bindG (sql_annotation murmur3 (ev_SqlMeta ev)) (\<lambda>sql.
     returnG \<lparr>pe_StartElapsed = GetStartElapsed ev, pe_EndElapsed = GetEndElapsed ev, pe_ServiceType = ev_ServiceType ev,
              pe_Depth = ev_Depth ev, pe_Sequence = ev_Sequence ev, pe_AsyncEvent = ev_AsyId ev, pe_ApiId = apiId,
              pe_ExceptionInfo = exc, pe_NextEvent = (ev_DestinationId ev, ev_NextSpanId ev, ev_EndPoint ev),
              pe_Annotation = annotations_of (ev_Annotations ev) @ sql\<rparr>)))"

definition makeSpanChunk :: "TSpan \<Rightarrow> TAsyncId \<Rightarrow> PSpanChunk" where
  "makeSpanChunk span asy =
     \<lparr>pc_TransactionId = TypeV1_String_TransactionId (ts_TransactionId span), pc_SpanId = ts_SpanId span,
      pc_KeyTime = GetStartTime_span span, pc_ApplicationServiceType = ts_AppServerType span, pc_EndPoint = ts_EndPoint span,
      pc_LocalAsyncId = (as_AsyncId asy, as_Sequence asy), pc_SpanEvent = []\<rparr>"

text \<open>The header annotations, key 300.\<close>

definition int_field :: "(string \<rightharpoonup> string) \<Rightarrow> string \<Rightarrow> nat \<Rightarrow> int" where
  "int_field fs key bits = (case fs key of None \<Rightarrow> 0 | Some v \<Rightarrow> case ParseInt bits v of None \<Rightarrow> 0 | Some n \<Rightarrow> n)"

definition time_field :: "(string \<rightharpoonup> string) \<Rightarrow> string \<Rightarrow> i64" where
  "time_field fs key = (case fs key of None \<Rightarrow> 0 | Some v \<Rightarrow> case ParseDotFormatToTime v of None \<Rightarrow> 0 | Some t \<Rightarrow> t)"

definition nginx_annotation :: "string \<Rightarrow> (i32 \<times> ann_value) list" where
  "nginx_annotation h =
     (if 0 < length h then
        let f = ParseStringField h in [(300, AnnHeader (time_field f ''t'') 2 (ucast (time_field f ''D'')) 0 0)]
      else [])"

definition apache_annotation :: "string \<Rightarrow> (i32 \<times> ann_value) list" where
  "apache_annotation h =
     (if 0 < length h then
        let f = ParseStringField h; t = int_field f ''t'' 64 in
        [(300, AnnHeader (word_of_int (if 0 \<le> t then t div 1000 else - ((- t) div 1000))) 3 (word_of_int (int_field f ''D'' 32))
                 (word_of_int (int_field f ''i'' 32)) (word_of_int (int_field f ''b'' 32)))]
      else [])"

definition error_info :: "TErrorInfo option \<Rightarrow> (i32 \<times> string) option \<Rightarrow> (SpanSender, i32 \<times> (i32 \<times> string) option) grun" where
  "error_info err exc =
     (case err of
        None \<Rightarrow> returnG (0, exc)
      | Some e \<Rightarrow> bindG (getMetaApiId ''___ERR___'' META_String_api) (\<lambda>id. returnG (1, Some (id, er_Msg e))))"

definition makePinpointSpan :: "TSpan \<Rightarrow> (SpanSender, PSpan) grun" where
  "makePinpointSpan span =
     bindG (getMetaApiId (ts_SpanName span) META_Web_request_api) (\<lambda>apiId.
     bindG (exception_info (ts_ExceptionInfo span)) (\<lambda>exc.
     bindG (error_info (ts_ErrorInfo span) exc) (\<lambda>(err, exc).
     returnG \<lparr>ps_ParentSpanId = (if 0 < sint (ts_ParentSpanId span) then ts_ParentSpanId span else - 1),
              ps_ServiceType = ts_ServerType span, ps_ApplicationServiceType = GetAppServerType span, ps_SpanId = ts_SpanId span,
              ps_StartTime = GetStartTime_span span, ps_Elapsed = GetElapsedTime span,
              ps_TransactionId = TypeV1_String_TransactionId (ts_TransactionId span), ps_ApiId = apiId,
              ps_ParentInfo = (ts_ParentApplicationName span, ts_ParentAppServerType span, ts_AcceptorHost span),
              ps_AcceptEvent = (ts_Uri span, ts_EndPoint span, ts_RemoteAddr span), ps_Err = err, ps_ExceptionInfo = exc,
              ps_Annotation = annotations_of (ts_Annotations span) @ nginx_annotation (ts_NginxHeader span) @
                apache_annotation (ts_ApacheHeader span),
              ps_SpanEvent = []\<rparr>)))"

text \<open>\<^verbatim>\<open>makeSpanOrSpanChunk\<close>; null pointers among the events are skipped.\<close>

definition makeSpanOrSpanChunk :: "(bytes \<Rightarrow> bytes) \<Rightarrow> TSpan \<Rightarrow> (SpanSender, PSpanMessage) grun" where
  "makeSpanOrSpanChunk murmur3 span =
     bindG (mapG (createPinpointSpanEv murmur3) (List.map_filter (\<lambda>e. e) (ts_Follows span))) (\<lambda>spanEv.
     case ts_LocalAsyncId span of
       None \<Rightarrow> bindG (makePinpointSpan span) (\<lambda>p. returnG (MsgSpan (p\<lparr>ps_SpanEvent := spanEv\<rparr>)))
     | Some asy \<Rightarrow> returnG (MsgChunk ((makeSpanChunk span asy)\<lparr>pc_SpanEvent := spanEv\<rparr>)))"

text \<open>
  The filter.  The \<^verbatim>\<open>select\<close> may take any of its ready branches: \<open>prefer_resp\<close> is the choice when there is
  room for the message and the stream has reported a failure.
\<close>

definition SpanSender_Interceptor :: "(bytes \<Rightarrow> bytes) \<Rightarrow> nat \<Rightarrow> bool \<Rightarrow> TSpan \<Rightarrow> (SpanSender, bool) grun" where
  "SpanSender_Interceptor murmur3 AgentChannelSize prefer_resp span =
     bindG (makeSpanOrSpanChunk murmur3 span) (\<lambda>msg s.
       let room = length (spanMessageBufferCh s) < AgentChannelSize in
       (Some True,
        if sendStreamRespCh s \<noteq> [] \<and> (prefer_resp \<or> \<not> room) then cleanAllMetaData (s\<lparr>sendStreamRespCh := tl (sendStreamRespCh s)\<rparr>)
        else if room then s\<lparr>spanMessageBufferCh := spanMessageBufferCh s @ [msg]\<rparr>
        else s))"

text \<open>
  What a stream goroutine does to the channels (\<^verbatim>\<open>sendSpan\<close>): it takes a message, and when sending fails it
  says so, unless the channel of responses is full.
\<close>

definition stream_takes :: "SpanSender \<Rightarrow> SpanSender" where
  "stream_takes s = s\<lparr>spanMessageBufferCh := tl (spanMessageBufferCh s)\<rparr>"

definition stream_fails :: "nat \<Rightarrow> SpanSender \<Rightarrow> SpanSender" where
  "stream_fails SpanStreamParallelismSize s =
     (if length (sendStreamRespCh s) < SpanStreamParallelismSize then s\<lparr>sendStreamRespCh := sendStreamRespCh s @ [500]\<rparr> else s)"

end
