(* ===== verification/Collector_Router.thy ===== *)
theory Collector_Router
  imports Collector_Sender
begin

text \<open>
  The router of the collector agent (\<^verbatim>\<open>AgentRouter.go\<close>) and its agents (\<^verbatim>\<open>GrpcAgent.go\<close>): a span is
  decoded, the agent of its application is found or created, and the span is put into the queue of
  that agent, whose own goroutine runs the filters on it.  The streams to the backend (ping, commands,
  statistics) are calls of a library and are left out.

  The router runs in the goroutines of all clients at once.  Its critical sections are the functions
  \<open>find_agent\<close>, \<open>create_agent\<close>, \<open>clean_map\<close> and \<open>stop_agent\<close>; \<open>router_step\<close> interleaves them.
\<close>

section \<open>Agents\<close>

record GrpcAgent =
  AgentId :: string
  agentName :: string
  agentType :: i32
  ga_StartTime :: string
  ga_PingId :: i32
  tSpanBufCh :: "TSpan list"
  ga_stopped :: bool
  reqCounter :: RequestCounter
  utReport :: UrlTemplateReport
  errorAnalysis :: ErrorAnalysisFilter
  spanSender :: SpanSender

definition CreateGrpcAgent :: "string \<Rightarrow> string \<Rightarrow> i32 \<Rightarrow> i32 \<Rightarrow> string \<Rightarrow> i64 \<Rightarrow> rpc_answer list \<Rightarrow> GrpcAgent" where
  "CreateGrpcAgent appid name ty pingId startTime now answers =
     \<lparr>AgentId = appid, agentName = name, agentType = ty, ga_StartTime = startTime, ga_PingId = pingId, tSpanBufCh = [],
      ga_stopped = False, reqCounter = createRequestCounter now, utReport = CreateUrlTemplateReport,
      errorAnalysis = \<lparr>ea_id = 0, ea_sent = []\<rparr>, spanSender = createSpanSender answers\<rparr>"

definition CheckValid :: "TSpan \<Rightarrow> GrpcAgent \<Rightarrow> bool" where
  "CheckValid span ag \<longleftrightarrow> GetAppName span = agentName ag \<and> GetAppServerType span = agentType ag"

text \<open>\<^verbatim>\<open>SendSpan\<close>: the channel takes \<^verbatim>\<open>AgentChannelSize\<close> spans; when it is full the call blocks.\<close>

definition SendSpan :: "nat \<Rightarrow> TSpan \<Rightarrow> GrpcAgent \<Rightarrow> GrpcAgent option" where
  "SendSpan AgentChannelSize span ag =
     (if length (tSpanBufCh ag) < AgentChannelSize then Some (ag\<lparr>tSpanBufCh := tSpanBufCh ag @ [span]\<rparr>) else None)"

text \<open>
  One span of \<^verbatim>\<open>handleTSpanFromBuf\<close>: the filters in the order in which \<^verbatim>\<open>registerFilter\<close> adds them.  Every
  filter returns true, so all of them run; a panic in one ends the round and is recovered.  The counter
  of the process is loaded into the sender for the round.
\<close>

definition run_filters ::
  "(bytes \<Rightarrow> bytes) \<Rightarrow> nat \<Rightarrow> i64 \<Rightarrow> i64 \<Rightarrow> bool \<Rightarrow> TSpan \<Rightarrow> GrpcAgent \<Rightarrow> GrpcAgent" where
  "run_filters murmur3 AgentChannelSize sec now prefer_resp span ag =
     (let ag = ag\<lparr>reqCounter := RequestCounter_Interceptor sec now span (reqCounter ag)\<rparr>;
          ag = ag\<lparr>utReport := UrlTemplate_Interceptor span (utReport ag)\<rparr>;
          (r, ea) = ErrorAnalysis_Interceptor span (errorAnalysis ag);
          ag = ag\<lparr>errorAnalysis := ea\<rparr>
      in if r = None then ag
         else ag\<lparr>spanSender := snd (SpanSender_Interceptor murmur3 AgentChannelSize prefer_resp span (spanSender ag))\<rparr>)"

definition handleTSpan ::
  "(bytes \<Rightarrow> bytes) \<Rightarrow> nat \<Rightarrow> i64 \<Rightarrow> i64 \<Rightarrow> bool \<Rightarrow> i32 \<times> GrpcAgent \<Rightarrow> i32 \<times> GrpcAgent" where
  "handleTSpan murmur3 AgentChannelSize sec now prefer_resp p =
     (case p of (ids, ag) \<Rightarrow>
        case tSpanBufCh ag of
          [] \<Rightarrow> (ids, ag)
        | span # rest \<Rightarrow>
            let ag = ag\<lparr>tSpanBufCh := rest, spanSender := (spanSender ag)\<lparr>unique_id_count := ids\<rparr>\<rparr>;
                ag = run_filters murmur3 AgentChannelSize sec now prefer_resp span ag
            in (unique_id_count (spanSender ag), ag))"

section \<open>The router\<close>

text \<open>
  The agents ever created, in a list, so that a pointer to an agent is a position; the map holds the
  positions of those in service.
\<close>

record AgentRouter =
  AgentMap :: "string \<rightharpoonup> nat"
  PingId :: i32
  ar_agents :: "GrpcAgent list"

definition CreateAgentRouter :: AgentRouter where
  "CreateAgentRouter = \<lparr>AgentMap = Map.empty, PingId = 1, ar_agents = []\<rparr>"

definition find_agent :: "string \<Rightarrow> AgentRouter \<Rightarrow> nat option" where
  "find_agent appid r = AgentMap r appid"

text \<open>The section under the write lock looks once more before it creates the agent.\<close>

definition create_agent :: "i64 \<Rightarrow> rpc_answer list \<Rightarrow> string \<times> string \<times> i32 \<times> string \<Rightarrow> AgentRouter \<Rightarrow> nat \<times> AgentRouter" where
  "create_agent now answers info r =
     (case info of (appid, name, ty, startTime) \<Rightarrow>
        case AgentMap r appid of
          Some a \<Rightarrow> (a, r)
        | None \<Rightarrow>
            (length (ar_agents r),
             r\<lparr>ar_agents := ar_agents r @ [CreateGrpcAgent appid name ty (PingId r) startTime now answers],
               PingId := PingId r + 1, AgentMap := (AgentMap r)(appid \<mapsto> length (ar_agents r))\<rparr>))"

definition on_agent :: "nat \<Rightarrow> (GrpcAgent \<Rightarrow> GrpcAgent) \<Rightarrow> AgentRouter \<Rightarrow> AgentRouter" where
  "on_agent a f r = r\<lparr>ar_agents := (ar_agents r)[a := f (ar_agents r ! a)]\<rparr>"

definition send_to :: "nat \<Rightarrow> nat \<Rightarrow> TSpan \<Rightarrow> AgentRouter \<Rightarrow> AgentRouter option" where
  "send_to AgentChannelSize a span r = map_option (\<lambda>ag. on_agent a (\<lambda>_. ag) r) (SendSpan AgentChannelSize span (ar_agents r ! a))"

text \<open>
  \<^verbatim>\<open>DispatchPacket\<close> run without interference.  \<^verbatim>\<open>json.Unmarshal\<close> is the argument \<open>unmarshal\<close>; it fills in
  a span that has the defaults the source sets.
\<close>

definition DispatchPacket ::
  "(bytes \<Rightarrow> TSpan \<Rightarrow> TSpan option) \<Rightarrow> nat \<Rightarrow> i64 \<Rightarrow> i64 \<Rightarrow> rpc_answer list \<Rightarrow> AgentRouter router" where
  "DispatchPacket unmarshal AgentChannelSize configStart now answers rawData r =
     (case unmarshal rawData default_span of
        None \<Rightarrow> Some (True, r)
      | Some span \<Rightarrow>
          (case GetAgentInfo configStart span of
             Inl e \<Rightarrow> Some (True, r)
           | Inr info \<Rightarrow>
               let (a, r) = (case find_agent (fst info) r of Some a \<Rightarrow> (a, r) | None \<Rightarrow> create_agent now answers info r)
               in map_option (\<lambda>r. (False, r)) (send_to AgentChannelSize a span r)))"

text \<open>\<^verbatim>\<open>Clean\<close>: the idle agents leave the map under the lock and are stopped afterwards.\<close>

definition idle :: "i64 \<Rightarrow> i64 \<Rightarrow> GrpcAgent \<Rightarrow> bool" where
  "idle retireSec ctime ag \<longleftrightarrow> sint (GetLastBusyTime (reqCounter ag) + retireSec) < sint ctime"

definition clean_map :: "i64 \<Rightarrow> i64 \<Rightarrow> AgentRouter \<Rightarrow> AgentRouter" where
  "clean_map retireSec ctime r =
     r\<lparr>AgentMap := (\<lambda>appid. case AgentMap r appid of
                                 None \<Rightarrow> None
                               | Some a \<Rightarrow> if idle retireSec ctime (ar_agents r ! a) then None else Some a)\<rparr>"

definition expired :: "i64 \<Rightarrow> i64 \<Rightarrow> AgentRouter \<Rightarrow> nat list" where
  "expired retireSec ctime r =
     filter (\<lambda>a. AgentMap r (AgentId (ar_agents r ! a)) = Some a \<and> idle retireSec ctime (ar_agents r ! a)) [0..<length (ar_agents r)]"

definition stop_agent :: "nat \<Rightarrow> AgentRouter \<Rightarrow> AgentRouter" where
  "stop_agent a = on_agent a (\<lambda>ag. ag\<lparr>ga_stopped := True\<rparr>)"

definition Clean :: "i64 \<Rightarrow> i64 \<Rightarrow> AgentRouter \<Rightarrow> AgentRouter" where
  "Clean retireSec ctime r = fold stop_agent (expired retireSec ctime r) (clean_map retireSec ctime r)"

definition in_service :: "AgentRouter \<Rightarrow> nat list" where
  "in_service r = filter (\<lambda>a. AgentMap r (AgentId (ar_agents r ! a)) = Some a) [0..<length (ar_agents r)]"

definition Stop :: "AgentRouter \<Rightarrow> AgentRouter" where
  "Stop r = fold stop_agent (in_service r) (r\<lparr>AgentMap := Map.empty\<rparr>)"

section \<open>Interleavings\<close>

text \<open>
  A goroutine that dispatches a span: it has decoded it, it has missed the agent in the map, it holds
  the agent, or it has sent the span.  Agents taken from the map by \<^verbatim>\<open>Clean\<close> or \<^verbatim>\<open>Stop\<close> wait in
  \<open>sy_retired\<close> until they are stopped, that is, until their goroutines have ended.
\<close>

datatype phase = Decoded | Missed | Holds nat | Sent

record system =
  sy_router :: AgentRouter
  sy_tasks :: "(TSpan \<times> phase) list"
  sy_retired :: "nat list"
  sy_ids :: i32

definition start_system :: system where
  "start_system = \<lparr>sy_router = CreateAgentRouter, sy_tasks = [], sy_retired = [], sy_ids = 1\<rparr>"

definition set_phase :: "nat \<Rightarrow> phase \<Rightarrow> system \<Rightarrow> system" where
  "set_phase i ph s = s\<lparr>sy_tasks := (sy_tasks s)[i := (fst (sy_tasks s ! i), ph)]\<rparr>"

inductive router_step :: "(bytes \<Rightarrow> bytes) \<Rightarrow> nat \<Rightarrow> i64 \<Rightarrow> system \<Rightarrow> system \<Rightarrow> bool"
  for murmur3 :: "bytes \<Rightarrow> bytes" and chan :: nat and configStart :: i64 where
  decode: "GetAgentInfo configStart span = Inr info \<Longrightarrow>
     router_step murmur3 chan configStart s (s\<lparr>sy_tasks := sy_tasks s @ [(span, Decoded)]\<rparr>)"
| look: "i < length (sy_tasks s) \<Longrightarrow> sy_tasks s ! i = (span, Decoded) \<Longrightarrow>
     router_step murmur3 chan configStart s
       (set_phase i (case find_agent (GetAppid span) (sy_router s) of Some a \<Rightarrow> Holds a | None \<Rightarrow> Missed) s)"
| create: "i < length (sy_tasks s) \<Longrightarrow> sy_tasks s ! i = (span, Missed) \<Longrightarrow> GetAgentInfo configStart span = Inr info \<Longrightarrow>
     create_agent now answers info (sy_router s) = (a, r) \<Longrightarrow>
     router_step murmur3 chan configStart s (set_phase i (Holds a) (s\<lparr>sy_router := r\<rparr>))"
| send: "i < length (sy_tasks s) \<Longrightarrow> sy_tasks s ! i = (span, Holds a) \<Longrightarrow> send_to chan a span (sy_router s) = Some r \<Longrightarrow>
     router_step murmur3 chan configStart s (set_phase i Sent (s\<lparr>sy_router := r\<rparr>))"
| consume: "a < length (ar_agents (sy_router s)) \<Longrightarrow> \<not> ga_stopped (ar_agents (sy_router s) ! a) \<Longrightarrow>
     handleTSpan murmur3 chan sec now prefer_resp (sy_ids s, ar_agents (sy_router s) ! a) = (ids, ag) \<Longrightarrow>
     router_step murmur3 chan configStart s (s\<lparr>sy_router := on_agent a (\<lambda>_. ag) (sy_router s), sy_ids := ids\<rparr>)"
| clean: "router_step murmur3 chan configStart s
     (s\<lparr>sy_router := clean_map retireSec now (sy_router s), sy_retired := sy_retired s @ expired retireSec now (sy_router s)\<rparr>)"
| stop_all: "router_step murmur3 chan configStart s
     (s\<lparr>sy_router := (sy_router s)\<lparr>AgentMap := Map.empty\<rparr>, sy_retired := sy_retired s @ in_service (sy_router s)\<rparr>)"
| stop: "a \<in> set (sy_retired s) \<Longrightarrow> router_step murmur3 chan configStart s (s\<lparr>sy_router := stop_agent a (sy_router s)\<rparr>)"

inductive router_reach :: "(bytes \<Rightarrow> bytes) \<Rightarrow> nat \<Rightarrow> i64 \<Rightarrow> system \<Rightarrow> bool"
  for murmur3 :: "bytes \<Rightarrow> bytes" and chan :: nat and configStart :: i64 where
  start: "router_reach murmur3 chan configStart start_system"
| step: "router_reach murmur3 chan configStart s \<Longrightarrow> router_step murmur3 chan configStart s s' \<Longrightarrow>
     router_reach murmur3 chan configStart s'"

inductive_cases router_stepE: "router_step murmur3 chan configStart s s'"

end
