(* ===== verification/Router_Safety.thy ===== *)
theory Router_Safety
  imports Collector_Router
begin

text \<open>
  The router of the collector agent under all interleavings of its clients, its agents, the clean-up
  and the shutdown.
\<close>

abbreviation agent_at :: "system \<Rightarrow> nat \<Rightarrow> GrpcAgent" where
  "agent_at s a \<equiv> ar_agents (sy_router s) ! a"

abbreviation agents_of :: "system \<Rightarrow> nat" where
  "agents_of s \<equiv> length (ar_agents (sy_router s))"

text \<open>
  An agent keeps its identity for ever; it is in the map exactly as long as it has not been retired,
  and what it is sent are the spans of its own application.
\<close>

definition agent_ok :: "nat \<Rightarrow> nat \<Rightarrow> GrpcAgent \<Rightarrow> bool" where
  "agent_ok chan a ag \<longleftrightarrow> ga_PingId ag = word_of_nat (Suc a) \<and> length (tSpanBufCh ag) \<le> chan \<and>
     (\<forall>span \<in> set (tSpanBufCh ag). GetAppid span = AgentId ag)"

definition map_ok :: "system \<Rightarrow> bool" where
  "map_ok s \<longleftrightarrow>
     (\<forall>appid a. AgentMap (sy_router s) appid = Some a \<longrightarrow> a < agents_of s \<and> AgentId (agent_at s a) = appid \<and> a \<notin> set (sy_retired s)) \<and>
     (\<forall>a < agents_of s. a \<in> set (sy_retired s) \<or> AgentMap (sy_router s) (AgentId (agent_at s a)) = Some a)"

definition agents_ok :: "nat \<Rightarrow> system \<Rightarrow> bool" where
  "agents_ok chan s \<longleftrightarrow> (\<forall>a \<in> set (sy_retired s). a < agents_of s) \<and> PingId (sy_router s) = word_of_nat (Suc (agents_of s)) \<and>
     (\<forall>a < agents_of s. agent_ok chan a (agent_at s a) \<and> (ga_stopped (agent_at s a) \<longrightarrow> a \<in> set (sy_retired s)))"

definition tasks_ok :: "system \<Rightarrow> bool" where
  "tasks_ok s \<longleftrightarrow> (\<forall>i < length (sy_tasks s). \<forall>span a. sy_tasks s ! i = (span, Holds a) \<longrightarrow>
     a < agents_of s \<and> AgentId (agent_at s a) = GetAppid span)"

definition router_inv :: "nat \<Rightarrow> system \<Rightarrow> bool" where
  "router_inv chan s \<longleftrightarrow> map_ok s \<and> agents_ok chan s \<and> tasks_ok s"

lemmas inv_defs = map_ok_def agents_ok_def tasks_ok_def

lemma map_okD: "map_ok s \<Longrightarrow> AgentMap (sy_router s) appid = Some a \<Longrightarrow> a < agents_of s \<and> AgentId (agent_at s a) = appid \<and> a \<notin> set (sy_retired s)"
  by (simp add: map_ok_def)

lemma map_ok_in: "map_ok s \<Longrightarrow> a < agents_of s \<Longrightarrow> a \<notin> set (sy_retired s) \<Longrightarrow> AgentMap (sy_router s) (AgentId (agent_at s a)) = Some a"
  unfolding map_ok_def by blast

lemma router_inv_ids [simp]: "router_inv chan (s\<lparr>sy_ids := ids\<rparr>) = router_inv chan s"
  by (simp add: router_inv_def inv_defs)

lemma start_system_inv: "router_inv chan start_system"
  by (simp add: router_inv_def inv_defs start_system_def CreateAgentRouter_def)

lemma GetAgentInfo_appid: "GetAgentInfo conf span = Inr info \<Longrightarrow> fst info = GetAppid span"
  by (auto simp: GetAgentInfo_def split: if_splits)

lemma on_agent_simps [simp]:
  "AgentMap (on_agent a f r) = AgentMap r" "PingId (on_agent a f r) = PingId r"
  "length (ar_agents (on_agent a f r)) = length (ar_agents r)"
  "b < length (ar_agents r) \<Longrightarrow> ar_agents (on_agent a f r) ! b = (if b = a then f (ar_agents r ! a) else ar_agents r ! b)"
  by (simp_all add: on_agent_def nth_list_update)

text \<open>Changing an agent in a way that keeps its identity.\<close>

lemma on_agent_inv:
  assumes "router_inv chan s" and "a < agents_of s" and "AgentId ag = AgentId (agent_at s a)" and "agent_ok chan a ag"
    and "ga_stopped ag \<Longrightarrow> a \<in> set (sy_retired s)"
  shows "router_inv chan (s\<lparr>sy_router := on_agent a (\<lambda>_. ag) (sy_router s)\<rparr>)"
  using assms unfolding router_inv_def by (auto simp: inv_defs)

lemma set_phase_inv:
  assumes "router_inv chan s" and "i < length (sy_tasks s)" and "sy_tasks s ! i = (span, ph0)"
    and "\<And>a. ph = Holds a \<Longrightarrow> a < agents_of s \<and> AgentId (agent_at s a) = GetAppid span"
  shows "router_inv chan (set_phase i ph s)"
proof -
  have "tasks_ok (set_phase i ph s)"
    using assms by (auto simp: router_inv_def tasks_ok_def set_phase_def nth_list_update)
  then show ?thesis using assms(1) by (simp add: router_inv_def map_ok_def agents_ok_def set_phase_def)
qed

lemma create_agent_inv:
  assumes inv: "router_inv chan s" and c: "create_agent now answers info (sy_router s) = (a, r)"
  shows "router_inv chan (s\<lparr>sy_router := r\<rparr>)" and "a < length (ar_agents r)" and "AgentId (ar_agents r ! a) = fst info"
proof -
  obtain appid name ty st where info: "info = (appid, name, ty, st)" by (cases info) auto
  have "router_inv chan (s\<lparr>sy_router := r\<rparr>) \<and> a < length (ar_agents r) \<and> AgentId (ar_agents r ! a) = appid"
  proof (cases "AgentMap (sy_router s) appid")
    case (Some b)
    then show ?thesis using inv c info by (auto simp: create_agent_def router_inv_def map_ok_def)
  next
    case None
    define ag where "ag = CreateGrpcAgent appid name ty (PingId (sy_router s)) st now answers"
    have ag: "AgentId ag = appid" "agent_ok chan (agents_of s) ag" "\<not> ga_stopped ag"
      using inv by (simp_all add: ag_def CreateGrpcAgent_def agent_ok_def router_inv_def agents_ok_def)
    have r: "a = agents_of s" "ar_agents r = ar_agents (sy_router s) @ [ag]" "PingId r = PingId (sy_router s) + 1"
        "AgentMap r = (AgentMap (sy_router s))(appid \<mapsto> agents_of s)"
      using c None by (auto simp: create_agent_def info ag_def)
    let ?s = "s\<lparr>sy_router := r\<rparr>"
    have old: "agents_of ?s = Suc (agents_of s)" "b < agents_of s \<Longrightarrow> agent_at ?s b = agent_at s b" "agent_at ?s (agents_of s) = ag" for b
      using r(2) by (simp_all add: nth_append)
    have new: "agents_of s \<notin> set (sy_retired s)" using inv by (auto simp: router_inv_def agents_ok_def)
    have fresh: "b < agents_of s \<Longrightarrow> AgentId (agent_at s b) = appid \<Longrightarrow> b \<in> set (sy_retired s)" for b
      using inv None map_ok_in [of s b] by (auto simp: router_inv_def)
    have "map_ok ?s"
    proof -
      have mok: "map_ok s" using inv by (simp add: router_inv_def)
      have "b \<in> set (sy_retired ?s) \<or> AgentMap (sy_router ?s) (AgentId (agent_at ?s b)) = Some b" if b: "b < agents_of ?s" for b
      proof (cases "b < agents_of s \<and> AgentId (agent_at s b) \<noteq> appid")
        case True
        then have "b \<in> set (sy_retired s) \<or> AgentMap (sy_router s) (AgentId (agent_at s b)) = Some b" using mok by (simp add: map_ok_def)
        then show ?thesis using True old(2) r(4) by simp
      next
        case False
        then show ?thesis using b old fresh [of b] r(4) ag(1) by (cases "b < agents_of s") (simp_all add: less_Suc_eq)
      qed
      moreover have "b < agents_of ?s \<and> AgentId (agent_at ?s b) = x \<and> b \<notin> set (sy_retired ?s)" if "AgentMap (sy_router ?s) x = Some b" for x b
      proof (cases "x = appid")
        case False
        then have "b < agents_of s \<and> AgentId (agent_at s b) = x \<and> b \<notin> set (sy_retired s)" using mok that r(4) by (simp add: map_ok_def)
        then show ?thesis using old by simp
      qed (use that r(4) old new ag(1) in simp)
      ultimately show ?thesis unfolding map_ok_def by blast
    qed
    moreover have "agents_ok chan ?s"
      using inv r(3) ag(2,3) old unfolding router_inv_def agents_ok_def by (auto simp: less_Suc_eq)
    moreover have "tasks_ok ?s"
      using inv old unfolding router_inv_def tasks_ok_def by fastforce
    ultimately have "router_inv chan ?s" by (simp add: router_inv_def)
    then show ?thesis using r ag by simp
  qed
  then show "router_inv chan (s\<lparr>sy_router := r\<rparr>)" "a < length (ar_agents r)" "AgentId (ar_agents r ! a) = fst info"
    using info by simp_all
qed

lemma handleTSpan_keeps:
  assumes "handleTSpan murmur3 chan sec now prefer_resp (ids, ag) = (ids', ag')"
  shows "AgentId ag' = AgentId ag" "ga_PingId ag' = ga_PingId ag" "ga_stopped ag' = ga_stopped ag" "tSpanBufCh ag' = tl (tSpanBufCh ag)"
  using assms
  by (auto simp: handleTSpan_def run_filters_def Let_def split: list.splits prod.splits if_splits)

lemma clean_map_inv:
  assumes "router_inv chan s"
  shows "router_inv chan (s\<lparr>sy_router := clean_map sec now (sy_router s), sy_retired := sy_retired s @ expired sec now (sy_router s)\<rparr>)"
proof -
  let ?r = "sy_router s"
  let ?s = "s\<lparr>sy_router := clean_map sec now ?r, sy_retired := sy_retired s @ expired sec now ?r\<rparr>"
  have same: "ar_agents (clean_map sec now ?r) = ar_agents ?r" "PingId (clean_map sec now ?r) = PingId ?r" by (simp_all add: clean_map_def)
  have m: "AgentMap (clean_map sec now ?r) appid = Some a \<longleftrightarrow> AgentMap ?r appid = Some a \<and> \<not> idle sec now (agent_at s a)" for appid a
    by (auto simp: clean_map_def split: option.splits)
  have e: "a \<in> set (expired sec now ?r) \<longleftrightarrow> a < agents_of s \<and> AgentMap ?r (AgentId (agent_at s a)) = Some a \<and> idle sec now (agent_at s a)" for a
    by (auto simp: expired_def)
  have "map_ok ?s"
  proof -
    have "a \<in> set (sy_retired ?s) \<or> AgentMap (sy_router ?s) (AgentId (agent_at ?s a)) = Some a" if "a < agents_of ?s" for a
      using assms that m e same by (auto simp: router_inv_def map_ok_def)
    moreover have "a < agents_of ?s \<and> AgentId (agent_at ?s a) = appid \<and> a \<notin> set (sy_retired ?s)"
      if "AgentMap (sy_router ?s) appid = Some a" for appid a
      using assms that m e same by (auto simp: router_inv_def map_ok_def)
    ultimately show ?thesis unfolding map_ok_def by blast
  qed
  moreover have "agents_ok chan ?s" using assms e same by (auto simp: router_inv_def agents_ok_def)
  moreover have "tasks_ok ?s" using assms same by (simp add: router_inv_def tasks_ok_def)
  ultimately show ?thesis by (simp add: router_inv_def)
qed

lemma router_step_inv:
  assumes "router_step murmur3 chan conf s s'" and inv: "router_inv chan s"
  shows "router_inv chan s'"
  using assms(1)
proof cases
  case (decode span info)
  then show ?thesis using inv by (auto simp: router_inv_def inv_defs nth_append)
next
  case (look i span)
  have "find_agent (GetAppid span) (sy_router s) = Some a \<Longrightarrow> a < agents_of s \<and> AgentId (agent_at s a) = GetAppid span" for a
    using inv by (auto simp: router_inv_def map_ok_def find_agent_def)
  then show ?thesis unfolding look(1) by (intro set_phase_inv [OF inv look(2,3)]) (auto split: option.splits)
next
  case (create i span info now answers a r)
  have "fst info = GetAppid span" using GetAgentInfo_appid create(4) by blast
  then show ?thesis
    using create create_agent_inv [OF inv create(5)] set_phase_inv [of chan "s\<lparr>sy_router := r\<rparr>" i span _ "Holds a"] by simp
next
  case (send i span a r)
  have a: "a < agents_of s" "AgentId (agent_at s a) = GetAppid span"
    using inv send(2,3) by (simp_all add: router_inv_def tasks_ok_def)
  obtain ag where ag: "SendSpan chan span (agent_at s a) = Some ag" "r = on_agent a (\<lambda>_. ag) (sy_router s)"
    using send(4) by (auto simp: send_to_def)
  have ok: "agent_ok chan a (agent_at s a)" "ga_stopped (agent_at s a) \<Longrightarrow> a \<in> set (sy_retired s)"
    using inv a(1) by (simp_all add: router_inv_def agents_ok_def)
  have "AgentId ag = AgentId (agent_at s a)" "agent_ok chan a ag" "ga_stopped ag = ga_stopped (agent_at s a)"
    using ag(1) ok(1) a(2) by (auto simp: SendSpan_def agent_ok_def split: if_splits)
  then have "router_inv chan (s\<lparr>sy_router := r\<rparr>)" unfolding ag(2) using ok(2) by (intro on_agent_inv [OF inv a(1)]) simp_all
  then show ?thesis using send set_phase_inv [of chan "s\<lparr>sy_router := r\<rparr>" i span _ Sent] by simp
next
  case (consume a sec now prefer_resp ids ag)
  have "agent_ok chan a (agent_at s a)" using inv consume(2) by (simp add: router_inv_def agents_ok_def)
  then have "agent_ok chan a ag"
    using handleTSpan_keeps [OF consume(4)] by (cases "tSpanBufCh (agent_at s a)") (auto simp: agent_ok_def)
  then have "router_inv chan (s\<lparr>sy_router := on_agent a (\<lambda>_. ag) (sy_router s)\<rparr>)"
    using handleTSpan_keeps [OF consume(4)] consume(3) by (intro on_agent_inv [OF inv consume(2)]) simp_all
  then show ?thesis using consume(1) by simp
next
  case (clean sec now)
  then show ?thesis using clean_map_inv [OF inv] by simp
next
  case stop_all
  moreover have "map_ok (s\<lparr>sy_router := (sy_router s)\<lparr>AgentMap := Map.empty\<rparr>, sy_retired := sy_retired s @ in_service (sy_router s)\<rparr>)"
    using inv by (simp add: router_inv_def map_ok_def in_service_def)
  ultimately show ?thesis using inv by (auto simp: router_inv_def agents_ok_def tasks_ok_def in_service_def)
next
  case (stop a)
  have a: "a < agents_of s" "agent_ok chan a (agent_at s a)" using inv stop(2) by (auto simp: router_inv_def agents_ok_def)
  then show ?thesis
    using stop on_agent_inv [OF inv a(1), of "(agent_at s a)\<lparr>ga_stopped := True\<rparr>"] by (simp add: stop_agent_def on_agent_def agent_ok_def)
qed

lemma router_reach_inv: "router_reach murmur3 chan conf s \<Longrightarrow> router_inv chan s"
  by (induction rule: router_reach.induct) (auto intro: start_system_inv router_step_inv)

text \<open>
  C8: However the goroutines of the clients, of the agents, of the clean-up and of the shutdown are
  interleaved, an application never has two agents in service; every span in the queue of an agent is
  a span of the application of that agent, and the queue holds no more spans than its capacity; and an
  agent that has been stopped is not handed out any more.  As long as fewer than 2 to the 32 agents
  have been created, their numbers in the ping messages are distinct.
\<close>

theorem one_agent_per_application:
  assumes "router_reach murmur3 chan conf s" and "a < agents_of s" and "b < agents_of s"
  shows "(a \<notin> set (sy_retired s) \<and> b \<notin> set (sy_retired s) \<and> AgentId (agent_at s a) = AgentId (agent_at s b) \<longrightarrow> a = b) \<and>
    (\<forall>span \<in> set (tSpanBufCh (agent_at s a)). GetAppid span = AgentId (agent_at s a)) \<and> length (tSpanBufCh (agent_at s a)) \<le> chan \<and>
    (ga_stopped (agent_at s a) \<longrightarrow> (\<forall>appid. find_agent appid (sy_router s) \<noteq> Some a)) \<and>
    (agents_of s < 4294967295 \<and> ga_PingId (agent_at s a) = ga_PingId (agent_at s b) \<longrightarrow> a = b)"
proof (intro conjI)
  have inv: "map_ok s" "agents_ok chan s" using router_reach_inv [OF assms(1)] by (simp_all add: router_inv_def)
  have ok: "agent_ok chan a (agent_at s a)" "agent_ok chan b (agent_at s b)" "ga_stopped (agent_at s a) \<Longrightarrow> a \<in> set (sy_retired s)"
    using inv(2) assms(2,3) by (simp_all add: agents_ok_def)
  show "a \<notin> set (sy_retired s) \<and> b \<notin> set (sy_retired s) \<and> AgentId (agent_at s a) = AgentId (agent_at s b) \<longrightarrow> a = b"
    using map_ok_in [OF inv(1) assms(2)] map_ok_in [OF inv(1) assms(3)] by (metis option.inject)
  show "\<forall>span \<in> set (tSpanBufCh (agent_at s a)). GetAppid span = AgentId (agent_at s a)" "length (tSpanBufCh (agent_at s a)) \<le> chan"
    using ok(1) by (simp_all add: agent_ok_def)
  show "ga_stopped (agent_at s a) \<longrightarrow> (\<forall>appid. find_agent appid (sy_router s) \<noteq> Some a)"
    using ok(3) map_okD [OF inv(1)] by (auto simp: find_agent_def)
  show "agents_of s < 4294967295 \<and> ga_PingId (agent_at s a) = ga_PingId (agent_at s b) \<longrightarrow> a = b"
  proof
    assume e: "agents_of s < 4294967295 \<and> ga_PingId (agent_at s a) = ga_PingId (agent_at s b)"
    then have "(word_of_nat (Suc a) :: i32) = word_of_nat (Suc b)" using ok(1,2) unfolding agent_ok_def by metis
    then have "unat (word_of_nat (Suc a) :: i32) = unat (word_of_nat (Suc b) :: i32)" by (rule arg_cong)
    moreover have "Suc a < 4294967296" "Suc b < 4294967296" using e assms(2,3) by linarith+
    ultimately show "a = b" by (simp add: unsigned_of_nat take_bit_nat_eq_self del: of_nat_Suc)
  qed
qed

section \<open>A span that is lost\<close>

text \<open>What is in the queue of a stopped agent stays there.\<close>

lemma stopped_keeps:
  assumes "router_step murmur3 chan conf s s'" and "a < agents_of s" and "ga_stopped (agent_at s a)"
  shows "a < agents_of s' \<and> ga_stopped (agent_at s' a) \<and> set (tSpanBufCh (agent_at s a)) \<subseteq> set (tSpanBufCh (agent_at s' a))"
  using assms(1)
proof cases
  case (create i span info now answers b r)
  then show ?thesis
    using assms(2,3) by (auto simp: set_phase_def create_agent_def nth_append split: prod.splits option.splits)
next
  case (send i span b r)
  then obtain ag where "SendSpan chan span (agent_at s b) = Some ag" "r = on_agent b (\<lambda>_. ag) (sy_router s)"
    by (auto simp: send_to_def)
  then show ?thesis using send assms(2,3) by (auto simp: set_phase_def SendSpan_def split: if_splits)
qed (use assms(2,3) in \<open>auto simp: set_phase_def clean_map_def stop_agent_def\<close>)

lemma stopped_keeps_run:
  assumes "(router_step murmur3 chan conf)\<^sup>*\<^sup>* s s'" and "a < agents_of s" and "ga_stopped (agent_at s a)"
  shows "a < agents_of s' \<and> ga_stopped (agent_at s' a) \<and> set (tSpanBufCh (agent_at s a)) \<subseteq> set (tSpanBufCh (agent_at s' a))"
  using assms by (induction rule: rtranclp_induct) (blast dest: stopped_keeps)+

text \<open>A run in which the first span of an application creates its agent.\<close>

definition created :: "TSpan \<Rightarrow> string \<times> string \<times> i32 \<times> string \<Rightarrow> system" where
  "created span info =
     \<lparr>sy_router = snd (create_agent 0 [] info CreateAgentRouter), sy_tasks = [(span, Holds 0)], sy_retired = [], sy_ids = 1\<rparr>"

lemma reach_created:
  assumes "GetAgentInfo conf span = Inr info"
  shows "router_reach murmur3 chan conf (created span info)"
proof -
  let ?s1 = "start_system\<lparr>sy_tasks := [(span, Decoded)]\<rparr>" and ?s2 = "start_system\<lparr>sy_tasks := [(span, Missed)]\<rparr>"
  have "router_reach murmur3 chan conf ?s1"
    using router_reach.step [OF router_reach.start decode [OF assms, of murmur3 chan start_system]] by (simp add: start_system_def)
  then have "router_reach murmur3 chan conf ?s2"
    using router_reach.step [OF _ look [of 0 ?s1 span murmur3 chan conf]]
    by (simp add: start_system_def set_phase_def find_agent_def CreateAgentRouter_def)
  moreover have "create_agent 0 [] info (sy_router ?s2) = (0, sy_router (created span info))"
    by (auto simp: create_agent_def start_system_def CreateAgentRouter_def created_def split: prod.splits)
  ultimately show ?thesis
    using router_reach.step [OF _ create [of 0 ?s2 span conf info 0 "[]" 0 "sy_router (created span info)" murmur3 chan]] assms
    by (simp add: start_system_def set_phase_def created_def)
qed

lemma sample_info: "GetAgentInfo 0 sample_span = Inr (''app'', ''name'', 1300, ''0000'')"
proof -
  have "decimal 0 = ''0''" by code_simp
  then show ?thesis
    by (simp add: sample_span_def default_span_def GetAgentInfo_def GetAppid_def GetAppName_def GetAppServerType_def
        agent_start_time_def FormatInt_def)
qed

theorem one_agent_per_application_witness:
  "length (tSpanBufCh (agent_at (created sample_span (''app'', ''name'', 1300, ''0000'')) 0)) \<le> 1000"
proof -
  have "agents_of (created sample_span (''app'', ''name'', 1300, ''0000'')) = 1"
    by (simp add: created_def create_agent_def CreateAgentRouter_def)
  then show ?thesis
    using one_agent_per_application [OF reach_created [OF sample_info, of id 1000], of 0 0] by simp
qed

text \<open>
  C27: A span can be lost between the router and its agent.  If the clean-up retires an agent while a
  client's goroutine holds it, the span is put into the queue of an agent whose goroutines have ended:
  the dispatch reports success, and the span stays in that queue for ever.
\<close>

theorem span_stranded:
  assumes info: "GetAgentInfo conf span = Inr info" and "0 < chan"
  shows "\<exists>s. router_reach murmur3 chan conf s \<and> sy_tasks s = [(span, Sent)] \<and>
    (\<forall>s'. (router_step murmur3 chan conf)\<^sup>*\<^sup>* s s' \<longrightarrow> ga_stopped (agent_at s' 0) \<and> span \<in> set (tSpanBufCh (agent_at s' 0)))"
proof -
  obtain appid name ty st where i: "info = (appid, name, ty, st)" by (cases info) auto
  define ag where "ag = CreateGrpcAgent appid name ty 1 st 0 []"
  let ?s = "created span info"
  define r where "r = \<lparr>AgentMap = Map.empty, PingId = 2, ar_agents = [ag]\<rparr>"
  have s: "?s = \<lparr>sy_router = r\<lparr>AgentMap := [appid \<mapsto> 0]\<rparr>, sy_tasks = [(span, Holds 0)], sy_retired = [], sy_ids = 1\<rparr>"
    by (simp add: created_def create_agent_def CreateAgentRouter_def i ag_def r_def)
  have idle: "idle 3600 4000 ag" "AgentId ag = appid" "tSpanBufCh ag = []"
    by (simp_all add: idle_def ag_def CreateGrpcAgent_def GetLastBusyTime_def createRequestCounter_def)
  define s1 where "s1 = \<lparr>sy_router = r, sy_tasks = [(span, Holds 0)], sy_retired = [0 :: nat], sy_ids = 1\<rparr>"
  define s2 where "s2 = s1\<lparr>sy_router := stop_agent 0 r\<rparr>"
  define ag2 where "ag2 = ag\<lparr>ga_stopped := True, tSpanBufCh := [span]\<rparr>"
  define s3 where "s3 = set_phase 0 Sent (s2\<lparr>sy_router := r\<lparr>ar_agents := [ag2]\<rparr>\<rparr>)"
  have "clean_map 3600 4000 (sy_router ?s) = r" "expired 3600 4000 (sy_router ?s) = [0]"
    unfolding s using idle by (auto simp: clean_map_def expired_def r_def)
  then have "router_reach murmur3 chan conf s1"
    using router_reach.step [OF reach_created [OF info] clean [of murmur3 chan conf ?s 3600 4000]] by (simp add: s s1_def)
  then have "router_reach murmur3 chan conf s2"
    using router_reach.step [OF _ stop [of 0 s1 murmur3 chan conf]] by (simp add: s1_def s2_def)
  moreover have "send_to chan 0 span (sy_router s2) = Some (r\<lparr>ar_agents := [ag2]\<rparr>)"
    using idle(3) assms(2) by (simp add: s2_def s1_def send_to_def SendSpan_def stop_agent_def on_agent_def r_def ag2_def)
  ultimately have reach: "router_reach murmur3 chan conf s3"
    using router_reach.step [OF _ send [of 0 s2 span 0 chan "r\<lparr>ar_agents := [ag2]\<rparr>" murmur3 conf]] by (simp add: s3_def s2_def s1_def)
  have "agents_of s3 = 1" "agent_at s3 0 = ag2" "sy_tasks s3 = [(span, Sent)]"
    by (simp_all add: s3_def s2_def s1_def set_phase_def r_def)
  then show ?thesis
    using reach stopped_keeps_run [of murmur3 chan conf s3 _ 0] by (intro exI [of _ s3]) (auto simp: ag2_def)
qed

theorem span_stranded_witness:
  "\<exists>s. router_reach (\<lambda>x. x) 1000 0 s \<and> sy_tasks s = [(sample_span, Sent)] \<and> ga_stopped (agent_at s 0)"
  using span_stranded [OF sample_info, of 1000 "\<lambda>x. x"] by auto

end
