(* ===== verification/Client_Safety.thy ===== *)
theory Client_Safety
  imports Collector_Stream Router_Safety
begin

text \<open>
  The server of the collector agent against clients that send anything at all, and its contract with
  the router behind it (\<^verbatim>\<open>I_PacketRouter\<close> of \<^verbatim>\<open>collector-agent/agent\<close>): whatever a router keeps while it
  dispatches one packet, it keeps while a client is served.
\<close>

unbundle bit_operations_syntax

section \<open>Every stream is a stream of packets\<close>

lemma char_of_low: "char_of (unat (take_bit 8 (x :: u32))) = char_of (unat x)"
proof -
  have "unat (take_bit 8 x) = unat x mod 2 ^ 8" by (metis take_bit_eq_mod unsigned_take_bit_eq)
  then show ?thesis by (simp add: char_of_mod_256)
qed

lemma char_of_char: "char_of (unat (of_char c :: u32)) = c"
proof -
  have "(of_char c :: u32) = of_nat (of_char c)" by (simp only: of_nat_of_char)
  moreover have "(of_char c :: nat) < 2 ^ 32" by (rule less_trans [of _ 256]) simp_all
  ultimately have "unat (of_char c :: u32) = of_char c" by (simp only: unat_of_nat mod_less) simp
  then show ?thesis by simp
qed

lemma char_low: "take_bit 8 (of_char c :: u32) = of_char c"
  using of_char_byte [of "of_char c"] by (simp add: char_of_char)

lemma word_of_bytes:
  fixes a b c d :: u32
  defines "w \<equiv> push_bit 8 (push_bit 8 (push_bit 8 (take_bit 8 a) OR take_bit 8 b) OR take_bit 8 c) OR take_bit 8 d"
  shows "take_bit 8 (drop_bit 24 w) = take_bit 8 a" "take_bit 8 (drop_bit 16 w) = take_bit 8 b"
    "take_bit 8 (drop_bit 8 w) = take_bit 8 c" "take_bit 8 w = take_bit 8 d"
  unfolding w_def by (rule bit_word_eqI, auto simp: bit_simps)+

lemma htonl_ntohl:
  assumes "length bs = 4"
  shows "htonl (ntohl bs) = bs"
proof -
  obtain a b c d where bs: "bs = [a, b, c, d]" using assms by (auto simp: length_Suc_conv numeral_eq_Suc)
  have "ntohl bs = push_bit 8 (push_bit 8 (push_bit 8 (take_bit 8 (of_char a)) OR take_bit 8 (of_char b)) OR take_bit 8 (of_char c)) OR
      take_bit 8 (of_char d)"
    by (simp add: ntohl_def bs char_low)
  note low = word_of_bytes [where a = "of_char a" and b = "of_char b" and c = "of_char c" and d = "of_char d", folded this]
  have "char_of (unat (drop_bit 24 (ntohl bs))) = a" "char_of (unat (drop_bit 16 (ntohl bs))) = b"
    "char_of (unat (drop_bit 8 (ntohl bs))) = c" "char_of (unat (ntohl bs)) = d"
    using low char_low char_of_char char_of_low by metis+
  then show ?thesis by (simp add: htonl_def bs)
qed

lemma first_packet:
  assumes "\<not> cut_short d"
  shows "\<exists>m y. d = packet m @ y \<and> sized m"
proof -
  let ?n = "body_length d"
  have len: "8 + ?n \<le> length d" using assms by (auto simp: cut_short_def)
  have n: "?n < 4294967296" unfolding body_length_def using unat_less_32 [of "ntohl (take 4 (drop 4 d))"] by simp
  define m where "m = (ntohl (take 4 d), take ?n (drop 8 d))"
  have "word_of_nat (length (snd m)) = ntohl (take 4 (drop 4 d))" using len by (simp add: m_def body_length_def)
  then have "packet m = take 4 d @ take 4 (drop 4 d) @ take ?n (drop 8 d)"
    using len by (simp add: packet_def header_def m_def htonl_ntohl)
  also have "\<dots> = take (8 + ?n) d" using take_add [of 4 4 d] take_add [of 8 ?n d] by simp
  finally have "d = packet m @ drop (8 + ?n) d" by (metis append_take_drop_id)
  moreover have "sized m" using n len by (simp add: m_def)
  ultimately show ?thesis by blast
qed

lemma any_stream: "\<exists>ms z. d = packets ms @ z \<and> cut_short z \<and> list_all (\<lambda>m. length (snd m) \<le> length d) ms"
proof (induction "length d" arbitrary: d rule: less_induct)
  case less
  show ?case
  proof (cases "cut_short d")
    case True
    then show ?thesis by (intro exI [of _ "[]"] exI [of _ d]) simp
  next
    case False
    then obtain m y where d: "d = packet m @ y" using first_packet by blast
    then have l: "length y < length d" "length (snd m) \<le> length d" by simp_all
    obtain ms z where y: "y = packets ms @ z" "cut_short z" "list_all (\<lambda>m. length (snd m) \<le> length y) ms" using less [OF l(1)] by blast
    have "list_all (\<lambda>m. length (snd m) \<le> length d) ms" using y(3) by (rule list.pred_mono_strong) (use l in simp)
    then show ?thesis using y(1,2) l(2) unfolding d(1) by (intro exI [of _ "m # ms"] exI [of _ z]) simp
  qed
qed

lemma reads_pieces: "\<exists>ds. rs = pieces ds \<and> [] \<notin> set ds"
proof (induction rs)
  case (Cons r rs)
  then obtain ds where "rs = pieces ds" "[] \<notin> set ds" by blast
  then show ?case by (cases r) (intro exI [of _ "(_ # _) # ds"], auto simp: pieces_def)
qed (simp add: pieces_def)

section \<open>Serving anything\<close>

text \<open>
  What a handler that starts with the session \<open>ss\<close> may do: serve some packets and end without a panic,
  or serve some packets and wait for ever in the router.
\<close>

definition serves :: "'r router \<Rightarrow> 'r session \<Rightarrow> (bool \<times> 'r session) option \<Rightarrow> bool" where
  "serves D ss r \<longleftrightarrow>
     (case r of
        Some (panic, ss') \<Rightarrow> \<not> panic \<and> (\<exists>ms err. serve D ms ss = Some (err, ss'))
      | None \<Rightarrow> \<exists>ms ss' body. serve D ms ss = Some (False, ss') \<and> D body (ss_router ss') = None)"

lemma serve_blocks:
  "serve D ms ss = None \<Longrightarrow> \<exists>ms' ss' body. serve D ms' ss = Some (False, ss') \<and> D body (ss_router ss') = None"
proof (induction ms arbitrary: ss)
  case (Cons m ms)
  show ?case
  proof (cases "parsePacket D (fst m) (snd m) ss")
    case None
    then have "D (snd m) (ss_router ss) = None" by (auto simp: parsePacket_def Let_def split: if_splits prod.splits)
    then show ?thesis by (intro exI [of _ "[]"]) auto
  next
    case (Some r)
    then obtain ss1 where p: "parsePacket D (fst m) (snd m) ss = Some (False, ss1)" "serve D ms ss1 = None"
      using Cons.prems by (cases r) (auto split: if_splits)
    then obtain ms' ss' body where "serve D ms' ss1 = Some (False, ss')" "D body (ss_router ss') = None" using Cons.IH by blast
    then show ?thesis using p by (intro exI [of _ "m # ms'"] exI [of _ ss'] exI [of _ body]) simp
  qed
qed simp

lemma serves_after:
  assumes "serve D ms ss = Some (False, ss1)" and "serves D ss1 r"
  shows "serves D ss r"
proof -
  have app: "serve D (ms @ ms') ss = serve D ms' ss1" for ms' using assms(1) by (simp add: serve_append)
  show ?thesis using assms(2) unfolding serves_def by (cases r) (auto simp flip: app)
qed

lemma client_loop_serves:
  assumes "holds n buf i p b" and "cut_short b" and "[] \<notin> set ds"
  shows "serves D ss (client_loop D n buf (int i) (int p) (pieces ds) ss)"
  using assms
proof (induction "length (concat ds)" arbitrary: buf i p b ds ss rule: less_induct)
  case less
  note h = less.prems(1)
  have n: "int (length buf) = n" using h by (simp add: holds_def)
  have stop: "serves D ss (Some (False, ss))" for ss by (simp add: serves_def) (metis serve.simps(1))
  show ?case
  proof (cases "ds = [] \<or> length buf \<le> i")
    case True
    then show ?thesis by (auto simp: pieces_def stop client_loop_end client_loop_full)
  next
    case False
    then obtain d ds' where rd: "conn_read (length buf - i) (pieces ds) = (Some d, pieces ds')" "d \<noteq> []" "length d \<le> length buf - i"
        "[] \<notin> set ds'" "concat ds = d @ concat ds'"
      using conn_read_pieces [OF less.prems(3), of "length buf - i"] by auto
    obtain ms z where s: "b @ d = packets ms @ z" "cut_short z" "list_all (\<lambda>m. length (snd m) \<le> length (b @ d)) ms"
      using any_stream by blast
    have "length (b @ d) \<le> length buf" using holds_length(1) [OF h] rd(3) h by (simp add: holds_def)
    then have fit: "list_all (\<lambda>m. int (length (snd m)) \<le> n) ms" using s(3) n by (auto simp: list_all_iff)
    let ?buf = "take i buf @ d @ drop (i + length d) buf" and ?i = "i + length d"
    note step = client_loop_turn [OF h rd(1-3) s(1,2) fit, of D ss]
    have hb: "holds n ?buf ?i (?i - length z) z"
      using holds_rest [of n ?buf ?i p "packets ms" z] holds_read [OF h rd(3)] s(1) by simp
    have h0: "holds n ?buf 0 0 []" using hb by (simp add: holds_def)
    have again: "serves D ss1 (client_loop D n buf1 (int i1) (int p1) (pieces ds') ss1)"
      if "holds n buf1 i1 p1 b1" "cut_short b1" for buf1 i1 p1 b1 ss1
      using less.hyps [of ds' buf1 i1 p1 b1 ss1] that rd(2,4,5) by simp
    show ?thesis
    proof (cases "serve D ms ss")
      case None
      then show ?thesis using step serve_blocks [OF None] by (simp add: serves_def)
    next
      case (Some r)
      then obtain err ss1 where r: "serve D ms ss = Some (err, ss1)" by (cases r) auto
      consider "err" | "\<not> err" "ms \<noteq> [] \<and> z = []" | "\<not> err" "\<not> (ms \<noteq> [] \<and> z = [])" "read_on n ?buf ?i (?i - length z) z = Leave"
        | "\<not> err" "\<not> (ms \<noteq> [] \<and> z = [])" "read_on n ?buf ?i (?i - length z) z \<noteq> Leave" by blast
      then show ?thesis
      proof cases
        case 1
        then show ?thesis using step r by (auto simp: serves_def)
      next
        case 2
        then show ?thesis using step r again [OF h0] serves_after [of D ms ss ss1] by (simp add: cut_short_def)
      next
        case 3
        then show ?thesis using step r by (auto simp: serves_def Let_def)
      next
        case 4
        then obtain buf1 i1 p1 where "read_on n ?buf ?i (?i - length z) z = ReadOn buf1 (int i1) (int p1)" "holds n buf1 i1 p1 z"
          using read_on_holds [OF hb s(2)] by blast
        then show ?thesis using 4 step r again [OF _ s(2)] serves_after [of D ms ss ss1] by (auto simp: Let_def)
      qed
    qed
  qed
qed

lemma handleClient_serves:
  assumes "genHello Version clock (ss_server ss) = Some (h, s)" and "0 \<le> n" and "n < 2147483640"
  shows "\<exists>r. handleClient D n Version clock rs ss = map_option hang_up r \<and> serves D (greeted h s ss) r"
proof -
  obtain ds where ds: "rs = pieces ds" "[] \<notin> set ds" using reads_pieces by blast
  let ?r = "client_loop D n (replicate (nat n) CHR 0x00) 0 0 (pieces ds) (greeted h s ss)"
  have ok: "serves D (greeted h s ss) ?r"
    using client_loop_serves [OF holds_fresh [OF assms(2,3)] _ ds(2), of D "greeted h s ss"] by (simp add: cut_short_def)
  then have "?r = map_option (\<lambda>(err, ss). (False, ss)) ?r" by (auto simp: serves_def split: option.splits)
  from handleClient_loop [OF assms(1,2) this] show ?thesis using ok ds(1) by blast
qed

section \<open>The contract of a router\<close>

text \<open>
  What the server relies on: a router has an invariant, and dispatching a packet keeps it.  Then
  serving a client keeps it.
\<close>

locale packet_router =
  fixes dispatch :: "'r router" and good_router :: "'r \<Rightarrow> bool"
  assumes dispatch_keeps: "good_router r \<Longrightarrow> dispatch body r = Some (err, r') \<Longrightarrow> good_router r'"
begin

lemma packet_keeps:
  "good_router (ss_router ss) \<Longrightarrow> parsePacket dispatch ty body ss = Some (err, ss') \<Longrightarrow> good_router (ss_router ss')"
  using dispatch_keeps by (auto simp: parsePacket_def Let_def split: if_splits prod.splits)

lemma serve_keeps:
  "good_router (ss_router ss) \<Longrightarrow> serve dispatch ms ss = Some (err, ss') \<Longrightarrow> good_router (ss_router ss')"
proof (induction ms arbitrary: ss)
  case (Cons m ms)
  then obtain e ss1 where "parsePacket dispatch (fst m) (snd m) ss = Some (e, ss1)" by (auto split: option.splits)
  then show ?case using Cons.IH [of ss1] Cons.prems packet_keeps [OF Cons.prems(1)] by (auto split: if_splits)
qed simp

lemma client_keeps:
  assumes "genHello Version clock (ss_server ss) = Some (h, s)" and "0 \<le> n" and "n < 2147483640" and "good_router (ss_router ss)"
  shows "case handleClient dispatch n Version clock rs ss of
      Some (panic, ss') \<Rightarrow> \<not> panic \<and> \<not> c_open (ss_conn ss') \<and> good_router (ss_router ss')
    | None \<Rightarrow> \<exists>ms ss' body. serve dispatch ms (greeted h s ss) = Some (False, ss') \<and> good_router (ss_router ss') \<and>
        dispatch body (ss_router ss') = None"
proof -
  obtain r where r: "handleClient dispatch n Version clock rs ss = map_option hang_up r" "serves dispatch (greeted h s ss) r"
    using handleClient_serves [OF assms(1-3)] by blast
  have keeps: "good_router (ss_router ss')" if "serve dispatch ms (greeted h s ss) = Some (err, ss')" for ms err ss'
    using serve_keeps [OF _ that] assms(4) by (simp add: greeted_def)
  show ?thesis
  proof (cases r)
    case None
    then show ?thesis using r keeps by (fastforce simp: serves_def)
  next
    case (Some x)
    then show ?thesis using r keeps by (cases x) (auto simp: serves_def hang_up_def)
  qed
qed

end

text \<open>
  The router of the collector agent keeps this contract: every application in the map has an agent of
  its own name, and the queue of an agent holds only spans of its application and never more than fit.
\<close>

definition routed :: "nat \<Rightarrow> AgentRouter \<Rightarrow> bool" where
  "routed chan r \<longleftrightarrow>
     (\<forall>appid a. AgentMap r appid = Some a \<longrightarrow> a < length (ar_agents r) \<and> AgentId (ar_agents r ! a) = appid) \<and>
     (\<forall>ag \<in> set (ar_agents r). length (tSpanBufCh ag) \<le> chan \<and> (\<forall>span \<in> set (tSpanBufCh ag). GetAppid span = AgentId ag))"

lemma create_routed:
  assumes "routed chan r" and "create_agent now answers info r = (a, r')"
  shows "routed chan r' \<and> a < length (ar_agents r') \<and> AgentId (ar_agents r' ! a) = fst info \<and>
    (ar_agents r' ! a \<in> set (ar_agents r) \<or> tSpanBufCh (ar_agents r' ! a) = [])"
  using assms by (cases info) (auto simp: create_agent_def routed_def CreateGrpcAgent_def nth_append less_Suc_eq split: option.splits if_splits)

lemma find_or_create_routed:
  assumes "routed chan r" and "(case find_agent (fst info) r of Some a \<Rightarrow> (a, r) | None \<Rightarrow> create_agent now answers info r) = (a, r')"
  shows "routed chan r' \<and> a < length (ar_agents r') \<and> AgentId (ar_agents r' ! a) = fst info \<and>
    (ar_agents r' ! a \<in> set (ar_agents r) \<or> tSpanBufCh (ar_agents r' ! a) = [])"
  using assms create_routed [OF assms(1), of now answers info a r']
  by (auto simp: find_agent_def routed_def split: option.splits)

lemma send_routed:
  assumes "routed chan r" and "a < length (ar_agents r)" and "AgentId (ar_agents r ! a) = GetAppid span" and "send_to chan a span r = Some r'"
  shows "routed chan r'"
proof -
  have ag: "ar_agents r ! a \<in> set (ar_agents r)" using assms(2) by simp
  then have r': "r' = on_agent a (\<lambda>_. (ar_agents r ! a)\<lparr>tSpanBufCh := tSpanBufCh (ar_agents r ! a) @ [span]\<rparr>) r"
    "length (tSpanBufCh (ar_agents r ! a)) < chan"
    using assms(4) by (auto simp: send_to_def SendSpan_def split: if_splits)
  have sub: "set (ar_agents r') \<subseteq> insert ((ar_agents r ! a)\<lparr>tSpanBufCh := tSpanBufCh (ar_agents r ! a) @ [span]\<rparr>) (set (ar_agents r))"
    unfolding r'(1) on_agent_def using set_update_subset_insert by simp
  have "length (tSpanBufCh x) \<le> chan \<and> (\<forall>span \<in> set (tSpanBufCh x). GetAppid span = AgentId x)" if "x \<in> set (ar_agents r')" for x
    using subsetD [OF sub that] assms(1,3) ag r'(2) unfolding routed_def by auto
  moreover have "b < length (ar_agents r') \<and> AgentId (ar_agents r' ! b) = appid" if "AgentMap r' appid = Some b" for appid b
    using that assms(1,2) unfolding r'(1) routed_def by auto
  ultimately show ?thesis unfolding routed_def by blast
qed

lemma DispatchPacket_routed:
  assumes "routed chan r" and "DispatchPacket unmarshal chan configStart now answers body r = Some (err, r')"
  shows "routed chan r'"
proof -
  consider "r' = r" | span info a r1 where "GetAgentInfo configStart span = Inr info"
      "(case find_agent (fst info) r of Some a \<Rightarrow> (a, r) | None \<Rightarrow> create_agent now answers info r) = (a, r1)" "send_to chan a span r1 = Some r'"
    using assms(2) unfolding DispatchPacket_def by (auto split: option.splits sum.splits prod.splits simp: Let_def)
  then show ?thesis
    using assms(1) find_or_create_routed [OF assms(1)] send_routed GetAgentInfo_appid by cases metis+
qed

interpretation dp: packet_router "DispatchPacket unmarshal chan configStart now answers" "routed chan"
  by unfold_locales (rule DispatchPacket_routed)

text \<open>A span that finds no room: some queue is full.\<close>

lemma DispatchPacket_blocks:
  assumes "routed chan r" and "0 < chan" and "DispatchPacket unmarshal chan configStart now answers body r = None"
  shows "\<exists>ag \<in> set (ar_agents r). length (tSpanBufCh ag) = chan"
proof -
  obtain span info where si: "unmarshal body default_span = Some span" "GetAgentInfo configStart span = Inr info"
    using assms(3) unfolding DispatchPacket_def by (auto split: option.splits sum.splits)
  obtain a r1 where found: "(case find_agent (fst info) r of Some a \<Rightarrow> (a, r) | None \<Rightarrow> create_agent now answers info r) = (a, r1)"
    by fastforce
  then have "send_to chan a span r1 = None" using assms(3) si unfolding DispatchPacket_def by simp
  then have "ar_agents r1 ! a \<in> set (ar_agents r) \<or> tSpanBufCh (ar_agents r1 ! a) = []" "chan \<le> length (tSpanBufCh (ar_agents r1 ! a))"
    using find_or_create_routed [OF assms(1) found] by (auto simp: send_to_def SendSpan_def split: if_splits)
  then have "ar_agents r1 ! a \<in> set (ar_agents r)" "chan \<le> length (tSpanBufCh (ar_agents r1 ! a))" using assms(2) by auto
  then show ?thesis using assms(1) by (auto simp: routed_def intro!: bexI [of _ "ar_agents r1 ! a"])
qed

text \<open>
  C7: No client can harm the server, whatever bytes it sends and however they arrive.  The handler
  does not panic, ends by closing the connection, and leaves the router in order: every application in
  the map has the agent of its name, and the queues hold only spans of their own application and never
  more than fit.  The one way for the handler not to end is that the span it has at hand finds the
  queue of an agent full.
\<close>

theorem any_client_safe:
  assumes "genHello Version clock (ss_server ss) = Some (h, s)" and "0 \<le> n" and "n < 2147483640"
    and "routed chan (ss_router ss)" and "0 < chan"
  shows "case handleClient (DispatchPacket unmarshal chan configStart now answers) n Version clock rs ss of
      Some (panic, ss') \<Rightarrow> \<not> panic \<and> \<not> c_open (ss_conn ss') \<and> routed chan (ss_router ss')
    | None \<Rightarrow> \<exists>ms ss'. serve (DispatchPacket unmarshal chan configStart now answers) ms (greeted h s ss) = Some (False, ss') \<and>
        (\<exists>ag \<in> set (ar_agents (ss_router ss')). length (tSpanBufCh ag) = chan)"
proof -
  let ?D = "DispatchPacket unmarshal chan configStart now answers"
  note keeps = dp.client_keeps [OF assms(1-4), of unmarshal configStart now answers rs]
  show ?thesis
  proof (cases "handleClient ?D n Version clock rs ss")
    case None
    then obtain ms ss' body where "serve ?D ms (greeted h s ss) = Some (False, ss')" "routed chan (ss_router ss')" "?D body (ss_router ss') = None"
      using keeps by auto
    then show ?thesis using None DispatchPacket_blocks [OF _ assms(5)] by fastforce
  next
    case (Some x)
    then show ?thesis using keeps by simp
  qed
qed

text \<open>A router that has no agents, and a client that sends eleven bytes of nonsense.\<close>

definition first_session :: "AgentRouter session" where
  "first_session = \<lparr>ss_server = CreateServer 1, ss_conn = \<lparr>c_writes = [], c_sent = [], c_open = True\<rparr>, ss_router = CreateAgentRouter\<rparr>"

lemma undecodable_serves:
  "serve (DispatchPacket (\<lambda>_ _. None) chan configStart now answers) ms ss = Some (err, ss') \<Longrightarrow> ss_router ss' = ss_router ss"
  by (induction ms arbitrary: ss) (auto simp: parsePacket_def DispatchPacket_def Let_def split: if_splits prod.splits)

theorem any_client_safe_witness:
  "\<exists>ss'. handleClient (DispatchPacket (\<lambda>_ _. None) 3 0 0 []) 64 ''v0.8.0'' [5] [Reads CHR ''x'' ''yyyyyyyyyy''] first_session = Some (False, ss') \<and>
     routed 3 (ss_router ss')"
proof -
  let ?D = "DispatchPacket (\<lambda>_ _. None) 3 0 0 []"
  obtain h s where g: "genHello ''v0.8.0'' [5] (ss_server first_session) = Some (h, s)"
    by (auto simp: first_session_def genHello_def CreateServer_def)
  have r: "routed 3 (ss_router first_session)" by (simp add: first_session_def routed_def CreateAgentRouter_def)
  have none: "ar_agents (ss_router ss') = []" if "serve ?D ms (greeted h s first_session) = Some (False, ss')" for ms ss'
    using undecodable_serves [OF that] by (simp add: greeted_def first_session_def CreateAgentRouter_def)
  show ?thesis
    using any_client_safe [OF g _ _ r, of 64 "\<lambda>_ _. None" 0 0 "[]" "[Reads CHR ''x'' ''yyyyyyyyyy'']"] none
    by (auto split: option.splits)
qed

end
