(* ===== verification/Greeting.thy ===== *)
theory Greeting
  imports Agent_Safety Collector_Stream
begin

text \<open>
  Where the two programs meet on the wire.  The greeting is written by the server of
  \<^verbatim>\<open>collector-agent/server/Server.go\<close> and read by the agent of \<^verbatim>\<open>common/src/common.cpp\<close>; the spans
  travel the other way.  The lemmas say that what one side prints is what the other side reads: the
  greeting of \<^verbatim>\<open>json.Marshal\<close> is the compact text of a JSON object, \<^verbatim>\<open>strconv.FormatInt\<close> is undone by
  \<^verbatim>\<open>std::stoll\<close>, and \<^verbatim>\<open>respToClient\<close> and \<^verbatim>\<open>copy_into_send_buffer\<close> write the same packets.
\<close>

section \<open>Strings and numbers\<close>

text \<open>Printable ASCII that neither printer escapes.\<close>

definition plain_char :: "char \<Rightarrow> bool" where
  "plain_char c \<longleftrightarrow> 0x20 \<le> byte c \<and> byte c < 0x80 \<and> c \<noteq> CHR 0x22 \<and> c \<noteq> CHR 0x5C \<and> c \<noteq> CHR ''<'' \<and> c \<noteq> CHR ''>'' \<and> c \<noteq> CHR ''&''"

abbreviation plain :: "string \<Rightarrow> bool" where
  "plain s \<equiv> list_all plain_char s"

lemma plain_char_not_control: "plain_char c \<Longrightarrow> byte d < 0x20 \<Longrightarrow> c \<noteq> d"
  by (auto simp: plain_char_def)

lemma marshal_plain_char: "plain_char c \<Longrightarrow> marshal_char c = [c]"
  using plain_char_not_control [of c "CHR 0x08"] plain_char_not_control [of c "CHR 0x0C"] plain_char_not_control [of c "CHR 0x0A"]
    plain_char_not_control [of c "CHR 0x0D"] plain_char_not_control [of c "CHR 0x09"]
  by (simp add: marshal_char_def plain_char_def)

lemma marshal_plain: "plain s \<Longrightarrow> marshal_string s = [CHR 0x22] @ s @ [CHR 0x22]"
proof -
  assume "plain s"
  then have "concat (map marshal_char s) = s" by (induction s) (simp_all add: marshal_plain_char)
  then show ?thesis by (simp add: marshal_string_def)
qed

lemma c_str_plain: "plain s \<Longrightarrow> c_str s = s"
  unfolding c_str_def takeWhile_eq_all_conv list_all_iff using plain_char_not_control [of _ "CHR 0x00"] by simp

lemma quoted_plain: "plain s \<Longrightarrow> valueToQuotedStringN False s = [CHR 0x22] @ s @ [CHR 0x22]"
proof -
  assume p: "plain s"
  have "\<not> (c = CHR 0x5C \<or> c = CHR 0x22 \<or> byte c < 0x20 \<or> 0x7F < byte c)" if "plain_char c" for c
    using that by (simp add: plain_char_def)
  then have "\<not> doesAnyCharRequireEscaping s"
    using p unfolding doesAnyCharRequireEscaping_def list_all_iff list_ex_iff by blast
  then show ?thesis using p by (simp add: valueToQuotedStringN_def c_str_plain)
qed

lemma utf8_plain: "plain s \<Longrightarrow> utf8_string s"
  by (rule ascii_utf8_string) (simp add: plain_char_def list_all_iff)

lemma plain_digit: "isdigit c \<Longrightarrow> plain_char c"
  by (auto simp: isdigit_def less_eq_char_def plain_char_def)

lemma plain_FormatInt: "plain (FormatInt x)"
  using decimal_isdigit plain_digit by (auto simp: FormatInt_def list_all_iff plain_char_def)

lemma stoll_FormatInt:
  assumes "- (2 ^ 63) \<le> x" and "x < 2 ^ 63"
  shows "stoll (FormatInt x) = Inr x"
proof -
  have *: "takeWhile isdigit (decimal n) = decimal n" for n using decimal_isdigit by (auto intro: takeWhile_eq_all_conv [THEN iffD2])
  show ?thesis
    using assms sign_split_decimal [of _ "[]"]
    by (auto simp: stoll_def FormatInt_def * sign_split_def isspace_def)
qed

section \<open>The greeting\<close>

text \<open>The greeting as a JSON value; its members are already in the order of the keys.\<close>

definition greeting :: "string \<Rightarrow> i64 \<Rightarrow> 'd jvalue" where
  "greeting Version now =
     ObjectValue [(''appid'', StringValue ''no''), (''appname'', StringValue ''no''),
       (''time'', StringValue (FormatInt (sint now))), (''version'', StringValue Version)]"

lemma greeting_text:
  assumes "plain Version" and "genHello Version clock s = Some (h, s')"
  shows "h = compact ops (greeting Version (lastTime s'))"
proof -
  have "list_all plain [''appid'', ''no'', ''appname'', ''time'', ''version'']" by (simp add: plain_char_def)
  then show ?thesis
    using assms plain_FormatInt by (auto simp: genHello_def greeting_def marshal_plain quoted_plain split: option.splits)
qed

lemma greeting_ok:
  assumes "plain Version"
  shows "jv_ok (greeting Version now)" "readable (greeting Version now)" "fits 999 (greeting Version now)"
    "as_read (greeting Version now) = greeting Version now"
    "at_key ''time'' (greeting Version now) = Inr (StringValue (FormatInt (sint now)))"
    "at_key ''version'' (greeting Version now) = Inr (StringValue Version)"
  using utf8_plain [OF assms] utf8_plain [OF plain_FormatInt]
  by (simp_all add: greeting_def ascii_utf8_string at_key_def find_val_def)

lemma greeting_taken:
  assumes "plain Version" and "genHello Version clock s = Some (h, s')" and "\<not> IsReady p"
  shows "HandleHelloMsg pf 0 h p =
    (if compare_version Version ''v0.7.0'' < 0 then (Inr (- 1), p) else (Inr 0, SetStartTime (lastTime s') p))"
proof -
  have "- (2 ^ 63) \<le> sint (lastTime s')" "sint (lastTime s') < 2 ^ 63"
    using sint_ge [of "lastTime s'"] sint_lt [of "lastTime s'"] by simp_all
  then show ?thesis
    using hello_message [OF assms(3) greeting_ok [OF assms(1)], of pf 0 "lastTime s'"] assms(1)
    by (simp add: greeting_text [OF assms(1,2), of "pf_ops pf"] c_str_plain stoll_FormatInt)
qed

section \<open>Answers\<close>

text \<open>A connection on which no write fails.\<close>

definition writable :: "conn \<Rightarrow> bool" where
  "writable c = list_all (\<lambda>a. case a of Writes n \<Rightarrow> 0 < n | WriteError \<Rightarrow> False) (c_writes c)"

lemma resp_loop_all:
  assumes "writable c"
  shows "\<exists>c'. resp_loop d c = (False, c') \<and> c_sent c' = c_sent c @ d \<and> writable c'"
  using assms
proof (induction "length d" arbitrary: d c rule: less_induct)
  case less
  show ?case
  proof (cases "d = [] \<or> c_writes c = []")
    case True
    then show ?thesis using less.prems by (auto simp: resp_loop.simps [of d] resp_loop.simps [of "[]"] conn_write_def writable_def)
  next
    case False
    then obtain n as where w: "c_writes c = Writes n # as" "0 < n"
      using less.prems by (cases "c_writes c"; cases "hd (c_writes c)") (auto simp: writable_def)
    let ?c = "c\<lparr>c_writes := as, c_sent := c_sent c @ take n d\<rparr>"
    have "writable ?c" using less.prems w by (simp add: writable_def)
    then obtain c' where "resp_loop (drop n d) ?c = (False, c')" "c_sent c' = c_sent c @ d" "writable c'"
      using less.hyps [of "drop n d" ?c] False w by auto
    then show ?thesis using False w by (auto simp: resp_loop.simps [of d] conn_write_def min_def)
  qed
qed

lemma respToClient_packet:
  assumes "writable c" and "length body \<le> 2147483647"
  shows "\<exists>c'. respToClient ty body c = (False, c') \<and> c_sent c' = c_sent c @ packet (ty, body) \<and> writable c'"
  using resp_loop_all [OF assms(1)] assms(2) by (simp add: respToClient_def packet_def)

section \<open>Spans\<close>

text \<open>Spans put into the send buffer one after the other, and the ones it took.\<close>

fun put_spans :: "allocator \<Rightarrow> bytes list \<Rightarrow> 'h trans_layer \<Rightarrow> bytes list \<times> 'h trans_layer" where
  "put_spans malloc [] t = ([], t)"
| "put_spans malloc (d # ds) t =
     (case copy_into_send_buffer malloc d t of
        (b, t) \<Rightarrow> (case put_spans malloc ds t of (took, t) \<Rightarrow> (if b then d # took else took, t)))"

lemma put_spans_content:
  assumes "layer_inv t" and "list_all (\<lambda>d. length d + 12 < 2 ^ 30) ds" and "\<And>x. malloc x \<noteq> None" and "put_spans malloc ds t = (took, t')"
  shows "layer_inv t' \<and> content (t_chunks t') = content (t_chunks t) @ packets (map (Pair 1) took) \<and> c_fd t' = c_fd t"
  using assms(1,2,4)
proof (induction ds arbitrary: t took)
  case (Cons d ds)
  obtain b t1 where c: "copy_into_send_buffer malloc d t = (b, t1)" by fastforce
  obtain took' where p: "put_spans malloc ds t1 = (took', t')" "took = (if b then d # took' else took')"
    using Cons.prems(3) c by (auto split: prod.splits)
  then show ?case using Cons.IH [of t1 took'] copy_into_send_buffer_spec [OF Cons.prems(1) _ assms(3) c] Cons.prems(2) by auto
qed simp

lemma put_spans_subset: "put_spans malloc ds t = (took, t') \<Longrightarrow> set took \<subseteq> set ds"
proof (induction ds arbitrary: t took)
  case (Cons d ds)
  obtain b t1 where c: "copy_into_send_buffer malloc d t = (b, t1)" by fastforce
  obtain took' where p: "put_spans malloc ds t1 = (took', t')" "took = (if b then d # took' else took')"
    using Cons.prems c by (auto split: prod.splits)
  then show ?case using Cons.IH [of t1 took'] by auto
qed simp

text \<open>What the router has become when it has been given bodies in turn, until one of them fails.\<close>

fun dispatched :: "'r router \<Rightarrow> bytes list \<Rightarrow> 'r \<Rightarrow> 'r option" where
  "dispatched D [] r = Some r"
| "dispatched D (d # ds) r = (case D d r of None \<Rightarrow> None | Some (err, r) \<Rightarrow> if err then Some r else dispatched D ds r)"

lemma serve_spans:
  "map_option (\<lambda>x. ss_router (snd x)) (serve D (map (Pair 1) ds) ss) = dispatched D ds (ss_router ss)"
  by (induction ds arbitrary: ss) (auto simp: parsePacket_def split: option.splits)

lemma span_bodies_served:
  assumes "genHello Version clock (ss_server ss) = Some (h, s)" and "16 \<le> N" and "N < 2147483640"
    and "[] \<notin> set ds" and "concat ds = packets (map (Pair 1) bodies)" and "list_all (\<lambda>d. 2 * int (length d) \<le> N) bodies"
  shows "map_option (\<lambda>x. ss_router (snd x)) (handleClient D N Version clock (pieces ds) ss) = dispatched D bodies (ss_router ss)"
proof -
  have "client_loop D N (replicate (nat N) CHR 0x00) 0 0 (pieces ds) (greeted h s ss) =
      map_option (\<lambda>(err, ss). (False, ss)) (serve D (map (Pair 1) bodies) (greeted h s ss))"
    using client_loop_stream [OF holds_fresh, of N ds "map (Pair 1) bodies" "[]" D "greeted h s ss"] assms
    by (simp add: cut_short_def list.pred_map comp_def)
  from handleClient_loop [OF assms(1) _ this] assms(2) serve_spans [of D bodies "greeted h s ss"] show ?thesis
    by (simp add: option.map_comp comp_def hang_up_def greeted_def)
qed

end
