(* ===== verification/Sender_Safety.thy ===== *)
theory Sender_Safety
  imports Collector_Sender
begin

text \<open>
  The names that the sender of the collector agent registers with the backend: no type assertion ever
  fails, a number never stands for two names, and a message refers only to registered names when the
  backend is up.
\<close>

declare split_paired_All [simp del] split_paired_Ex [simp del]

section \<open>The invariant\<close>

fun int_id :: "meta_message \<Rightarrow> i32 option" where
  "int_id (ApiMeta i n t) = Some i"
| "int_id (StringMeta i n) = Some i"
| "int_id (SqlUidMeta b n) = None"

text \<open>The dynamic type of an entry of the map is the one of its key.\<close>

definition ids_typed :: "SpanSender \<Rightarrow> bool" where
  "ids_typed s \<longleftrightarrow> (\<forall>k v. idMap s k = Some v \<longrightarrow> (asBytes v \<noteq> None \<longleftrightarrow> fst k = META_Sql_uid_api))"

definition ids_fresh :: "SpanSender \<Rightarrow> bool" where
  "ids_fresh s \<longleftrightarrow> (\<forall>k i. idMap s k = Some (IdInt i) \<longrightarrow> unat i \<le> unat (unique_id_count s)) \<and>
     (\<forall>m \<in> set (sd_confirmed s). \<forall>i. int_id m = Some i \<longrightarrow> unat i \<le> unat (unique_id_count s))"

definition ids_unique :: "SpanSender \<Rightarrow> bool" where
  "ids_unique s \<longleftrightarrow>
     (\<forall>k k' i. idMap s k = Some (IdInt i) \<longrightarrow> idMap s k' = Some (IdInt i) \<longrightarrow> k = k') \<and>
     (\<forall>m \<in> set (sd_confirmed s). \<forall>k i. int_id m = Some i \<longrightarrow> idMap s k = Some (IdInt i) \<longrightarrow> meta_message_of k (idMap s) = Some m) \<and>
     (\<forall>m \<in> set (sd_confirmed s). \<forall>m' \<in> set (sd_confirmed s). int_id m \<noteq> None \<longrightarrow> int_id m = int_id m' \<longrightarrow> m = m')"

definition ids_confirmed :: "SpanSender \<Rightarrow> bool" where
  "ids_confirmed s \<longleftrightarrow> (\<forall>k \<in> dom (idMap s) - pendingMeta s. \<exists>m \<in> set (sd_confirmed s). meta_message_of k (idMap s) = Some m)"

definition sender_inv :: "SpanSender \<Rightarrow> bool" where
  "sender_inv s \<longleftrightarrow> ids_typed s \<and> ids_fresh s \<and> ids_unique s \<and> ids_confirmed s"

lemmas sender_defs = sender_inv_def ids_typed_def ids_fresh_def ids_unique_def ids_confirmed_def

lemma createSpanSender_inv: "sender_inv (createSpanSender answers)"
  by (simp add: sender_defs createSpanSender_def)

lemma cleanAllMetaData_inv: "sender_inv s \<Longrightarrow> sender_inv (cleanAllMetaData s)"
  by (auto simp: sender_defs cleanAllMetaData_def)

lemma channels_inv [simp]:
  "sender_inv (s\<lparr>spanMessageBufferCh := b\<rparr>) = sender_inv s" "sender_inv (s\<lparr>sendStreamRespCh := r\<rparr>) = sender_inv s"
  "sender_inv (s\<lparr>sd_answers := as\<rparr>) = sender_inv s"
  by (simp_all add: sender_defs)

lemma typed_entry:
  assumes "sender_inv s" and "idMap s k = Some v"
  shows "if fst k = META_Sql_uid_api then \<exists>b. v = IdBytes b else \<exists>i. v = IdInt i"
proof -
  have "asBytes v \<noteq> None \<longleftrightarrow> fst k = META_Sql_uid_api" using assms by (simp add: sender_inv_def ids_typed_def)
  then show ?thesis by (cases v) auto
qed

lemma typed_message:
  assumes "ids_typed s" and "idMap s k = Some v"
  shows "\<exists>m. meta_message_of k (idMap s) = Some m \<and> (\<forall>i. v = IdInt i \<longrightarrow> int_id m = Some i) \<and> (\<forall>b. v = IdBytes b \<longrightarrow> int_id m = None)"
proof -
  have "asBytes v \<noteq> None \<longleftrightarrow> fst k = META_Sql_uid_api" using assms by (simp add: ids_typed_def)
  then show ?thesis using assms(2) by (cases v; cases "fst k") (auto simp: meta_message_of_def)
qed

section \<open>Registering\<close>

text \<open>
  A call of the sender: it uses up at most \<open>k\<close> numbers and \<open>k\<close> answers of the backend; when all answers are
  confirmations, \<open>P\<close> holds of its result and of the names confirmed then.
\<close>

definition willing :: "nat \<Rightarrow> SpanSender \<Rightarrow> bool" where
  "willing k s \<longleftrightarrow> k \<le> length (sd_answers s) \<and> list_all (\<lambda>a. a = Confirmed) (sd_answers s)"

definition good :: "nat \<Rightarrow> SpanSender \<Rightarrow> bool" where
  "good k s \<longleftrightarrow> sender_inv s \<and> unat (unique_id_count s) + k < 4294967296"

definition grows :: "SpanSender \<Rightarrow> SpanSender \<Rightarrow> bool" where
  "grows s s' \<longleftrightarrow> set (sd_confirmed s) \<subseteq> set (sd_confirmed s') \<and> spanMessageBufferCh s' = spanMessageBufferCh s \<and>
     sendStreamRespCh s' = sendStreamRespCh s"

definition runs :: "nat \<Rightarrow> (SpanSender, 'a) grun \<Rightarrow> ('a \<Rightarrow> meta_message set \<Rightarrow> bool) \<Rightarrow> bool" where
  "runs k m P \<longleftrightarrow> (\<forall>s j. good (j + k) s \<longrightarrow> (\<exists>x s'. m s = (Some x, s') \<and> good j s' \<and> grows s s' \<and>
     (willing (j + k) s \<longrightarrow> willing j s' \<and> P x (set (sd_confirmed s')))))"

lemma runsI:
  assumes "\<And>s j. good (j + k) s \<Longrightarrow> \<exists>x s'. m s = (Some x, s') \<and> good j s' \<and> grows s s' \<and>
     (willing (j + k) s \<longrightarrow> willing j s' \<and> P x (set (sd_confirmed s')))"
  shows "runs k m P"
  using assms by (simp add: runs_def)

lemma runs_return: "(\<And>R. P x R) \<Longrightarrow> runs k (returnG x) P"
  by (rule runsI) (auto simp: returnG_def good_def grows_def willing_def)

lemma runs_bind:
  assumes "runs k m P" and "\<And>x. runs k' (f x) (Q x)" and "\<And>x y R R'. P x R \<Longrightarrow> Q x y R' \<Longrightarrow> R \<subseteq> R' \<Longrightarrow> S y R'"
  shows "runs (k + k') (bindG m f) S"
proof (rule runsI)
  fix s j
  assume g: "good (j + (k + k')) s"
  have g1: "good ((j + k') + k) s" using g by (simp add: ac_simps)
  from assms(1) [unfolded runs_def, rule_format, OF g1]
  obtain x s1 where 1: "m s = (Some x, s1)" "good (j + k') s1" "grows s s1" "willing (j + k' + k) s \<longrightarrow> willing (j + k') s1 \<and> P x (set (sd_confirmed s1))"
    by blast
  from assms(2) [of x, unfolded runs_def, rule_format, OF 1(2)]
  obtain y s2 where 2: "f x s1 = (Some y, s2)" "good j s2" "grows s1 s2" "willing (j + k') s1 \<longrightarrow> willing j s2 \<and> Q x y (set (sd_confirmed s2))"
    by blast
  have "grows s s2" using 1(3) 2(3) by (auto simp: grows_def)
  moreover have "willing (j + (k + k')) s \<longrightarrow> willing j s2 \<and> S y (set (sd_confirmed s2))"
    using 1(4) 2(3,4) assms(3) by (auto simp: ac_simps grows_def)
  ultimately show "\<exists>x s'. bindG m f s = (Some x, s') \<and> good j s' \<and> grows s s' \<and>
     (willing (j + (k + k')) s \<longrightarrow> willing j s' \<and> S x (set (sd_confirmed s')))"
    using 1(1) 2(1,2) by (auto simp: bindG_def)
qed

lemma runs_weaken: "runs k m P \<Longrightarrow> (\<And>x R. P x R \<Longrightarrow> Q x R) \<Longrightarrow> runs k m Q"
  unfolding runs_def by meson

text \<open>\<^verbatim>\<open>SenderGrpcMetaData\<close> on a name that is in the map.\<close>

lemma SenderGrpcMetaData_runs:
  assumes g: "good j s" and v: "idMap s k = Some v"
  shows "\<exists>s' m. SenderGrpcMetaData k s = (Some (), s') \<and> good j s' \<and> grows s s' \<and> idMap s' = idMap s \<and>
    meta_message_of k (idMap s) = Some m \<and> (willing (Suc i) s \<longrightarrow> willing i s' \<and> m \<in> set (sd_confirmed s'))"
proof -
  have inv: "sender_inv s" using g by (simp add: good_def)
  obtain m where m: "meta_message_of k (idMap s) = Some m" "\<forall>i. v = IdInt i \<longrightarrow> int_id m = Some i" "\<forall>b. v = IdBytes b \<longrightarrow> int_id m = None"
    using typed_message [of s k v] inv v by (auto simp: sender_inv_def)
  define t where "t = s\<lparr>sd_answers := tl (sd_answers s)\<rparr>"
  define t' where "t' = t\<lparr>pendingMeta := pendingMeta t - {k}, sd_confirmed := sd_confirmed t @ [m]\<rparr>"
  have t: "sender_inv t" using inv by (simp add: t_def)
  have id: "int_id m = Some i \<longleftrightarrow> v = IdInt i" for i using m(2,3) by (cases v) auto
  have "ids_typed t'" "ids_fresh t'" "ids_confirmed t'"
    using t v m(1) id by (auto simp: sender_defs t'_def t_def)
  moreover have "ids_unique t'"
  proof -
    have old: "m' = m" if "m' \<in> set (sd_confirmed s)" "int_id m' = Some i" "int_id m = Some i" for m' i
      using that inv v m(1) id by (auto simp: sender_inv_def ids_unique_def)
    have "meta_message_of k' (idMap s) = Some m" if "int_id m = Some i" "idMap s k' = Some (IdInt i)" for k' i
      using that inv v m(1) id by (auto simp: sender_inv_def ids_unique_def)
    then show ?thesis using inv old by (auto simp: sender_inv_def ids_unique_def t'_def t_def)
  qed
  ultimately have t': "sender_inv t'" by (simp add: sender_inv_def)
  have run: "SenderGrpcMetaData k s =
      (Some (), case sd_answers s of [] \<Rightarrow> t | a # _ \<Rightarrow> if a = Confirmed then t' else t)"
    using m(1) by (cases "sd_answers s") (auto simp: SenderGrpcMetaData_def t_def t'_def Let_def)
  show ?thesis
    using g t t' run m(1)
    by (cases "sd_answers s") (auto simp: good_def grows_def willing_def t_def t'_def)
qed

text \<open>New names.\<close>

lemma new_name_inv:
  assumes inv: "sender_inv s" and n: "unat (unique_id_count s) + 1 < 4294967296" and k: "idMap s k = None" "fst k \<noteq> META_Sql_uid_api"
  shows "sender_inv (s\<lparr>unique_id_count := unique_id_count s + 1, idMap := (idMap s)(k \<mapsto> IdInt (unique_id_count s + 1)),
    pendingMeta := insert k (pendingMeta s)\<rparr>)" (is "sender_inv ?s")
proof -
  let ?i = "unique_id_count s + 1"
  have u: "unat ?i = unat (unique_id_count s) + 1" using n by (simp add: unat_word_ariths)
  have new: "idMap s k' \<noteq> Some (IdInt ?i)" "m \<in> set (sd_confirmed s) \<Longrightarrow> int_id m \<noteq> Some ?i" for k' m
    using inv u by (fastforce simp: sender_inv_def ids_fresh_def)+
  have other: "k' \<noteq> k \<Longrightarrow> meta_message_of k' (idMap ?s) = meta_message_of k' (idMap s)" for k' by (simp add: meta_message_of_def)
  have "ids_typed ?s" using inv k(2) by (simp add: sender_inv_def ids_typed_def)
  moreover have "ids_fresh ?s" using inv u by (auto simp: sender_inv_def ids_fresh_def intro: le_SucI)
  moreover have "ids_unique ?s" using inv new other k(1) by (auto simp: sender_inv_def ids_unique_def)
  moreover have "ids_confirmed ?s" using inv other k(1) by (fastforce simp: sender_inv_def ids_confirmed_def)
  ultimately show ?thesis by (simp add: sender_inv_def)
qed

lemma new_sql_inv:
  assumes inv: "sender_inv s" and k: "idMap s k = None" "fst k = META_Sql_uid_api"
  shows "sender_inv (s\<lparr>idMap := (idMap s)(k \<mapsto> IdBytes b), pendingMeta := insert k (pendingMeta s)\<rparr>)" (is "sender_inv ?s")
proof -
  have other: "k' \<noteq> k \<Longrightarrow> meta_message_of k' (idMap ?s) = meta_message_of k' (idMap s)" for k' by (simp add: meta_message_of_def)
  have "ids_typed ?s" "ids_fresh ?s" using inv k(2) by (auto simp: sender_inv_def ids_typed_def ids_fresh_def)
  moreover have "ids_unique ?s" using inv other k(1) by (auto simp: sender_inv_def ids_unique_def)
  moreover have "ids_confirmed ?s" using inv other k(1) by (fastforce simp: sender_inv_def ids_confirmed_def)
  ultimately show ?thesis by (simp add: sender_inv_def)
qed

text \<open>The number \<open>i\<close> has been confirmed for a name.\<close>

definition registered :: "Meta_Type \<Rightarrow> string \<Rightarrow> i32 \<Rightarrow> meta_message set \<Rightarrow> bool" where
  "registered ty name i R \<longleftrightarrow> (\<exists>m \<in> R. meta_message_of (ty, name) [(ty, name) \<mapsto> IdInt i] = Some m)"

lemma meta_message_of_entry: "ids k = Some v \<Longrightarrow> meta_message_of k [k \<mapsto> v] = meta_message_of k ids"
  by (simp add: meta_message_of_def)

lemma good_less: "good (Suc j) s \<Longrightarrow> good j s" "willing (Suc j) s \<Longrightarrow> willing j s"
  by (simp_all add: good_def willing_def)

lemma getMetaApiId_runs:
  assumes ty: "ty \<noteq> META_Sql_uid_api"
  shows "runs 1 (getMetaApiId name ty) (\<lambda>i. registered ty name i)"
proof (rule runsI)
  fix s j
  assume g: "good (j + 1) s"
  let ?k = "(ty, name)"
  have inv: "sender_inv s" and n: "unat (unique_id_count s) + 1 < 4294967296" using g by (simp_all add: good_def)
  show "\<exists>x s'. getMetaApiId name ty s = (Some x, s') \<and> good j s' \<and> grows s s' \<and>
     (willing (j + 1) s \<longrightarrow> willing j s' \<and> registered ty name x (set (sd_confirmed s')))"
  proof (cases "idMap s ?k")
    case (Some v)
    obtain i where v: "v = IdInt i" using typed_entry [OF inv Some] ty by auto
    show ?thesis
    proof (cases "?k \<in> pendingMeta s")
      case True
      obtain s' m where "SenderGrpcMetaData ?k s = (Some (), s')" "good j s'" "grows s s'" "meta_message_of ?k (idMap s) = Some m"
          "willing (Suc j) s \<longrightarrow> willing j s' \<and> m \<in> set (sd_confirmed s')"
        using SenderGrpcMetaData_runs [of j s ?k v j] good_less g Some by auto
      then show ?thesis
        using Some v True meta_message_of_entry [of "idMap s" ?k v] by (auto simp: getMetaApiId_def bindG_def registered_def)
    next
      case False
      then obtain m where "m \<in> set (sd_confirmed s)" "meta_message_of ?k (idMap s) = Some m"
        using inv Some by (auto simp: sender_inv_def ids_confirmed_def)
      then show ?thesis
        using Some v False good_less g meta_message_of_entry [of "idMap s" ?k v] by (auto simp: getMetaApiId_def registered_def grows_def)
    qed
  next
    case None
    let ?i = "unique_id_count s + 1"
    define t where "t = s\<lparr>unique_id_count := ?i, idMap := (idMap s)(?k \<mapsto> IdInt ?i), pendingMeta := insert ?k (pendingMeta s)\<rparr>"
    have "unat ?i = unat (unique_id_count s) + 1" using n by (simp add: unat_word_ariths)
    then have gt: "good j t" using new_name_inv [OF inv n None] ty g by (simp add: good_def t_def)
    have t: "idMap t ?k = Some (IdInt ?i)" "grows s t" "willing m t = willing m s" for m by (simp_all add: t_def grows_def willing_def)
    obtain s' m where "SenderGrpcMetaData ?k t = (Some (), s')" "good j s'" "grows t s'" "meta_message_of ?k (idMap t) = Some m"
        "willing (Suc j) t \<longrightarrow> willing j s' \<and> m \<in> set (sd_confirmed s')"
      using SenderGrpcMetaData_runs [OF gt t(1), of j] by blast
    then show ?thesis
      using None t meta_message_of_entry [of "idMap t" ?k "IdInt ?i"]
      by (auto simp: getMetaApiId_def bindG_def returnG_def registered_def Let_def t_def [symmetric] grows_def)
  qed
qed

lemma getSqlUidMetaApiId_runs: "runs 1 (getSqlUidMetaApiId murmur3 name) (\<lambda>_ _. True)"
proof (rule runsI)
  fix s j
  assume g: "good (j + 1) s"
  let ?k = "(META_Sql_uid_api, name)"
  have inv: "sender_inv s" using g by (simp add: good_def)
  show "\<exists>x s'. getSqlUidMetaApiId murmur3 name s = (Some x, s') \<and> good j s' \<and> grows s s' \<and> (willing (j + 1) s \<longrightarrow> willing j s' \<and> True)"
  proof (cases "idMap s ?k")
    case (Some v)
    obtain b where v: "v = IdBytes b" using typed_entry [OF inv Some] by auto
    show ?thesis
      using SenderGrpcMetaData_runs [of j s ?k v j] good_less g Some v
      by (cases "?k \<in> pendingMeta s") (auto simp: getSqlUidMetaApiId_def bindG_def grows_def)
  next
    case None
    define t where "t = s\<lparr>idMap := (idMap s)(?k \<mapsto> IdBytes (murmur3 name)), pendingMeta := insert ?k (pendingMeta s)\<rparr>"
    have gt: "good j t" using new_sql_inv [OF inv None] g by (simp add: good_def t_def)
    have t: "idMap t ?k = Some (IdBytes (murmur3 name))" "grows s t" "willing m t = willing m s" for m by (simp_all add: t_def grows_def willing_def)
    obtain s' where "SenderGrpcMetaData ?k t = (Some (), s')" "good j s'" "grows t s'" "willing (Suc j) t \<longrightarrow> willing j s'"
      using SenderGrpcMetaData_runs [OF gt t(1), of j] by blast
    then show ?thesis
      using None t by (auto simp: getSqlUidMetaApiId_def bindG_def returnG_def Let_def t_def [symmetric] grows_def)
  qed
qed

section \<open>Messages\<close>

lemma registered_mono: "registered ty name i R \<Longrightarrow> R \<subseteq> R' \<Longrightarrow> registered ty name i R'"
  by (auto simp: registered_def)

lemma api_type_not_sql [simp]: "api_type ev \<noteq> META_Sql_uid_api"
  by (simp add: api_type_def)

lemma runs_map:
  assumes "runs k m P"
  shows "runs k (bindG m (\<lambda>x. returnG (f x))) (\<lambda>_ _. True)"
proof -
  have "runs (k + 0) (bindG m (\<lambda>x. returnG (f x))) (\<lambda>_ _. True)"
    by (rule runs_bind [OF assms runs_return [of "\<lambda>_ _. True"]]) simp_all
  then show ?thesis by simp
qed

lemma exception_info_runs: "runs 1 (exception_info text) (\<lambda>_ _. True)"
  by (simp add: exception_info_def runs_return runs_map [OF getMetaApiId_runs [of META_String_api]] del: One_nat_def)

lemma sql_annotation_runs: "runs 1 (sql_annotation murmur3 sql) (\<lambda>_ _. True)"
  by (simp add: sql_annotation_def runs_return runs_map [OF getSqlUidMetaApiId_runs] del: One_nat_def split: option.splits)

lemma error_info_runs: "runs 1 (error_info err exc) (\<lambda>_ _. True)"
  by (simp add: error_info_def runs_return runs_map [OF getMetaApiId_runs [of META_String_api]] del: One_nat_def split: option.splits)

text \<open>What an event of a message says of the event of the span.\<close>

definition event_told :: "TSpanEvent \<Rightarrow> PSpanEvent \<Rightarrow> meta_message set \<Rightarrow> bool" where
  "event_told ev pe R \<longleftrightarrow> registered (api_type ev) (ev_Name ev) (pe_ApiId pe) R \<and> pe_Sequence pe = ev_Sequence ev \<and>
     pe_Depth pe = ev_Depth ev \<and> pe_StartElapsed pe = GetStartElapsed ev \<and> pe_EndElapsed pe = GetEndElapsed ev"

lemma createPinpointSpanEv_runs: "runs 3 (createPinpointSpanEv murmur3 ev) (\<lambda>pe. event_told ev pe)"
proof -
  have "runs (1 + (1 + (1 + 0))) (createPinpointSpanEv murmur3 ev) (\<lambda>pe. event_told ev pe)"
    unfolding createPinpointSpanEv_def
  proof (rule runs_bind [OF getMetaApiId_runs])
    fix apiId
    show "runs (1 + (1 + 0)) (bindG (exception_info (ev_ExceptionInfo ev)) (\<lambda>exc. bindG (sql_annotation murmur3 (ev_SqlMeta ev)) (\<lambda>sql. returnG
        \<lparr>pe_StartElapsed = GetStartElapsed ev, pe_EndElapsed = GetEndElapsed ev, pe_ServiceType = ev_ServiceType ev,
         pe_Depth = ev_Depth ev, pe_Sequence = ev_Sequence ev, pe_AsyncEvent = ev_AsyId ev, pe_ApiId = apiId, pe_ExceptionInfo = exc,
         pe_NextEvent = (ev_DestinationId ev, ev_NextSpanId ev, ev_EndPoint ev),
         pe_Annotation = annotations_of (ev_Annotations ev) @ sql\<rparr>)))
      (\<lambda>pe R. pe_ApiId pe = apiId \<and> pe_Sequence pe = ev_Sequence ev \<and> pe_Depth pe = ev_Depth ev \<and>
         pe_StartElapsed pe = GetStartElapsed ev \<and> pe_EndElapsed pe = GetEndElapsed ev)"
      by (rule runs_bind [OF exception_info_runs runs_bind [OF sql_annotation_runs runs_return]]) simp_all
  qed (auto simp: event_told_def registered_mono)
  then show ?thesis by (simp add: numeral_3_eq_3)
qed

lemma mapG_runs:
  assumes "\<And>x. runs k (f x) (P x)" and "\<And>x y R R'. P x y R \<Longrightarrow> R \<subseteq> R' \<Longrightarrow> P x y R'"
  shows "runs (length xs * k) (mapG f xs) (\<lambda>ys R. list_all2 (\<lambda>x y. P x y R) xs ys)"
proof (induction xs)
  case Nil
  then show ?case by (simp add: runs_return)
next
  case (Cons x xs)
  have "runs (k + (length xs * k + 0)) (mapG f (x # xs)) (\<lambda>ys R. list_all2 (\<lambda>x y. P x y R) (x # xs) ys)"
    unfolding mapG.simps
  proof (rule runs_bind [OF assms(1)])
    fix y
    show "runs (length xs * k + 0) (bindG (mapG f xs) (\<lambda>ys. returnG (y # ys))) (\<lambda>zs R. \<exists>ys. zs = y # ys \<and> list_all2 (\<lambda>x y. P x y R) xs ys)"
      by (rule runs_bind [OF Cons.IH runs_return, of "\<lambda>ys zs R. zs = y # ys"]) (auto elim!: list_all2_mono assms(2))
  qed (auto intro: assms(2))
  then show ?case by simp
qed

fun message_events :: "PSpanMessage \<Rightarrow> PSpanEvent list" where
  "message_events (MsgSpan p) = ps_SpanEvent p"
| "message_events (MsgChunk c) = pc_SpanEvent c"

definition events_told :: "TSpan \<Rightarrow> PSpanMessage \<Rightarrow> meta_message set \<Rightarrow> bool" where
  "events_told span msg R \<longleftrightarrow> list_all2 (\<lambda>ev pe. event_told ev pe R) (List.map_filter (\<lambda>e. e) (ts_Follows span)) (message_events msg)"

lemma event_told_mono: "event_told ev pe R \<Longrightarrow> R \<subseteq> R' \<Longrightarrow> event_told ev pe R'"
  by (auto simp: event_told_def intro: registered_mono)

lemma makePinpointSpan_runs: "runs 3 (makePinpointSpan span) (\<lambda>_ _. True)"
proof -
  have "runs (1 + (1 + (1 + 0))) (makePinpointSpan span) (\<lambda>_ _. True)"
    unfolding makePinpointSpan_def case_prod_unfold
    by (rule runs_bind [OF getMetaApiId_runs runs_bind [OF exception_info_runs runs_bind [OF error_info_runs runs_return [of "\<lambda>_ _. True"]]]]) simp_all
  then show ?thesis by (simp add: numeral_3_eq_3)
qed

text \<open>The numbers and answers a span may use up.\<close>

definition demand :: "TSpan \<Rightarrow> nat" where
  "demand span = length (List.map_filter (\<lambda>e. e) (ts_Follows span)) * 3 + 3"

lemma makeSpanOrSpanChunk_runs: "runs (demand span) (makeSpanOrSpanChunk murmur3 span) (\<lambda>msg. events_told span msg)"
  unfolding makeSpanOrSpanChunk_def demand_def
proof (rule runs_bind [OF mapG_runs [OF createPinpointSpanEv_runs event_told_mono]])
  fix spanEv
  show "runs 3 (case ts_LocalAsyncId span of
      None \<Rightarrow> bindG (makePinpointSpan span) (\<lambda>p. returnG (MsgSpan (p\<lparr>ps_SpanEvent := spanEv\<rparr>)))
    | Some asy \<Rightarrow> returnG (MsgChunk (makeSpanChunk span asy\<lparr>pc_SpanEvent := spanEv\<rparr>))) (\<lambda>msg _. message_events msg = spanEv)"
  proof (cases "ts_LocalAsyncId span")
    case None
    have "runs (3 + 0) (bindG (makePinpointSpan span) (\<lambda>p. returnG (MsgSpan (p\<lparr>ps_SpanEvent := spanEv\<rparr>)))) (\<lambda>msg _. message_events msg = spanEv)"
      by (rule runs_bind [OF makePinpointSpan_runs runs_return [of "\<lambda>msg _. message_events msg = spanEv"]]) simp_all
    then show ?thesis using None by simp
  qed (simp add: runs_return)
qed (auto simp: events_told_def elim!: list_all2_mono event_told_mono)

section \<open>Properties\<close>

text \<open>
  C10: What a message says can be read by the backend.  When the backend confirms the registrations,
  there is room in the channel and no stream has failed, a span becomes exactly one message; it tells
  every event of the span, in order and without the null pointers, and the number that stands for the
  name of an event has been confirmed for just that name.
\<close>

theorem message_readable:
  assumes inv: "sender_inv s" and "unat (unique_id_count s) + demand span < 4294967296" and "willing (demand span) s"
    and "length (spanMessageBufferCh s) < chan" and "sendStreamRespCh s = []"
  shows "\<exists>msg s'. SpanSender_Interceptor murmur3 chan prefer_resp span s = (Some True, s') \<and>
    spanMessageBufferCh s' = spanMessageBufferCh s @ [msg] \<and> events_told span msg (set (sd_confirmed s'))"
proof -
  have "good (0 + demand span) s" using assms by (simp add: good_def)
  from makeSpanOrSpanChunk_runs [unfolded runs_def, rule_format, OF this, of murmur3]
  obtain msg s' where "makeSpanOrSpanChunk murmur3 span s = (Some msg, s')" "grows s s'" "events_told span msg (set (sd_confirmed s'))"
    using assms(3) by auto
  then show ?thesis using assms(4,5) by (auto simp: SpanSender_Interceptor_def bindG_def grows_def Let_def)
qed

text \<open>A span with an event and a null pointer.\<close>

definition sample_event :: TSpanEvent where
  "sample_event =
     \<lparr>ev_Name = ''f'', ev_Sequence = 0, ev_Depth = 1, ev_ExceptionInfo = ''e'', ev_ExceptionInfoV2 = None, ev_DestinationId = [], ev_NextSpanId = 0,
      ev_EndPoint = [], ev_StartElapsed = 0, ev_EndElapsed = 3, ev_StartElapsedV2 = 0, ev_EndElapsedV2 = 0, ev_ServiceType = 1301,
      ev_Annotations = [], ev_SqlMeta = Some ''select'', ev_AsyId = 0\<rparr>"

definition sample_spans :: TSpan where
  "sample_spans = sample_span\<lparr>ts_Follows := [Some sample_event, None]\<rparr>"

lemma sample_events: "List.map_filter (\<lambda>e. e) (ts_Follows sample_spans) = [sample_event]"
  by (simp add: sample_spans_def List.map_filter_def)

theorem message_readable_witness:
  "\<exists>msg s'. SpanSender_Interceptor (\<lambda>x. x) 1000 False sample_spans (createSpanSender (replicate 6 Confirmed)) = (Some True, s') \<and>
     spanMessageBufferCh s' = [msg] \<and> length (message_events msg) = 1"
proof -
  let ?s = "createSpanSender (replicate 6 Confirmed)"
  have "demand sample_spans = 6" by (simp add: demand_def sample_events)
  moreover have "willing 6 ?s" "unat (unique_id_count ?s) = 1" "spanMessageBufferCh ?s = []" "sendStreamRespCh ?s = []"
    by (simp_all add: willing_def createSpanSender_def list_all_iff)
  ultimately show ?thesis
    using message_readable [OF createSpanSender_inv, of "replicate 6 Confirmed" sample_spans 1000 "\<lambda>x. x" False]
    by (auto simp: events_told_def sample_events dest: list_all2_lengthD)
qed

text \<open>
  The life of a sender: spans arrive, streams take messages, streams fail.  The Boolean says that no
  round has panicked.
\<close>

datatype sender_event = Span_arrives bool TSpan | Stream_takes | Stream_fails

fun sender_run :: "(bytes \<Rightarrow> bytes) \<Rightarrow> nat \<Rightarrow> nat \<Rightarrow> sender_event list \<Rightarrow> SpanSender \<Rightarrow> bool \<times> SpanSender" where
  "sender_run murmur3 chan par [] s = (True, s)"
| "sender_run murmur3 chan par (Span_arrives prefer_resp span # es) s =
     (let (r, s) = SpanSender_Interceptor murmur3 chan prefer_resp span s; (ok, s) = sender_run murmur3 chan par es s in (r = Some True \<and> ok, s))"
| "sender_run murmur3 chan par (Stream_takes # es) s = sender_run murmur3 chan par es (stream_takes s)"
| "sender_run murmur3 chan par (Stream_fails # es) s = sender_run murmur3 chan par es (stream_fails par s)"

fun total_demand :: "sender_event list \<Rightarrow> nat" where
  "total_demand [] = 0"
| "total_demand (Span_arrives _ span # es) = demand span + total_demand es"
| "total_demand (_ # es) = total_demand es"

lemma Interceptor_good:
  assumes "good (j + demand span) s"
  shows "\<exists>s'. SpanSender_Interceptor murmur3 chan prefer_resp span s = (Some True, s') \<and> good j s'"
proof -
  obtain msg s' where run: "makeSpanOrSpanChunk murmur3 span s = (Some msg, s')" "good j s'"
    using makeSpanOrSpanChunk_runs [unfolded runs_def, rule_format, OF assms, of murmur3] by blast
  have "good j (cleanAllMetaData (s'\<lparr>sendStreamRespCh := r\<rparr>))" for r
    using run(2) cleanAllMetaData_inv [of "s'\<lparr>sendStreamRespCh := r\<rparr>"] by (simp add: good_def) (simp add: cleanAllMetaData_def)
  moreover have "good j (s'\<lparr>spanMessageBufferCh := b\<rparr>)" for b using run(2) by (simp add: good_def)
  ultimately show ?thesis using run by (auto simp: SpanSender_Interceptor_def bindG_def Let_def)
qed

lemma sender_run_good:
  assumes "good (j + total_demand es) s"
  shows "\<exists>s'. sender_run murmur3 chan par es s = (True, s') \<and> good j s'"
  using assms
proof (induction es arbitrary: s)
  case (Cons e es)
  show ?case
  proof (cases e)
    case (Span_arrives prefer_resp span)
    then have "good ((j + total_demand es) + demand span) s" using Cons.prems by (simp add: ac_simps)
    then obtain s1 where "SpanSender_Interceptor murmur3 chan prefer_resp span s = (Some True, s1)" "good (j + total_demand es) s1"
      using Interceptor_good by blast
    then show ?thesis using Cons.IH [of s1] Span_arrives by auto
  qed (use Cons in \<open>simp_all add: stream_takes_def stream_fails_def good_def\<close>)
qed simp



declare split_paired_All [simp] split_paired_Ex [simp]

end
