(* ===== verification/Stats_Exact.thy ===== *)
theory Stats_Exact
  imports Collector_Stats
begin

text \<open>
  The reports per URL template (\<^verbatim>\<open>UrlTemplate.go\<close>) against their meaning: the sum, the longest and the
  distribution of the response times of exactly the spans that have the template.
\<close>

definition elapsed :: "TSpan \<Rightarrow> int" where
  "elapsed span = sint (GetElapsedTime span)"

text \<open>The histogram of a list of spans; the counters are machine integers and may wrap around.\<close>

definition summary :: "TSpan list \<Rightarrow> uriStatHistogram" where
  "summary spans =
     \<lparr>us_Total = word_of_int (sum_list (map elapsed spans)), us_Max = word_of_int (fold max (map elapsed spans) 0),
      TimestampHistogram = map (\<lambda>level. word_of_nat (length (filter (\<lambda>span. FindHistogramLevel span = level) spans))) [0..<8]\<rparr>"

lemma elapsed_range: "- 2147483648 \<le> elapsed span" "elapsed span < 2147483648"
  using sint_ge [of "GetElapsedTime span"] sint_lt [of "GetElapsedTime span"] by (simp_all add: elapsed_def)

lemma scast_elapsed: "(scast (GetElapsedTime span) :: i64) = word_of_int (elapsed span)"
  unfolding elapsed_def by (rule scast_eq)

lemma longest: "0 \<le> fold max (map elapsed spans) 0 \<and> fold max (map elapsed spans) 0 < 2147483648"
proof -
  have "0 \<le> m \<Longrightarrow> m < 2147483648 \<Longrightarrow> 0 \<le> fold max (map elapsed spans) m \<and> fold max (map elapsed spans) m < 2147483648" for m
    by (induction spans arbitrary: m) (simp_all add: elapsed_range)
  then show ?thesis by simp
qed

lemma sint_i64: "- 9223372036854775808 \<le> x \<Longrightarrow> x < 9223372036854775808 \<Longrightarrow> sint (word_of_int x :: i64) = x"
  by (simp add: signed_take_bit_int_eq_self sint_sbintrunc')

lemma FindHistogramLevel_less: "FindHistogramLevel span < 8"
  by (simp add: FindHistogramLevel_def Let_def)

lemma summary_Nil: "summary [] = new_histogram"
  by (simp add: summary_def new_histogram_def map_replicate_const)

lemma summary_snoc: "histogram_Update span (summary spans) = summary (spans @ [span])"
proof -
  let ?l = "FindHistogramLevel span" and ?m = "fold max (map elapsed spans) 0"
  have "sint (word_of_int ?m :: i64) = ?m" "sint (word_of_int (elapsed span) :: i64) = elapsed span"
    using longest [of spans] elapsed_range [of span] by (simp_all add: sint_i64)
  then have m: "(if sint (word_of_int ?m :: i64) < sint (word_of_int (elapsed span) :: i64) then word_of_int (elapsed span) else word_of_int ?m :: i64) =
      word_of_int (max (elapsed span) ?m)" by (simp add: max_def)
  have c: "(TimestampHistogram (summary spans))[?l := TimestampHistogram (summary spans) ! ?l + 1] = TimestampHistogram (summary (spans @ [span]))"
    using FindHistogramLevel_less [of span] by (intro nth_equalityI) (auto simp: summary_def nth_list_update)
  show ?thesis
    using m c by (auto simp: histogram_Update_def Let_def scast_elapsed summary_def split: if_splits)
qed

text \<open>What the report holds after some spans, for every template.\<close>

definition reported :: "TSpan list \<Rightarrow> string \<Rightarrow> statHistograms option" where
  "reported spans ut =
     (let mine = filter (\<lambda>span. ts_UT span = ut \<and> ut \<noteq> []) spans
      in if mine = [] then None else Some \<lparr>TotalHistogram = summary mine, FailedHistogram = summary (filter IsFailed mine)\<rparr>)"

lemma report_snoc: "UrlTemplate_Interceptor span (reported spans) = reported (spans @ [span])"
proof
  fix ut
  have step: "stat_Update span \<lparr>TotalHistogram = summary mine, FailedHistogram = summary (filter IsFailed mine)\<rparr> =
      \<lparr>TotalHistogram = summary (mine @ [span]), FailedHistogram = summary (filter IsFailed (mine @ [span]))\<rparr>" for mine
    by (simp add: stat_Update_def Let_def summary_snoc)
  show "UrlTemplate_Interceptor span (reported spans) ut = reported (spans @ [span]) ut"
    using step [of "[]"] step [of "filter (\<lambda>span. ts_UT span = ut \<and> ut \<noteq> []) spans"]
    by (auto simp: UrlTemplate_Interceptor_def updateUriSnapshot_def reported_def Let_def summary_Nil simp del: filter_filter)
qed

lemma report_spans: "fold UrlTemplate_Interceptor spans CreateUrlTemplateReport = reported spans"
proof (induction spans rule: rev_induct)
  case Nil
  show ?case by (simp add: reported_def CreateUrlTemplateReport_def fun_eq_iff)
next
  case (snoc span spans)
  then show ?case by (simp add: report_snoc)
qed

text \<open>
  C25: The report per URL template is exact.  After any spans, \<^verbatim>\<open>MoveUtReport\<close> hands out for every template
  the sum, the longest and the distribution over the eight levels of the response times of just the
  spans with that template, once for all of them and once for the failed ones; spans without a template
  are not reported, a template without spans does not appear, and the next report starts empty.
\<close>

theorem url_report_exact:
  "fst (MoveUtReport (fold UrlTemplate_Interceptor spans CreateUrlTemplateReport)) ut =
     (let mine = filter (\<lambda>span. ts_UT span = ut \<and> ut \<noteq> []) spans
      in if mine = [] then None else Some (ToUriHistogram (summary mine), ToUriHistogram (summary (filter IsFailed mine)))) \<and>
   snd (MoveUtReport (fold UrlTemplate_Interceptor spans CreateUrlTemplateReport)) = CreateUrlTemplateReport"
  unfolding report_spans by (simp add: MoveUtReport_def reported_def Let_def CreateUrlTemplateReport_def)

end
