(* ===== verification/Json_Ops.thy ===== *)
theory Json_Ops
  imports Json_Writer
begin

text \<open>
  Operations of the JSON values that the agent itself does not call: the order and the equality of
  values, the questions about their type, the conversions to numbers, and inserting into and removing
  from arrays (\<^verbatim>\<open>common/jsoncpp/lib_json/json_value.cpp\<close>).  What the processor does with \<^verbatim>\<open>double\<close> is a record
  of functions (\<open>real_ops\<close>).
\<close>

unbundle bit_operations_syntax

section \<open>Types\<close>

datatype ValueType = nullValue | intValue | uintValue | realValue | stringValue | booleanValue | arrayValue | objectValue

text \<open>The value of the enumeration.\<close>

definition value_type :: "'d jvalue \<Rightarrow> nat" where
  "value_type v =
     (case v of NullValue \<Rightarrow> 0 | IntValue _ \<Rightarrow> 1 | UIntValue _ \<Rightarrow> 2 | RealValue _ \<Rightarrow> 3 | StringValue _ \<Rightarrow> 4 | BooleanValue _ \<Rightarrow> 5
      | ArrayValue _ \<Rightarrow> 6 | ObjectValue _ \<Rightarrow> 7)"

text \<open>
  The comparisons \<^verbatim>\<open><\<close>, \<^verbatim>\<open><=\<close> and \<^verbatim>\<open>==\<close>, the conversion of an integer, the truncation to an integer, whether
  \<^verbatim>\<open>modf\<close> leaves nothing, and whether a number is neither zero nor NaN.
\<close>

record 'd real_ops =
  r_less :: "'d \<Rightarrow> 'd \<Rightarrow> bool"
  r_le :: "'d \<Rightarrow> 'd \<Rightarrow> bool"
  r_equal :: "'d \<Rightarrow> 'd \<Rightarrow> bool"
  r_of :: "int \<Rightarrow> 'd"
  r_trunc :: "'d \<Rightarrow> int"
  r_integral :: "'d \<Rightarrow> bool"
  r_truth :: "'d \<Rightarrow> bool"

section \<open>Comparison\<close>

text \<open>
  \<^verbatim>\<open>operator<\<close> of two maps is \<^verbatim>\<open>std::lexicographical_compare\<close> over their entries.  The entries of arrays of
  one length have the same keys at the same places, so only the values matter there.
\<close>

fun lexicographical_compare :: "('a \<Rightarrow> 'a \<Rightarrow> bool) \<Rightarrow> 'a list \<Rightarrow> 'a list \<Rightarrow> bool" where
  "lexicographical_compare f (x # xs) (y # ys) = (if f x y then True else if f y x then False else lexicographical_compare f xs ys)"
| "lexicographical_compare f [] (y # ys) = True"
| "lexicographical_compare f xs [] = False"

lemma lexicographical_compare_cong [fundef_cong]:
  assumes "xs = xs'" and "ys = ys'" and "\<And>x y. x \<in> set xs' \<Longrightarrow> y \<in> set ys' \<Longrightarrow> f x y = g x y"
    and "\<And>x y. x \<in> set xs' \<Longrightarrow> y \<in> set ys' \<Longrightarrow> f y x = g y x"
  shows "lexicographical_compare f xs ys = lexicographical_compare g xs' ys'"
proof -
  have "(\<And>x y. x \<in> set xs \<Longrightarrow> y \<in> set ys \<Longrightarrow> f x y = g x y \<and> f y x = g y x) \<Longrightarrow>
      lexicographical_compare f xs ys = lexicographical_compare g xs ys"
    by (induction f xs ys rule: lexicographical_compare.induct) auto
  then show ?thesis using assms by auto
qed

text \<open>\<^verbatim>\<open>operator<\<close> of two entries.\<close>

definition pair_less :: "('v \<Rightarrow> 'v \<Rightarrow> bool) \<Rightarrow> string \<times> 'v \<Rightarrow> string \<times> 'v \<Rightarrow> bool" where
  "pair_less f p q \<longleftrightarrow> CZString_less (fst p) (fst q) \<or> \<not> CZString_less (fst q) (fst p) \<and> f (snd p) (snd q)"

lemma pair_less_cong [fundef_cong]:
  "p = p' \<Longrightarrow> q = q' \<Longrightarrow> f (snd p') (snd q') = g (snd p') (snd q') \<Longrightarrow> pair_less f p q = pair_less g p' q'"
  by (simp add: pair_less_def)

lemma size_element: "x \<in> set xs \<Longrightarrow> size x < size (ArrayValue xs)"
  by (induction xs) auto

lemma size_member: "p \<in> set ms \<Longrightarrow> size (snd p) < size (ObjectValue ms)"
  by (induction ms) auto

function less_val :: "'d real_ops \<Rightarrow> 'd jvalue \<Rightarrow> 'd jvalue \<Rightarrow> bool" where
  "less_val r a b =
     (if value_type a \<noteq> value_type b then value_type a < value_type b
      else
        case (a, b) of
          (IntValue i, IntValue j) \<Rightarrow> sint i < sint j
        | (UIntValue u, UIntValue w) \<Rightarrow> u < w
        | (RealValue x, RealValue y) \<Rightarrow> r_less r x y
        | (BooleanValue p, BooleanValue q) \<Rightarrow> \<not> p \<and> q
        | (StringValue s, StringValue t) \<Rightarrow>
            let comp = memcmp s t (min (length s) (length t)) in
            if comp < 0 then True else if 0 < comp then False else length s < length t
        | (ArrayValue xs, ArrayValue ys) \<Rightarrow>
            if length xs \<noteq> length ys then length xs < length ys else lexicographical_compare (less_val r) xs ys
        | (ObjectValue ms, ObjectValue ns) \<Rightarrow>
            if length ms \<noteq> length ns then length ms < length ns else lexicographical_compare (pair_less (less_val r)) ms ns
        | _ \<Rightarrow> False)"
  by pat_completeness auto
termination
  by (relation "measure (\<lambda>(r, a, b). size a + size b)") (auto dest!: size_element size_member)

declare less_val.simps [simp del]

function equal_val :: "'d real_ops \<Rightarrow> 'd jvalue \<Rightarrow> 'd jvalue \<Rightarrow> bool" where
  "equal_val r a b =
     (if value_type a \<noteq> value_type b then False
      else
        case (a, b) of
          (NullValue, NullValue) \<Rightarrow> True
        | (IntValue i, IntValue j) \<Rightarrow> i = j
        | (UIntValue u, UIntValue w) \<Rightarrow> u = w
        | (RealValue x, RealValue y) \<Rightarrow> r_equal r x y
        | (BooleanValue p, BooleanValue q) \<Rightarrow> p = q
        | (StringValue s, StringValue t) \<Rightarrow> if length s \<noteq> length t then False else memcmp s t (length s) = 0
        | (ArrayValue xs, ArrayValue ys) \<Rightarrow> length xs = length ys \<and> list_all2 (equal_val r) xs ys
        | (ObjectValue ms, ObjectValue ns) \<Rightarrow>
            length ms = length ns \<and> list_all2 (\<lambda>p q. CZString_eq (fst p) (fst q) \<and> equal_val r (snd p) (snd q)) ms ns
        | _ \<Rightarrow> False)"
  by pat_completeness auto
termination
  by (relation "measure (\<lambda>(r, a, b). size a + size b)") (auto dest!: size_element size_member)

declare equal_val.simps [simp del]

definition compare_val :: "'d real_ops \<Rightarrow> 'd jvalue \<Rightarrow> 'd jvalue \<Rightarrow> int" where
  "compare_val r a b = (if less_val r a b then - 1 else if less_val r b a then 1 else 0)"

section \<open>Questions and conversions\<close>

definition InRange :: "'d real_ops \<Rightarrow> 'd \<Rightarrow> int \<Rightarrow> int \<Rightarrow> bool" where
  "InRange r d lo hi \<longleftrightarrow> r_le r (r_of r lo) d \<and> r_le r d (r_of r hi)"

definition isBool :: "'d jvalue \<Rightarrow> bool" where
  "isBool v \<longleftrightarrow> value_type v = 5"

definition isInt :: "'d real_ops \<Rightarrow> 'd jvalue \<Rightarrow> bool" where
  "isInt r v =
     (case v of
        IntValue i \<Rightarrow> - 2147483648 \<le> sint i \<and> sint i \<le> 2147483647
      | UIntValue u \<Rightarrow> u \<le> 2147483647
      | RealValue x \<Rightarrow> r_le r (r_of r (- 2147483648)) x \<and> r_le r x (r_of r 2147483647) \<and> r_integral r x
      | _ \<Rightarrow> False)"

definition isUInt :: "'d real_ops \<Rightarrow> 'd jvalue \<Rightarrow> bool" where
  "isUInt r v =
     (case v of
        IntValue i \<Rightarrow> 0 \<le> sint i \<and> i \<le> 4294967295
      | UIntValue u \<Rightarrow> u \<le> 4294967295
      | RealValue x \<Rightarrow> r_le r (r_of r 0) x \<and> r_le r x (r_of r 4294967295) \<and> r_integral r x
      | _ \<Rightarrow> False)"

definition isInt64 :: "'d real_ops \<Rightarrow> 'd jvalue \<Rightarrow> bool" where
  "isInt64 r v =
     (case v of
        IntValue i \<Rightarrow> True
      | UIntValue u \<Rightarrow> u \<le> 9223372036854775807
      | RealValue x \<Rightarrow> r_le r (r_of r (- 9223372036854775808)) x \<and> r_less r x (r_of r 9223372036854775807) \<and> r_integral r x
      | _ \<Rightarrow> False)"

definition isUInt64 :: "'d real_ops \<Rightarrow> 'd jvalue \<Rightarrow> bool" where
  "isUInt64 r v =
     (case v of
        IntValue i \<Rightarrow> 0 \<le> sint i
      | UIntValue u \<Rightarrow> True
      | RealValue x \<Rightarrow> r_le r (r_of r 0) x \<and> r_less r x (r_of r 18446744073709551615) \<and> r_integral r x
      | _ \<Rightarrow> False)"

definition isIntegral :: "'d real_ops \<Rightarrow> 'd jvalue \<Rightarrow> bool" where
  "isIntegral r v =
     (case v of
        IntValue i \<Rightarrow> True
      | UIntValue u \<Rightarrow> True
      | RealValue x \<Rightarrow> r_le r (r_of r (- 9223372036854775808)) x \<and> r_less r x (r_of r 18446744073709551615) \<and> r_integral r x
      | _ \<Rightarrow> False)"

definition isDouble :: "'d jvalue \<Rightarrow> bool" where
  "isDouble v \<longleftrightarrow> value_type v = 1 \<or> value_type v = 2 \<or> value_type v = 3"

definition isNumeric :: "'d jvalue \<Rightarrow> bool" where
  "isNumeric v = isDouble v"

definition asInt :: "'d real_ops \<Rightarrow> 'd jvalue \<Rightarrow> cpp_exn + 32 word" where
  "asInt r v =
     (case v of
        IntValue i \<Rightarrow> if isInt r v then Inr (ucast i) else Inl Logic_error
      | UIntValue u \<Rightarrow> if isInt r v then Inr (ucast u) else Inl Logic_error
      | RealValue x \<Rightarrow> if InRange r x (- 2147483648) 2147483647 then Inr (word_of_int (r_trunc r x)) else Inl Logic_error
      | NullValue \<Rightarrow> Inr 0
      | BooleanValue b \<Rightarrow> Inr (if b then 1 else 0)
      | _ \<Rightarrow> Inl Logic_error)"

definition asUInt_real :: "'d real_ops \<Rightarrow> 'd \<Rightarrow> u32 option" where
  "asUInt_real r x = (if InRange r x 0 4294967295 then Some (word_of_int (r_trunc r x)) else None)"

definition asInt64 :: "'d real_ops \<Rightarrow> 'd jvalue \<Rightarrow> cpp_exn + i64" where
  "asInt64 r v =
     (case v of
        IntValue i \<Rightarrow> Inr i
      | UIntValue u \<Rightarrow> if isInt64 r v then Inr u else Inl Logic_error
      | RealValue x \<Rightarrow>
          if InRange r x (- 9223372036854775808) 9223372036854775807 then Inr (word_of_int (r_trunc r x)) else Inl Logic_error
      | NullValue \<Rightarrow> Inr 0
      | BooleanValue b \<Rightarrow> Inr (if b then 1 else 0)
      | _ \<Rightarrow> Inl Logic_error)"

definition asUInt64 :: "'d real_ops \<Rightarrow> 'd jvalue \<Rightarrow> cpp_exn + u64" where
  "asUInt64 r v =
     (case v of
        IntValue i \<Rightarrow> if isUInt64 r v then Inr i else Inl Logic_error
      | UIntValue u \<Rightarrow> Inr u
      | RealValue x \<Rightarrow> if InRange r x 0 18446744073709551615 then Inr (word_of_int (r_trunc r x)) else Inl Logic_error
      | NullValue \<Rightarrow> Inr 0
      | BooleanValue b \<Rightarrow> Inr (if b then 1 else 0)
      | _ \<Rightarrow> Inl Logic_error)"

definition asLargestInt :: "'d real_ops \<Rightarrow> 'd jvalue \<Rightarrow> cpp_exn + i64" where
  "asLargestInt = asInt64"

definition asLargestUInt :: "'d real_ops \<Rightarrow> 'd jvalue \<Rightarrow> cpp_exn + u64" where
  "asLargestUInt = asUInt64"

definition asDouble :: "'d real_ops \<Rightarrow> 'd jvalue \<Rightarrow> cpp_exn + 'd" where
  "asDouble r v =
     (case v of
        IntValue i \<Rightarrow> Inr (r_of r (sint i))
      | UIntValue u \<Rightarrow> Inr (r_of r (uint u))
      | RealValue x \<Rightarrow> Inr x
      | NullValue \<Rightarrow> Inr (r_of r 0)
      | BooleanValue b \<Rightarrow> Inr (if b then r_of r 1 else r_of r 0)
      | _ \<Rightarrow> Inl Logic_error)"

definition isConvertibleTo :: "'d float_ops \<Rightarrow> 'd real_ops \<Rightarrow> ValueType \<Rightarrow> 'd jvalue \<Rightarrow> bool" where
  "isConvertibleTo ops r other v =
     (case other of
        nullValue \<Rightarrow>
          isNumeric v \<and> (case asDouble r v of Inr d \<Rightarrow> r_equal r d (r_of r 0) | Inl _ \<Rightarrow> False) \<or> v = BooleanValue False \<or>
          isString v \<and> asString ops v = Inr [] \<or> isArray v \<and> size_of v = 0 \<or> isObject v \<and> size_of v = 0 \<or> isNull v
      | intValue \<Rightarrow>
          isInt r v \<or> (case v of RealValue x \<Rightarrow> InRange r x (- 2147483648) 2147483647 | _ \<Rightarrow> False) \<or> isBool v \<or> isNull v
      | uintValue \<Rightarrow> isUInt r v \<or> (case v of RealValue x \<Rightarrow> InRange r x 0 4294967295 | _ \<Rightarrow> False) \<or> isBool v \<or> isNull v
      | realValue \<Rightarrow> isNumeric v \<or> isBool v \<or> isNull v
      | booleanValue \<Rightarrow> isNumeric v \<or> isBool v \<or> isNull v
      | stringValue \<Rightarrow> isNumeric v \<or> isBool v \<or> isString v \<or> isNull v
      | arrayValue \<Rightarrow> isArray v \<or> isNull v
      | objectValue \<Rightarrow> isObject v \<or> isNull v)"

section \<open>Elements of arrays\<close>

definition at_index :: "nat \<Rightarrow> 'd jvalue \<Rightarrow> cpp_exn + 'd jvalue" where
  "at_index index v =
     (case v of
        NullValue \<Rightarrow> Inr NullValue
      | ArrayValue xs \<Rightarrow> Inr (if index < length xs then xs ! index else NullValue)
      | _ \<Rightarrow> Inl Logic_error)"

definition isValidIndex :: "nat \<Rightarrow> 'd jvalue \<Rightarrow> bool" where
  "isValidIndex index v \<longleftrightarrow> index < size_of v"

text \<open>
  The loop of \<^verbatim>\<open>insert\<close>.  Assigning from a moved value swaps the two places, and the place behind the end
  comes into being as null.
\<close>

fun shift_right :: "nat \<Rightarrow> nat \<Rightarrow> 'a list \<Rightarrow> 'a list" where
  "shift_right index 0 xs = xs"
| "shift_right index (Suc i) xs = (if index < Suc i then shift_right index i (xs[Suc i := xs ! i, i := xs ! Suc i]) else xs)"

definition insert_val :: "nat \<Rightarrow> 'd jvalue \<Rightarrow> ('d, bool) jop" where
  "insert_val index newValue v =
     (case v of
        NullValue \<Rightarrow> if 0 < index then (Inr False, v) else (Inr True, ArrayValue [newValue])
      | ArrayValue xs \<Rightarrow>
          if length xs < index then (Inr False, v)
          else (Inr True, ArrayValue ((shift_right index (length xs) (xs @ [NullValue]))[index := newValue]))
      | _ \<Rightarrow> (Inl Logic_error, v))"

text \<open>The loop of \<^verbatim>\<open>removeIndex\<close> copies; the last element, left over, is erased.\<close>

function shift_left :: "nat \<Rightarrow> nat \<Rightarrow> 'a list \<Rightarrow> 'a list" where
  "shift_left i oldSize xs = (if i < oldSize - 1 then shift_left (Suc i) oldSize (xs[i := xs ! Suc i]) else xs)"
  by pat_completeness auto
termination
  by (relation "measure (\<lambda>(i, oldSize, xs). oldSize - i)") auto

declare shift_left.simps [simp del]

definition removeIndex :: "nat \<Rightarrow> 'd jvalue \<Rightarrow> 'd jvalue option \<times> 'd jvalue" where
  "removeIndex index v =
     (case v of
        ArrayValue xs \<Rightarrow>
          if length xs \<le> index then (None, v) else (Some (xs ! index), ArrayValue (butlast (shift_left index (length xs) xs)))
      | _ \<Rightarrow> (None, v))"

section \<open>The order of values\<close>

text \<open>A strict weak order: asymmetric, and what is not less is transitive.\<close>

definition weak_order_on :: "'a set \<Rightarrow> ('a \<Rightarrow> 'a \<Rightarrow> bool) \<Rightarrow> bool" where
  "weak_order_on S f \<longleftrightarrow> (\<forall>x \<in> S. \<forall>y \<in> S. f x y \<longrightarrow> \<not> f y x) \<and> (\<forall>x \<in> S. \<forall>y \<in> S. \<forall>z \<in> S. \<not> f x y \<longrightarrow> \<not> f y z \<longrightarrow> \<not> f x z)"

lemma weak_orderI:
  "(\<And>x y. x \<in> S \<Longrightarrow> y \<in> S \<Longrightarrow> f x y \<Longrightarrow> \<not> f y x) \<Longrightarrow>
   (\<And>x y z. x \<in> S \<Longrightarrow> y \<in> S \<Longrightarrow> z \<in> S \<Longrightarrow> \<not> f x y \<Longrightarrow> \<not> f y z \<Longrightarrow> \<not> f x z) \<Longrightarrow> weak_order_on S f"
  unfolding weak_order_on_def by blast

lemma weak_asym: "weak_order_on S f \<Longrightarrow> x \<in> S \<Longrightarrow> y \<in> S \<Longrightarrow> f x y \<Longrightarrow> \<not> f y x"
  unfolding weak_order_on_def by blast

lemma weak_negtrans: "weak_order_on S f \<Longrightarrow> x \<in> S \<Longrightarrow> y \<in> S \<Longrightarrow> z \<in> S \<Longrightarrow> \<not> f x y \<Longrightarrow> \<not> f y z \<Longrightarrow> \<not> f x z"
  unfolding weak_order_on_def by blast

lemma lex_asym:
  assumes "weak_order_on S f" and "set xs \<subseteq> S" "set ys \<subseteq> S" and "length xs = length ys" and "lexicographical_compare f xs ys"
  shows "\<not> lexicographical_compare f ys xs"
  using assms(4,2,3,5)
proof (induction rule: list_induct2)
  case (Cons x xs y ys)
  show ?case
  proof (cases "f x y")
    case True
    then show ?thesis using weak_asym [OF assms(1), of x y] Cons.prems by simp
  next
    case False
    then show ?thesis using Cons by (simp split: if_splits)
  qed
qed simp

lemma lex_negtrans:
  assumes "weak_order_on S f" and "set xs \<subseteq> S" "set ys \<subseteq> S" "set zs \<subseteq> S" and "length xs = length ys" "length ys = length zs"
    and "\<not> lexicographical_compare f xs ys" "\<not> lexicographical_compare f ys zs"
  shows "\<not> lexicographical_compare f xs zs"
  using assms(5,6,2-4,7,8)
proof (induction rule: list_induct3)
  case (Cons x xs y ys z zs)
  have S: "x \<in> S" "y \<in> S" "z \<in> S" using Cons.prems by simp_all
  have n: "\<not> f x y" "\<not> f y z" using Cons.prems by (simp_all split: if_splits)
  have xz: "\<not> f x z" by (rule weak_negtrans [OF assms(1) S n])
  show ?case
  proof (cases "f z x")
    case True
    then show ?thesis using xz by simp
  next
    case False
    then have "\<not> f z y" "\<not> f y x" using weak_negtrans [OF assms(1) S(2,3,1)] weak_negtrans [OF assms(1) S(3,1,2)] n weak_asym [OF assms(1)] S by blast+
    then show ?thesis using False xz n Cons by simp
  qed
qed simp

lemma pair_weak:
  assumes "weak_order_on S f"
  shows "weak_order_on {p. snd p \<in> S} (pair_less f)"
proof (rule weak_orderI)
  fix p q :: "string \<times> 'a" assume "p \<in> {p. snd p \<in> S}" "q \<in> {p. snd p \<in> S}" "pair_less f p q"
  then show "\<not> pair_less f q p"
    using weak_asym [OF assms, of "snd p" "snd q"] by (cases "fst p" "fst q" rule: linorder_cases) (simp_all add: pair_less_def CZString_less_eq_lex order.asym)
next
  fix p q t :: "string \<times> 'a" assume S: "p \<in> {p. snd p \<in> S}" "q \<in> {p. snd p \<in> S}" "t \<in> {p. snd p \<in> S}"
  assume "\<not> pair_less f p q" "\<not> pair_less f q t"
  then have "fst q \<le> fst p" "fst t \<le> fst q" "fst p = fst q \<longrightarrow> \<not> f (snd p) (snd q)" "fst q = fst t \<longrightarrow> \<not> f (snd q) (snd t)"
    by (simp_all add: pair_less_def CZString_less_eq_lex not_less)
  then show "\<not> pair_less f p t"
    using weak_negtrans [OF assms, of "snd p" "snd q" "snd t"] S by (auto simp: pair_less_def CZString_less_eq_lex not_less)
qed

text \<open>Numbers without NaN.\<close>

definition real_order :: "'d real_ops \<Rightarrow> bool" where
  "real_order r \<longleftrightarrow> weak_order_on UNIV (r_less r) \<and> (\<forall>x y. r_equal r x y \<longleftrightarrow> \<not> r_less r x y \<and> \<not> r_less r y x)"

lemma value_type_forms:
  "value_type v = 0 \<longleftrightarrow> v = NullValue" "value_type v = 1 \<longleftrightarrow> (\<exists>i. v = IntValue i)" "value_type v = 2 \<longleftrightarrow> (\<exists>u. v = UIntValue u)"
  "value_type v = 3 \<longleftrightarrow> (\<exists>x. v = RealValue x)" "value_type v = 4 \<longleftrightarrow> (\<exists>s. v = StringValue s)" "value_type v = 5 \<longleftrightarrow> (\<exists>b. v = BooleanValue b)"
  "value_type v = 6 \<longleftrightarrow> (\<exists>xs. v = ArrayValue xs)" "value_type v = 7 \<longleftrightarrow> (\<exists>ms. v = ObjectValue ms)"
  by (cases v; simp add: value_type_def)+

lemma value_type_simps [simp]:
  "value_type NullValue = 0" "value_type (IntValue i) = 1" "value_type (UIntValue u) = 2" "value_type (RealValue x) = 3"
  "value_type (StringValue s) = 4" "value_type (BooleanValue b) = 5" "value_type (ArrayValue xs) = 6" "value_type (ObjectValue ms) = 7"
  by (simp_all add: value_type_def)

lemma less_val_simps [simp]:
  "\<not> less_val r NullValue NullValue"
  "less_val r (IntValue i) (IntValue j) \<longleftrightarrow> sint i < sint j"
  "less_val r (UIntValue u) (UIntValue w) \<longleftrightarrow> u < w"
  "less_val r (RealValue x) (RealValue y) \<longleftrightarrow> r_less r x y"
  "less_val r (BooleanValue p) (BooleanValue q) \<longleftrightarrow> \<not> p \<and> q"
  "less_val r (StringValue s) (StringValue t) \<longleftrightarrow> s < t"
  "less_val r (ArrayValue xs) (ArrayValue ys) \<longleftrightarrow>
     (if length xs \<noteq> length ys then length xs < length ys else lexicographical_compare (less_val r) xs ys)"
  "less_val r (ObjectValue ms) (ObjectValue ns) \<longleftrightarrow>
     (if length ms \<noteq> length ns then length ms < length ns else lexicographical_compare (pair_less (less_val r)) ms ns)"
  by (simp_all add: less_val.simps [of r] CZString_less_eq_lex [symmetric] CZString_less_def)

lemma equal_val_simps [simp]:
  "equal_val r NullValue NullValue"
  "equal_val r (IntValue i) (IntValue j) \<longleftrightarrow> i = j"
  "equal_val r (UIntValue u) (UIntValue w) \<longleftrightarrow> u = w"
  "equal_val r (RealValue x) (RealValue y) \<longleftrightarrow> r_equal r x y"
  "equal_val r (BooleanValue p) (BooleanValue q) \<longleftrightarrow> p = q"
  "equal_val r (StringValue s) (StringValue t) \<longleftrightarrow> s = t"
  "equal_val r (ArrayValue xs) (ArrayValue ys) \<longleftrightarrow> list_all2 (equal_val r) xs ys"
  "equal_val r (ObjectValue ms) (ObjectValue ns) \<longleftrightarrow> list_all2 (\<lambda>p q. fst p = fst q \<and> equal_val r (snd p) (snd q)) ms ns"
  by (auto simp: equal_val.simps [of r] CZString_eq_iff [symmetric] CZString_eq_def dest: list_all2_lengthD)

lemma less_val_types: "value_type a \<noteq> value_type b \<Longrightarrow> less_val r a b \<longleftrightarrow> value_type a < value_type b"
  by (simp add: less_val.simps [of r])

lemma equal_val_types: "value_type a \<noteq> value_type b \<Longrightarrow> \<not> equal_val r a b"
  by (simp add: equal_val.simps [of r])

lemma same_type_cases:
  assumes "value_type a = value_type b"
  obtains "a = NullValue" "b = NullValue" | i j where "a = IntValue i" "b = IntValue j" | u w where "a = UIntValue u" "b = UIntValue w"
    | x y where "a = RealValue x" "b = RealValue y" | s t where "a = StringValue s" "b = StringValue t"
    | p q where "a = BooleanValue p" "b = BooleanValue q" | xs ys where "a = ArrayValue xs" "b = ArrayValue ys"
    | ms ns where "a = ObjectValue ms" "b = ObjectValue ns"
  using assms by (cases a) (use value_type_forms [of b] in auto)

lemma less_val_weak:
  assumes "real_order r"
  shows "weak_order_on {v. size v < n} (less_val r)"
proof (induction n)
  case 0
  show ?case by (simp add: weak_order_on_def)
next
  case (Suc n)
  note vals = Suc and pairs = pair_weak [OF Suc]
  have reals: "weak_order_on UNIV (r_less r)" using assms by (simp add: real_order_def)
  have sub: "set xs \<subseteq> {v. size v < n}" if "size (ArrayValue xs) < Suc n" for xs :: "'a jvalue list"
    using that size_element [of _ xs] by fastforce
  have psub: "set ms \<subseteq> {p. snd p \<in> {v. size v < n}}" if "size (ObjectValue ms) < Suc n" for ms :: "(string \<times> 'a jvalue) list"
    using that size_member [of _ ms] by fastforce
  show ?case
  proof (rule weak_orderI)
    fix a b assume "a \<in> {v. size v < Suc n}" "b \<in> {v. size v < Suc n}" and less: "less_val r a b"
    then have sz: "size a < Suc n" "size b < Suc n" by simp_all
    show "\<not> less_val r b a"
    proof (cases "value_type a = value_type b")
      case False
      then show ?thesis using less by (simp add: less_val_types)
    next
      case True
      then show ?thesis
      proof (cases rule: same_type_cases)
        case (4 x y)
        then show ?thesis using less weak_asym [OF reals] by simp
      next
        case (7 xs ys)
        then show ?thesis using less lex_asym [OF vals sub sub, of xs ys] sz by (simp split: if_splits)
      next
        case (8 ms ns)
        then show ?thesis using less lex_asym [OF pairs psub psub, of ms ns] sz by (simp split: if_splits)
      qed (use less in auto)
    qed
  next
    fix a b c assume "a \<in> {v. size v < Suc n}" "b \<in> {v. size v < Suc n}" "c \<in> {v. size v < Suc n}"
      and less: "\<not> less_val r a b" "\<not> less_val r b c"
    then have sz: "size a < Suc n" "size b < Suc n" "size c < Suc n" by simp_all
    have types: "value_type b \<le> value_type a" "value_type c \<le> value_type b"
      using less less_val_types [of a b r] less_val_types [of b c r] by fastforce+
    show "\<not> less_val r a c"
    proof (cases "value_type a = value_type b \<and> value_type b = value_type c")
      case False
      then show ?thesis using types less_val_types [of a c r] by fastforce
    next
      case True
      then have "value_type a = value_type b" by simp
      then show ?thesis
      proof (cases rule: same_type_cases)
        case (4 x y)
        then show ?thesis using less weak_negtrans [OF reals, of x y] True value_type_forms(4) [of c] by auto
      next
        case (7 xs ys)
        then obtain zs where "c = ArrayValue zs" using True value_type_forms(7) [of c] by auto
        then show ?thesis using less 7 lex_negtrans [OF vals sub sub sub, of xs ys zs] sz by (simp split: if_splits)
      next
        case (8 ms ns)
        then obtain os where "c = ObjectValue os" using True value_type_forms(8) [of c] by auto
        then show ?thesis using less 8 lex_negtrans [OF pairs psub psub psub, of ms ns os] sz by (simp split: if_splits)
      qed (use less True value_type_forms [of c] in auto)
    qed
  qed
qed

lemma less_val_order:
  assumes "real_order r"
  shows "weak_order_on UNIV (less_val r)"
proof (rule weak_orderI)
  show "\<not> less_val r b a" if "less_val r a b" for a b
    by (rule weak_asym [OF less_val_weak [OF assms, of "Suc (size a + size b)"] _ _ that]) simp_all
  show "\<not> less_val r a c" if "\<not> less_val r a b" "\<not> less_val r b c" for a b c
    by (rule weak_negtrans [OF less_val_weak [OF assms, of "Suc (size a + size b + size c)"] _ _ _ that]) simp_all
qed

lemma lex_incomparable:
  assumes "length xs = length ys"
  shows "\<not> lexicographical_compare f xs ys \<and> \<not> lexicographical_compare f ys xs \<longleftrightarrow> list_all2 (\<lambda>x y. \<not> f x y \<and> \<not> f y x) xs ys"
  using assms by (induction rule: list_induct2) auto

lemma pair_incomparable: "\<not> pair_less f p q \<and> \<not> pair_less f q p \<longleftrightarrow> fst p = fst q \<and> \<not> f (snd p) (snd q) \<and> \<not> f (snd q) (snd p)"
  by (cases "fst p" "fst q" rule: linorder_cases) (auto simp: pair_less_def CZString_less_eq_lex dest: order.asym)

lemma equal_val_iff:
  assumes "real_order r"
  shows "equal_val r a b \<longleftrightarrow> \<not> less_val r a b \<and> \<not> less_val r b a"
proof (induction "size a + size b" arbitrary: a b rule: less_induct)
  case less
  show ?case
  proof (cases "value_type a = value_type b")
    case False
    then show ?thesis using less_val_types [of a b r] less_val_types [of b a r] equal_val_types [of a b r] by auto
  next
    case True
    then show ?thesis
    proof (cases rule: same_type_cases)
      case (2 i j)
      then show ?thesis by (auto simp: signed_word_eqI intro: signed_word_eqI)
    next
      case (4 x y)
      then show ?thesis using assms by (simp add: real_order_def)
    next
      case (7 xs ys)
      have "equal_val r x y \<longleftrightarrow> \<not> less_val r x y \<and> \<not> less_val r y x" if "x \<in> set xs" "y \<in> set ys" for x y
        using less [of x y] size_element [OF that(1)] size_element [OF that(2)] 7 by simp
      then have "list_all2 (equal_val r) xs ys \<longleftrightarrow> list_all2 (\<lambda>x y. \<not> less_val r x y \<and> \<not> less_val r y x) xs ys"
        by (intro list.rel_cong refl) blast
      then show ?thesis using 7 lex_incomparable [of xs ys "less_val r"] by (auto dest: list_all2_lengthD)
    next
      case (8 ms ns)
      have "equal_val r (snd p) (snd q) \<longleftrightarrow> \<not> less_val r (snd p) (snd q) \<and> \<not> less_val r (snd q) (snd p)" if "p \<in> set ms" "q \<in> set ns" for p q
        using less [of "snd p" "snd q"] size_member [OF that(1)] size_member [OF that(2)] 8 by simp
      then have "list_all2 (\<lambda>p q. fst p = fst q \<and> equal_val r (snd p) (snd q)) ms ns \<longleftrightarrow>
          list_all2 (\<lambda>p q. \<not> pair_less (less_val r) p q \<and> \<not> pair_less (less_val r) q p) ms ns"
        unfolding pair_incomparable by (intro list.rel_cong refl) blast
      then show ?thesis using 8 lex_incomparable [of ms ns "pair_less (less_val r)"] by (auto dest: list_all2_lengthD)
    qed (auto simp: not_less)
  qed
qed
text \<open>
  The order of JSON values is sound.  For numbers that are not NaN, \<^verbatim>\<open>operator<\<close> is a strict weak order
  on all values, nested ones included: it is irreflexive and transitive, as sorting and ordered
  containers need it; \<^verbatim>\<open>operator==\<close> holds exactly when neither value is less; and \<^verbatim>\<open>compare\<close> changes its sign
  with its arguments and is zero exactly for equal values.
\<close>

lemma value_order:
  assumes "real_order r"
  shows "\<not> less_val r a a \<and> (less_val r a b \<longrightarrow> less_val r b c \<longrightarrow> less_val r a c) \<and>
    (equal_val r a b \<longleftrightarrow> \<not> less_val r a b \<and> \<not> less_val r b a) \<and>
    compare_val r b a = - compare_val r a b \<and> (compare_val r a b = 0 \<longleftrightarrow> equal_val r a b)"
proof -
  note weak = less_val_order [OF assms]
  have asym: "less_val r x y \<Longrightarrow> \<not> less_val r y x" for x y using weak_asym [OF weak] by simp
  moreover have "less_val r a c" if "less_val r a b" "less_val r b c"
    using weak_negtrans [OF weak, of a c b] asym that by auto
  ultimately show ?thesis using equal_val_iff [OF assms, of a b] by (auto simp: compare_val_def)
qed

definition int_reals :: "int real_ops" where
  "int_reals = \<lparr>r_less = (<), r_le = (\<le>), r_equal = (=), r_of = (\<lambda>i. i), r_trunc = (\<lambda>i. i), r_integral = (\<lambda>_. True), r_truth = (\<lambda>i. i \<noteq> 0)\<rparr>"

lemma value_order_example:
  "compare_val int_reals (ObjectValue [(''a'', RealValue 3)]) (ObjectValue [(''a'', RealValue 2)]) = 1"
proof -
  let ?a = "ObjectValue [(''a'', RealValue 3)] :: int jvalue" and ?b = "ObjectValue [(''a'', RealValue 2)] :: int jvalue"
  have "real_order int_reals" by (auto simp: real_order_def int_reals_def weak_order_on_def)
  from value_order [OF this, of ?b ?a] show ?thesis
    by (simp add: compare_val_def pair_less_def int_reals_def)
qed

section \<open>Conversions\<close>

lemma unat_le_32: "(u :: u64) \<le> 4294967295 \<longleftrightarrow> unat u < 2 ^ 32"
  by (simp add: word_le_nat_alt less_Suc_eq_le [symmetric])

text \<open>
  \<^verbatim>\<open>isConvertibleTo\<close> tells the truth about the accessors: for every value, \<^verbatim>\<open>asInt\<close>, \<^verbatim>\<open>asUInt\<close>, \<^verbatim>\<open>asDouble\<close>,
  \<^verbatim>\<open>asBool\<close> and \<^verbatim>\<open>asString\<close> throw exactly when it denies the conversion to their type.
\<close>

lemma convertible_exact:
  "(isConvertibleTo ops r intValue v \<longleftrightarrow> \<not> isl (asInt r v)) \<and>
   (isConvertibleTo ops r uintValue v \<longleftrightarrow> \<not> isl (asUInt (asUInt_real r) v)) \<and>
   (isConvertibleTo ops r realValue v \<longleftrightarrow> \<not> isl (asDouble r v)) \<and>
   (isConvertibleTo ops r booleanValue v \<longleftrightarrow> \<not> isl (asBool (r_truth r) v)) \<and>
   (isConvertibleTo ops r stringValue v \<longleftrightarrow> \<not> isl (asString ops v))"
  by (cases v) (auto simp: isConvertibleTo_def asInt_def asUInt_def asUInt_real_def asDouble_def asBool_def asString_def isInt_def isUInt_def
      InRange_def isNumeric_def isDouble_def isBool_def isString_def isNull_def unat_le_32)

section \<open>Arrays\<close>

lemma shift_right_eq:
  "index \<le> i \<Longrightarrow> i < length xs \<Longrightarrow>
   shift_right index i xs = take index xs @ xs ! i # take (i - index) (drop index xs) @ drop (Suc i) xs"
proof (induction i arbitrary: xs)
  case 0
  then show ?case by (cases xs) simp_all
next
  case (Suc i)
  show ?case
  proof (cases "index = Suc i")
    case True
    then show ?thesis using Suc.prems by (simp add: id_take_nth_drop [symmetric])
  next
    case False
    let ?ys = "xs[Suc i := xs ! i, i := xs ! Suc i]"
    have "take (Suc i - index) (drop index xs) = take (i - index) (drop index xs) @ [xs ! i]"
      using False Suc.prems by (simp add: Suc_diff_le take_Suc_conv_app_nth)
    moreover have "drop (Suc i) ?ys = xs ! i # drop (Suc (Suc i)) xs" "?ys ! i = xs ! Suc i"
      using Suc.prems by (simp_all add: Cons_nth_drop_Suc [symmetric] drop_update_cancel)
    moreover have "take index ?ys = take index xs" "take (i - index) (drop index ?ys) = take (i - index) (drop index xs)"
      using False Suc.prems by (simp_all add: take_drop take_update_cancel)
    ultimately show ?thesis using Suc.IH [of ?ys] False Suc.prems by simp
  qed
qed

lemma shift_left_eq:
  "i < length xs \<Longrightarrow> butlast (shift_left i (length xs) xs) = take i xs @ drop (Suc i) xs"
proof (induction "length xs - i" arbitrary: i xs)
  case (Suc k)
  show ?case
  proof (cases "i < length xs - 1")
    case False
    then have "length xs = Suc i" using Suc.prems by simp
    then show ?thesis by (simp add: shift_left.simps [of i] butlast_conv_take)
  next
    case True
    let ?ys = "xs[i := xs ! Suc i]"
    have "butlast (shift_left (Suc i) (length ?ys) ?ys) = take (Suc i) ?ys @ drop (Suc (Suc i)) ?ys"
      using True Suc.hyps(2) by (intro Suc.hyps(1)) simp_all
    moreover have "take (Suc i) ?ys = take i xs @ [xs ! Suc i]" using True by (simp add: take_Suc_conv_app_nth)
    moreover have "drop (Suc i) xs = xs ! Suc i # drop (Suc (Suc i)) xs" using True by (simp add: Cons_nth_drop_Suc)
    ultimately show ?thesis using True by (simp add: shift_left.simps [of i])
  qed
qed simp

text \<open>
  Inserting into an array and removing from it are inverse.  \<^verbatim>\<open>insert\<close> at any index up to the size
  moves the elements behind it by one place and leaves the others; \<^verbatim>\<open>removeIndex\<close> there hands the new
  element back and restores the array.  Beyond the size nothing is inserted and nothing removed.
\<close>

lemma array_edits:
  "(if index \<le> length xs
    then insert_val index x (ArrayValue xs) = (Inr True, ArrayValue (take index xs @ x # drop index xs)) \<and>
      removeIndex index (snd (insert_val index x (ArrayValue xs))) = (Some x, ArrayValue xs)
    else insert_val index x (ArrayValue xs) = (Inr False, ArrayValue xs) \<and> removeIndex index (ArrayValue xs) = (None, ArrayValue xs))"
proof (cases "index \<le> length xs")
  case True
  have "insert_val index x (ArrayValue xs) = (Inr True, ArrayValue (take index xs @ x # drop index xs))"
    using True shift_right_eq [of index "length xs" "xs @ [NullValue]"] by (simp add: insert_val_def list_update_append)
  moreover have "removeIndex index (ArrayValue (take index xs @ x # drop index xs)) = (Some x, ArrayValue xs)"
    using True shift_left_eq [of index "take index xs @ x # drop index xs"] by (simp add: removeIndex_def nth_append)
  ultimately show ?thesis using True by simp
next
  case False
  then show ?thesis by (simp add: insert_val_def removeIndex_def)
qed

end
