(* ===== verification/Fast_Writer.thy ===== *)
theory Fast_Writer
  imports Json_Writer
begin

text \<open>
  The older \<^verbatim>\<open>FastWriter\<close> of \<^verbatim>\<open>common/jsoncpp/lib_json/json_writer.cpp\<close>, which collects its output in one string,
  and that it prints what the stream writer prints with the settings of the agent.
\<close>

record FastWriter =
  yamlCompatibilityEnabled :: bool
  fw_dropNullPlaceholders :: bool
  fw_omitEndingLineFeed :: bool
  document :: string

definition new_FastWriter :: FastWriter where
  "new_FastWriter = \<lparr>yamlCompatibilityEnabled = False, fw_dropNullPlaceholders = False, fw_omitEndingLineFeed = False, document = []\<rparr>"

definition enableYAMLCompatibility :: "FastWriter \<Rightarrow> FastWriter" where
  "enableYAMLCompatibility w = w\<lparr>yamlCompatibilityEnabled := True\<rparr>"

definition dropNullPlaceholders :: "FastWriter \<Rightarrow> FastWriter" where
  "dropNullPlaceholders w = w\<lparr>fw_dropNullPlaceholders := True\<rparr>"

definition omitEndingLineFeed :: "FastWriter \<Rightarrow> FastWriter" where
  "omitEndingLineFeed w = w\<lparr>fw_omitEndingLineFeed := True\<rparr>"

definition fw_put :: "string \<Rightarrow> FastWriter \<Rightarrow> FastWriter" where
  "fw_put s w = w\<lparr>document := document w @ s\<rparr>"

text \<open>\<^verbatim>\<open>writeValue\<close> with its loops over elements and over members; the first of them has no comma.\<close>

fun fast_writeValue :: "'d float_ops \<Rightarrow> 'd jvalue \<Rightarrow> FastWriter \<Rightarrow> FastWriter"
  and fast_elements :: "'d float_ops \<Rightarrow> bool \<Rightarrow> 'd jvalue list \<Rightarrow> FastWriter \<Rightarrow> FastWriter"
  and fast_members :: "'d float_ops \<Rightarrow> bool \<Rightarrow> (string \<times> 'd jvalue) list \<Rightarrow> FastWriter \<Rightarrow> FastWriter"
  where
  "fast_writeValue ops NullValue w = (if \<not> fw_dropNullPlaceholders w then fw_put ''null'' w else w)"
| "fast_writeValue ops (IntValue i) w = fw_put (valueToString_int i) w"
| "fast_writeValue ops (UIntValue u) w = fw_put (valueToString_uint u) w"
| "fast_writeValue ops (RealValue x) w = fw_put (valueToString_double ops False 17 False x) w"
| "fast_writeValue ops (StringValue str) w = fw_put (valueToQuotedStringN False str) w"
| "fast_writeValue ops (BooleanValue b) w = fw_put (valueToString_bool b) w"
| "fast_writeValue ops (ArrayValue xs) w = fw_put '']'' (fast_elements ops True xs (fw_put ''['' w))"
| "fast_writeValue ops (ObjectValue ms) w = fw_put ''}'' (fast_members ops True ms (fw_put ''{'' w))"
| "fast_elements ops first [] w = w"
| "fast_elements ops first (x # xs) w =
     fast_elements ops False xs (fast_writeValue ops x (if first then w else fw_put '','' w))"
| "fast_members ops first [] w = w"
| "fast_members ops first ((name, x) # ms) w =
     (let w = fw_put (valueToQuotedStringN False name) (if first then w else fw_put '','' w);
          w = fw_put (if yamlCompatibilityEnabled w then '': '' else '':'') w
      in fast_members ops False ms (fast_writeValue ops x w))"

definition FastWriter_write :: "'d float_ops \<Rightarrow> 'd jvalue \<Rightarrow> FastWriter \<Rightarrow> string" where
  "FastWriter_write ops root w =
     (let w = fast_writeValue ops root (w\<lparr>document := []\<rparr>);
          w = (if \<not> fw_omitEndingLineFeed w then fw_put [CHR 0x0A] w else w)
      in document w)"

lemma fw_put_fw_put [simp]: "fw_put t (fw_put s w) = fw_put (s @ t) w"
  by (simp add: fw_put_def)

lemma fw_put_flags [simp]:
  "yamlCompatibilityEnabled (fw_put s w) = yamlCompatibilityEnabled w" "fw_dropNullPlaceholders (fw_put s w) = fw_dropNullPlaceholders w"
  "fw_omitEndingLineFeed (fw_put s w) = fw_omitEndingLineFeed w" "document (fw_put s w) = document w @ s"
  by (simp_all add: fw_put_def)

lemma join_first: "join sep (x # xs) = x @ concat (map (\<lambda>y. sep @ y) xs)"
  by (induction xs arbitrary: x) simp_all

lemma fast_compact:
  fixes v :: "'d jvalue"
  shows "\<not> yamlCompatibilityEnabled w \<Longrightarrow> \<not> fw_dropNullPlaceholders w \<Longrightarrow> fast_writeValue ops v w = fw_put (compact ops v) w"
    and "\<not> yamlCompatibilityEnabled w \<Longrightarrow> \<not> fw_dropNullPlaceholders w \<Longrightarrow>
      fast_elements ops first xs w = fw_put (if first then join '','' (map (compact ops) xs) else concat (map (\<lambda>x. '','' @ compact ops x) xs)) w"
    and "\<not> yamlCompatibilityEnabled w \<Longrightarrow> \<not> fw_dropNullPlaceholders w \<Longrightarrow>
      fast_members ops first ms w =
        fw_put (if first then join '','' (map (\<lambda>(k, x). valueToQuotedStringN False k @ '':'' @ compact ops x) ms)
                 else concat (map (\<lambda>(k, x). '','' @ valueToQuotedStringN False k @ '':'' @ compact ops x) ms)) w"
  by (induction ops v w and ops first xs w and ops first ms w rule: fast_writeValue_fast_elements_fast_members.induct)
    (auto simp: join_first comp_def Let_def case_prod_unfold fw_put_def)

text \<open>
  The two writers agree.  Without options \<^verbatim>\<open>FastWriter\<close> prints for every value the text that the agent's
  \<^verbatim>\<open>NodeTreeWriter\<close> prints, and a line feed, which \<^verbatim>\<open>omitEndingLineFeed\<close> drops.
\<close>

lemma fast_writer_agrees:
  "NodeTreeWriter_write ops rb ru v = Inr (FastWriter_write ops v (omitEndingLineFeed new_FastWriter)) \<and>
   FastWriter_write ops v new_FastWriter = FastWriter_write ops v (omitEndingLineFeed new_FastWriter) @ [CHR 0x0A]"
  by (simp add: NodeTreeWriter_write_compact FastWriter_write_def fast_compact(1) new_FastWriter_def omitEndingLineFeed_def Let_def)

end
