(* ===== verification/Python_Api.thy ===== *)
theory Python_Api
  imports Agent_Safety
begin

text \<open>
  The Python module (\<^verbatim>\<open>src/PY/_pinpoint_py.cpp\<close>): the functions of the C interface with Python arguments and
  results.  Most of them may leave out the node and then mean the current node of the calling thread,
  which starting and ending a trace without a node move down and up.

  What \<^verbatim>\<open>PyArg_ParseTuple\<close> makes of the arguments is an argument here: \<open>None\<close> when they do not fit the format, an
  optional one that is missing leaves its variable as it was initialised.  A result of \<open>None\<close> is \<^verbatim>\<open>NULL\<close>, which
  raises the error the parser has set.
\<close>

section \<open>Results\<close>

datatype pyobject = PyTrue | PyFalse | PyInt int | PyStr string

type_synonym 'd pyfun = "'d world \<Rightarrow> (pyobject option \<times> 'd world) option"

definition answer :: "('r \<Rightarrow> pyobject) \<Rightarrow> ('r \<times> 'd world) option \<Rightarrow> (pyobject option \<times> 'd world) option" where
  "answer f r = map_option (\<lambda>(x, w). (Some (f x), w)) r"

text \<open>The node meant by an optional argument that is -1 by default.\<close>

definition node_meant :: "int option \<Rightarrow> 'd world \<Rightarrow> node_id" where
  "node_meant nid w =
     (let nid = (case nid of None \<Rightarrow> - 1 | Some n \<Rightarrow> n) in if nid = - 1 then pinpoint_get_per_thread_id w else nid)"

definition or_else :: "'a \<Rightarrow> 'a option \<Rightarrow> 'a" where
  "or_else dflt x = (case x of None \<Rightarrow> dflt | Some y \<Rightarrow> y)"

section \<open>Recording\<close>

definition py_pinpoint_add_clues :: "(string \<times> string \<times> int option \<times> int option) option \<Rightarrow> 'd pyfun" where
  "py_pinpoint_add_clues args w =
     (case args of
        None \<Rightarrow> Some (None, w)
      | Some (key, val, nid, loc) \<Rightarrow> answer (\<lambda>_. PyTrue) (pinpoint_add_clues (node_meant nid w) key val (or_else 0 loc) w))"

definition py_pinpoint_add_clue :: "(string \<times> string \<times> int option \<times> int option) option \<Rightarrow> 'd pyfun" where
  "py_pinpoint_add_clue args w =
     (case args of
        None \<Rightarrow> Some (None, w)
      | Some (key, val, nid, loc) \<Rightarrow> answer (\<lambda>_. PyTrue) (pinpoint_add_clue (node_meant nid w) key val (or_else 0 loc) w))"

definition py_pinpoint_context_key :: "(string \<times> string \<times> int option) option \<Rightarrow> 'd pyfun" where
  "py_pinpoint_context_key args w =
     (case args of
        None \<Rightarrow> Some (None, w)
      | Some (key, val, nid) \<Rightarrow> answer (\<lambda>_. PyTrue) (pinpoint_set_context_key (node_meant nid w) key val w))"

definition py_pinpoint_get_key :: "(string \<times> int option) option \<Rightarrow> 'd pyfun" where
  "py_pinpoint_get_key args w =
     (case args of
        None \<Rightarrow> Some (None, w)
      | Some (key, nid) \<Rightarrow>
          answer (\<lambda>(n, buf). if 0 < n then PyStr (or_else [] buf) else PyFalse)
            (pinpoint_get_context_key (node_meant nid w) key True 1024 w))"

definition py_pinpoint_get_sequence_id :: "int option option \<Rightarrow> 'd pyfun" where
  "py_pinpoint_get_sequence_id args w =
     (case args of None \<Rightarrow> Some (None, w) | Some nid \<Rightarrow> answer PyInt (pinpoint_get_sequence_id (node_meant nid w) w))"

definition py_pinpoint_set_async_ctx :: "(int \<times> int \<times> int) option \<Rightarrow> 'd pyfun" where
  "py_pinpoint_set_async_ctx args w =
     (case args of
        None \<Rightarrow> Some (None, w)
      | Some (nid, async_id, node_sequence) \<Rightarrow> answer (\<lambda>_. PyTrue) (pinpoint_set_async_ctx nid async_id node_sequence w))"

definition py_pinpoint_mark_an_error :: "(string \<times> string \<times> int \<times> int option) option \<Rightarrow> 'd pyfun" where
  "py_pinpoint_mark_an_error args w =
     (case args of
        None \<Rightarrow> Some (None, w)
      | Some (msg, file_name, line_no, nid) \<Rightarrow>
          answer (\<lambda>_. PyTrue) (catch_error (node_meant nid w) msg file_name (word_of_int line_no) w))"

definition py_pinpoint_add_exception :: "u64 \<Rightarrow> (string \<times> int option) option \<Rightarrow> 'd pyfun" where
  "py_pinpoint_add_exception now args w =
     (case args of
        None \<Rightarrow> Some (None, w)
      | Some (msg, nid) \<Rightarrow> answer (\<lambda>_. PyTrue) (pinpoint_add_exception now (node_meant nid w) msg w))"

definition py_pinpoint_drop_trace :: "int option option \<Rightarrow> 'd pyfun" where
  "py_pinpoint_drop_trace args w =
     (case args of
        None \<Rightarrow> Some (None, w)
      | Some nid \<Rightarrow> answer (\<lambda>_. PyTrue) (mark_current_trace_status (node_meant nid w) E_TRACE_BLOCK w))"

section \<open>The state of the process\<close>

definition py_check_trace_limit :: "i64 \<Rightarrow> int option option \<Rightarrow> 'd pyfun" where
  "py_check_trace_limit clock args w =
     (case args of
        None \<Rightarrow> Some (None, w)
      | Some timestamp \<Rightarrow>
          answer (\<lambda>r. if r \<noteq> 0 then PyTrue else PyFalse) (check_trace_limit clock (word_of_int (or_else (- 1) timestamp)) w))"

definition py_generate_unique_id :: "'d pyfun" where
  "py_generate_unique_id w = answer (\<lambda>r. PyInt (sint r)) (generate_unique_id w)"

definition py_pinpoint_start_time :: "u64 \<Rightarrow> 'd pyfun" where
  "py_pinpoint_start_time get_unix_time_ms w = Some (Some (PyInt (uint (pinpoint_start_time get_unix_time_ms w))), w)"

text \<open>An exception of \<^verbatim>\<open>pinpoint_set_agent\<close> is not caught on the way to the interpreter.\<close>

definition py_set_agent :: "u64 \<Rightarrow> (string \<times> int option \<times> int option) option \<Rightarrow> ('d world, pyobject option) proc" where
  "py_set_agent now args w =
     (case args of
        None \<Rightarrow> (Inr None, w)
      | Some (collector_host, trace_limit, timeout_ms) \<Rightarrow>
          (case pinpoint_set_agent now collector_host (or_else 0 timeout_ms) (word_of_int (or_else (- 1) trace_limit)) 1700 w of
             (Inl e, w) \<Rightarrow> (Inl e, w)
           | (Inr _, w) \<Rightarrow> (Inr (Some PyTrue), w)))"

section \<open>Traces\<close>

definition start_thread_local_trace :: "u64 \<Rightarrow> 'd world \<Rightarrow> (node_id \<times> 'd world) option" where
  "start_thread_local_trace now w =
     map_option (\<lambda>(nid, w). (nid, pinpoint_update_per_thread_id nid w)) (pinpoint_start_trace now (pinpoint_get_per_thread_id w) w)"

definition py_pinpoint_start_trace :: "u64 \<Rightarrow> int option option \<Rightarrow> 'd pyfun" where
  "py_pinpoint_start_trace now args w =
     (case args of
        None \<Rightarrow> Some (None, w)
      | Some nid \<Rightarrow>
          if or_else (- 1) nid = - 1 then answer PyInt (start_thread_local_trace now w)
          else answer PyInt (pinpoint_start_trace now (or_else (- 1) nid) w))"

definition end_thread_local_trace :: "'d platform \<Rightarrow> u64 \<Rightarrow> (nat \<Rightarrow> u64) \<Rightarrow> 'd world \<Rightarrow> (node_id \<times> 'd world) option" where
  "end_thread_local_trace pf now clk w =
     map_option (\<lambda>(parent_id, w). (parent_id, pinpoint_update_per_thread_id parent_id w))
       (pinpoint_end_trace pf now clk (pinpoint_get_per_thread_id w) w)"

definition py_pinpoint_end_trace :: "'d platform \<Rightarrow> u64 \<Rightarrow> (nat \<Rightarrow> u64) \<Rightarrow> int option option \<Rightarrow> 'd pyfun" where
  "py_pinpoint_end_trace pf now clk args w =
     (case args of
        None \<Rightarrow> Some (None, w)
      | Some nid \<Rightarrow>
          if or_else (- 1) nid = - 1 then answer PyInt (end_thread_local_trace pf now clk w)
          else answer PyInt (pinpoint_end_trace pf now clk (or_else (- 1) nid) w))"

definition py_force_flush_span :: "'d platform \<Rightarrow> (nat \<Rightarrow> nat \<Rightarrow> u64) \<Rightarrow> (int option \<times> int option) option \<Rightarrow> 'd pyfun" where
  "py_force_flush_span pf clks args w =
     (case args of
        None \<Rightarrow> Some (None, w)
      | Some (timeout, nid) \<Rightarrow>
          (case pinpoint_force_end_trace pf clks (node_meant nid w) (or_else 3 timeout) w of
             None \<Rightarrow> None
           | Some (r, w) \<Rightarrow>
               if r \<noteq> E_ROOT_NODE then Some (Some PyFalse, w)
               else
                 let current_id = pinpoint_get_per_thread_id w in
                 if current_id \<noteq> E_ROOT_NODE then
                   (case pinpoint_trace_is_root current_id w of
                      None \<Rightarrow> None
                    | Some (b, w) \<Rightarrow> Some (Some PyTrue, if b = - 1 then pinpoint_update_per_thread_id E_ROOT_NODE w else w))
                 else Some (Some PyTrue, w)))"

definition py_is_root_trace :: "int option option \<Rightarrow> 'd pyfun" where
  "py_is_root_trace args w =
     (case args of
        None \<Rightarrow> Some (None, w)
      | Some nid \<Rightarrow> answer (\<lambda>r. if r = 1 then PyTrue else PyFalse) (pinpoint_trace_is_root (node_meant nid w) w))"

definition py_trace_has_root :: "int option option \<Rightarrow> 'd pyfun" where
  "py_trace_has_root args w =
     (case args of
        None \<Rightarrow> Some (None, w)
      | Some nid \<Rightarrow> answer (\<lambda>r. if r \<noteq> - 1 then PyTrue else PyFalse) (pinpoint_trace_is_root (node_meant nid w) w))"

section \<open>Programs\<close>

datatype py_call =
    PyAddClues "(string \<times> string \<times> int option \<times> int option) option"
  | PyAddClue "(string \<times> string \<times> int option \<times> int option) option"
  | PyContextKey "(string \<times> string \<times> int option) option"
  | PyGetKey "(string \<times> int option) option"
  | PySequence "int option option"
  | PyAsync "(int \<times> int \<times> int) option"
  | PyError "(string \<times> string \<times> int \<times> int option) option"
  | PyException u64 "(string \<times> int option) option"
  | PyDrop "int option option"
  | PyLimit i64 "int option option"
  | PyUnique
  | PySetAgent u64 "(string \<times> int option \<times> int option) option"
  | PyStart u64 "int option option"
  | PyEnd u64 "nat \<Rightarrow> u64" "int option option"
  | PyFlush "nat \<Rightarrow> nat \<Rightarrow> u64" "(int option \<times> int option) option"
  | PyIsRoot "int option option"
  | PyHasRoot "int option option"

primrec py :: "'d platform \<Rightarrow> py_call \<Rightarrow> 'd world \<Rightarrow> 'd world option" where
  "py pf (PyAddClues args) w = effect (py_pinpoint_add_clues args w)"
| "py pf (PyAddClue args) w = effect (py_pinpoint_add_clue args w)"
| "py pf (PyContextKey args) w = effect (py_pinpoint_context_key args w)"
| "py pf (PyGetKey args) w = effect (py_pinpoint_get_key args w)"
| "py pf (PySequence args) w = effect (py_pinpoint_get_sequence_id args w)"
| "py pf (PyAsync args) w = effect (py_pinpoint_set_async_ctx args w)"
| "py pf (PyError args) w = effect (py_pinpoint_mark_an_error args w)"
| "py pf (PyException now args) w = effect (py_pinpoint_add_exception now args w)"
| "py pf (PyDrop args) w = effect (py_pinpoint_drop_trace args w)"
| "py pf (PyLimit clock args) w = effect (py_check_trace_limit clock args w)"
| "py pf PyUnique w = effect (py_generate_unique_id w)"
| "py pf (PySetAgent now args) w = Some (snd (py_set_agent now args w))"
| "py pf (PyStart now args) w = effect (py_pinpoint_start_trace now args w)"
| "py pf (PyEnd now clk args) w = effect (py_pinpoint_end_trace pf now clk args w)"
| "py pf (PyFlush clks args) w = effect (py_force_flush_span pf clks args w)"
| "py pf (PyIsRoot args) w = effect (py_is_root_trace args w)"
| "py pf (PyHasRoot args) w = effect (py_trace_has_root args w)"

primrec py_run :: "'d platform \<Rightarrow> py_call list \<Rightarrow> 'd world \<Rightarrow> 'd world option" where
  "py_run pf [] w = Some w"
| "py_run pf (c # calls) w = (case py pf c w of None \<Rightarrow> None | Some w' \<Rightarrow> py_run pf calls w')"

section \<open>Safety\<close>

lemma effect_answer [simp]: "effect (answer f r) = effect r"
  by (cases r) (auto simp: effect_def answer_def)

lemma effect_Some [simp]: "effect (Some (x, w)) = Some w"
  by (simp add: effect_def)

lemma effect_update: "effect (map_option (\<lambda>(x, w). (x, pinpoint_update_per_thread_id x w)) r) = Some w' \<longleftrightarrow>
    (\<exists>x w1. r = Some (x, w1) \<and> w' = pinpoint_update_per_thread_id x w1)"
  by (cases r) (auto simp: effect_def)

lemma effect_SomeD: "effect r = Some w' \<Longrightarrow> \<exists>x. r = Some (x, w')"
  by (cases r) (auto simp: effect_def)

lemma update_inv [simp]: "api_inv (pinpoint_update_per_thread_id nid w) = api_inv w"
  by (simp add: pinpoint_update_per_thread_id_def api_inv_def net_inv_def)

lemma trace_is_root_inv: "api_inv w \<Longrightarrow> \<exists>x w'. pinpoint_trace_is_root nid w = Some (x, w') \<and> api_inv w'"
  using api_keeps [of w undefined "AskRoot nid"] effect_SomeD by fastforce

lemma py_force_flush_inv:
  assumes "api_inv w"
  shows "\<exists>w'. effect (py_force_flush_span pf clks args w) = Some w' \<and> api_inv w'"
proof (cases args)
  case (Some a)
  obtain timeout nid where a: "a = (timeout, nid)" by fastforce
  obtain r w1 where f: "pinpoint_force_end_trace pf clks (node_meant nid w) (or_else 3 timeout) w = Some (r, w1)" "api_inv w1"
    using force_end_inv [OF assms] effect_SomeD by metis
  obtain x w2 where "pinpoint_trace_is_root (w_current_id w1) w1 = Some (x, w2)" "api_inv w2"
    using trace_is_root_inv [OF f(2)] by metis
  then show ?thesis using Some a f by (simp add: py_force_flush_span_def pinpoint_get_per_thread_id_def Let_def)
qed (use assms in \<open>simp add: py_force_flush_span_def\<close>)

lemma start_local_inv:
  assumes "api_inv w"
  shows "\<exists>w'. effect (py_pinpoint_start_trace now args w) = Some w' \<and> api_inv w'"
proof -
  have "\<exists>x w'. pinpoint_start_trace now nid w = Some (x, w') \<and> api_inv w'" for nid
    using api_keeps [OF assms, of undefined "Start now nid []"] effect_SomeD by (fastforce simp: pinpoint_start_trace_def)
  then show ?thesis
    using assms by (cases args) (auto simp: py_pinpoint_start_trace_def start_thread_local_trace_def effect_update dest: effect_SomeD;
      metis effect_Some effect_update update_inv)+
qed

lemma end_local_inv:
  assumes "api_inv w"
  shows "\<exists>w'. effect (py_pinpoint_end_trace pf now clk args w) = Some w' \<and> api_inv w'"
proof -
  have "\<exists>x w'. pinpoint_end_trace pf now clk nid w = Some (x, w') \<and> api_inv w'" for nid
    using api_keeps [OF assms, of pf "End now clk nid"] effect_SomeD by fastforce
  then show ?thesis
    using assms by (cases args) (auto simp: py_pinpoint_end_trace_def end_thread_local_trace_def effect_update dest: effect_SomeD;
      metis effect_Some effect_update update_inv)+
qed

lemma py_set_agent_world:
  "snd (py_set_agent now args w) =
     (case args of
        None \<Rightarrow> w
      | Some (host, limit, timeout) \<Rightarrow> snd (pinpoint_set_agent now host (or_else 0 timeout) (word_of_int (or_else (- 1) limit)) 1700 w))"
  by (simp add: py_set_agent_def split: option.splits prod.splits sum.splits)

lemma py_keeps:
  assumes inv: "api_inv w"
  shows "\<exists>w'. py pf c w = Some w' \<and> api_inv w'"
proof (cases c)
  case (PyAddClues args)
  then show ?thesis using inv api_keeps [OF inv, of pf "AddClues _ _ _ _"] by (cases args) (auto simp: py_pinpoint_add_clues_def)
next
  case (PyAddClue args)
  then show ?thesis using inv api_keeps [OF inv, of pf "AddClue _ _ _ _"] by (cases args) (auto simp: py_pinpoint_add_clue_def)
next
  case (PyContextKey args)
  then show ?thesis using inv api_keeps [OF inv, of pf "SetContext _ _ _"] by (cases args) (auto simp: py_pinpoint_context_key_def)
next
  case (PyGetKey args)
  then show ?thesis using inv api_keeps [OF inv, of pf "GetContext _ _ _ _"] by (cases args) (auto simp: py_pinpoint_get_key_def)
next
  case (PySequence args)
  then show ?thesis using inv api_keeps [OF inv, of pf "AskSequence _"] by (cases args) (auto simp: py_pinpoint_get_sequence_id_def)
next
  case (PyAsync args)
  then show ?thesis using inv api_keeps [OF inv, of pf "SetAsync _ _ _"] by (cases args) (auto simp: py_pinpoint_set_async_ctx_def)
next
  case (PyError args)
  then show ?thesis using inv api_keeps [OF inv, of pf "CatchError _ _ _ _"] by (cases args) (auto simp: py_pinpoint_mark_an_error_def)
next
  case (PyException now args)
  then show ?thesis using inv api_keeps [OF inv, of pf "AddException _ _ _"] by (cases args) (auto simp: py_pinpoint_add_exception_def)
next
  case (PyDrop args)
  then show ?thesis using inv api_keeps [OF inv, of pf "ChangeStatus _ _"]
    by (cases args) (auto simp: py_pinpoint_drop_trace_def mark_current_trace_status_def)
next
  case (PyLimit clock args)
  then show ?thesis using inv api_keeps [OF inv, of pf "CheckLimit _ _"] by (cases args) (auto simp: py_check_trace_limit_def)
next
  case PyUnique
  then show ?thesis using api_keeps [OF inv, of pf UniqueId] by (simp add: py_generate_unique_id_def)
next
  case (PySetAgent now args)
  then show ?thesis using inv api_keeps [OF inv, of pf "SetAgent now _ _ _ 1700"] by (cases args) (auto simp: py_set_agent_world)
next
  case (PyIsRoot args)
  then show ?thesis using inv api_keeps [OF inv, of pf "AskRoot _"] by (cases args) (auto simp: py_is_root_trace_def)
next
  case (PyHasRoot args)
  then show ?thesis using inv api_keeps [OF inv, of pf "AskRoot _"] by (cases args) (auto simp: py_trace_has_root_def)
qed (use start_local_inv end_local_inv py_force_flush_inv inv in simp_all)

text \<open>
  C32: Python programs are safe.  Whatever functions of the module a program calls, in any order and with any
  arguments, wrong ones included, every call returns, and the nodes and connections of the agent stay in
  order; this includes the moving of the thread's current node.
\<close>

theorem python_safe: "\<exists>w. py_run pf calls (start_world k) = Some w \<and> api_inv w"
proof -
  have "\<exists>w'. py_run pf calls w = Some w' \<and> api_inv w'" if "api_inv w" for w :: "'a world"
    using that
  proof (induction calls arbitrary: w)
    case (Cons c calls)
    obtain w1 where "py pf c w = Some w1" "api_inv w1" using py_keeps [OF Cons.prems] by blast
    then show ?case using Cons.IH by simp
  qed simp
  then show ?thesis using start_world_inv by blast
qed

section \<open>The current node of a thread\<close>

lemma start_invalid: "pinpoint_start_trace now (- 1) w = Some (- 1, w)"
  by (simp add: pinpoint_start_trace_def pinpoint_start_traceV1_def guarded_def onPool_def StartTrace_def throwP_def split: option.splits)

lemma not_alive_invalid: "\<not> alive p (- 1)"
  using alive_pos [of "- 1" p] by auto

lemma EndTrace_invalid: "EndTrace pf now clk ag (- 1) timeout w = Some (Inl Out_of_range, w)"
  by (rule EndTrace_dead) (rule not_alive_invalid)

lemma end_invalid: "pinpoint_end_trace pf now clk (- 1) w = Some (- 1, w)"
  by (simp add: pinpoint_end_trace_def guarded_def EndTrace_invalid split: option.splits)

lemma force_end_invalid: "pinpoint_force_end_trace pf clks (- 1) timeout w = Some (- 1, w)"
  by (simp add: pinpoint_force_end_trace_def guarded_def bindO_def force_loop.simps [of pf clks 0] EndTrace_invalid
      split: option.splits)

lemma set_agent_pool: "w_pool (snd (pinpoint_set_agent now host timeout limit ty w)) = w_pool w"
  "w_current_id (snd (pinpoint_set_agent now host timeout limit ty w)) = w_current_id w"
  by (simp_all add: pinpoint_set_agent_def split: option.splits sum.splits)

text \<open>Calls that trace in the calling thread, without naming a node, and the setting up of the agent.\<close>

fun thread_local :: "py_call \<Rightarrow> bool" where
  "thread_local (PyStart now args) = (\<forall>nid. args = Some nid \<longrightarrow> or_else (- 1) nid = - 1)"
| "thread_local (PyEnd now clk args) = (\<forall>nid. args = Some nid \<longrightarrow> or_else (- 1) nid = - 1)"
| "thread_local (PyFlush clks args) = (\<forall>timeout nid. args = Some (timeout, nid) \<longrightarrow> or_else (- 1) nid = - 1)"
| "thread_local (PySetAgent now args) = True"
| "thread_local _ = False"

lemma stuck_step:
  assumes "thread_local c" and "w_current_id w = - 1"
  shows "\<exists>w'. py pf c w = Some w' \<and> w_current_id w' = - 1 \<and> w_pool w' = w_pool w"
  using assms
  by (cases c rule: thread_local.cases)
    (auto simp: py_pinpoint_start_trace_def start_thread_local_trace_def py_pinpoint_end_trace_def end_thread_local_trace_def
      py_force_flush_span_def node_meant_def or_else_def pinpoint_get_per_thread_id_def start_invalid end_invalid force_end_invalid
      pinpoint_update_per_thread_id_def py_set_agent_world set_agent_pool split: option.splits prod.splits)

lemma stuck_run:
  assumes "list_all thread_local calls" and "w_current_id w = - 1"
  shows "\<exists>w'. py_run pf calls w = Some w' \<and> w_current_id w' = - 1 \<and> w_pool w' = w_pool w"
  using assms
proof (induction calls arbitrary: w)
  case (Cons c calls)
  obtain w1 where "py pf c w = Some w1" "w_current_id w1 = - 1" "w_pool w1 = w_pool w" using stuck_step [of c w pf] Cons.prems by auto
  then show ?case using Cons.IH [of w1] Cons.prems(1) by simp
qed simp

text \<open>
  C34: A thread can lose tracing for good.  When a thread starts its first trace before the agent is set
  up, the start fails, and the failure, -1, becomes the current node of the thread.  From then on every start, end and flush
  that leaves out the node fails, whether the agent is set up in between or not, and no trace is started.
\<close>

theorem python_thread_stuck:
  assumes "list_all thread_local calls"
  shows "\<exists>w. py_run pf (PyStart now (Some None) # calls) (start_world k) = Some w \<and> w_current_id w = - 1 \<and> traces (w_pool w) = {}"
proof -
  have "py pf (PyStart now (Some None)) (start_world k) = Some ((start_world k)\<lparr>w_current_id := - 1\<rparr>)"
    by (simp add: py_pinpoint_start_trace_def or_else_def start_thread_local_trace_def pinpoint_start_trace_def pinpoint_start_traceV1_def
        guarded_def start_world_def pinpoint_update_per_thread_id_def)
  then show ?thesis
    using stuck_run [OF assms, of "(start_world k)\<lparr>w_current_id := - 1\<rparr>" pf] by (auto simp: start_world_def traces_PoolManager)
qed

theorem python_thread_stuck_witness:
  "\<exists>w. py_run (undefined :: unit platform) [PyStart 10 (Some None), PySetAgent 11 (Some (''tcp:h:1'', None, None)), PyStart 12 (Some None)]
      (start_world quiet_kernel) = Some w \<and> w_current_id w = - 1 \<and> traces (w_pool w) = {}"
  by (rule python_thread_stuck) (simp add: or_else_def)

lemma start_local_event:
  assumes inv: "api_inv w" and t: "trace_of (w_pool w) r es" and par: "w_current_id w \<in> set (r # es)"
    and run: "start_thread_local_trace now w = Some (n, w1)" and ok: "n \<noteq> - 1"
  shows "w_current_id w1 = n \<and> trace_of (w_pool w1) r (es @ [n]) \<and> tn_parent_id (nd (w_pool w1) n) = w_current_id w \<and>
    api_inv w1 \<and> w_agent w1 \<noteq> None"
proof -
  obtain ag where ag: "w_agent w = Some ag"
    using run ok by (cases "w_agent w") (auto simp: start_thread_local_trace_def pinpoint_start_trace_def pinpoint_start_traceV1_def guarded_def)
  obtain res p' where s: "StartTrace (agent_type ag) now (w_current_id w) [] (w_pool w) = (res, p')" by fastforce
  then have e: "res = Inr n" "w1 = w\<lparr>w_pool := p', w_current_id := n\<rparr>"
    using run ok ag by (auto simp: start_thread_local_trace_def pinpoint_start_trace_def pinpoint_start_traceV1_def guarded_def onPool_def
        pinpoint_get_per_thread_id_def pinpoint_update_per_thread_id_def split: sum.splits)
  have "pool_inv (w_pool w)" using inv by (simp add: api_inv_def)
  from start_event_spec [OF this t par s] e(1)
  have "trace_of p' r (es @ [n])" "tn_parent_id (nd p' n) = w_current_id w" by auto
  moreover have "api_inv w1" using start_local_inv [OF inv, of now "Some None"] run
    by (simp add: py_pinpoint_start_trace_def or_else_def)
  ultimately show ?thesis using e ag by simp
qed

text \<open>
  C33: Starting and ending an event leave the thread where it was.  When the current node is in a trace and a start without
  a node succeeds, the new node is the current one and the last event of that trace, and the end that
  follows makes its parent, the node before the start, current again, the event staying in the trace.
\<close>

theorem python_event_returns:
  assumes inv: "api_inv w" and t: "(r, es) \<in> traces (w_pool w)" and par: "w_current_id w \<in> set (r # es)"
    and run: "start_thread_local_trace now w = Some (n, w1)" and ok: "n \<noteq> - 1"
  shows "w_current_id w1 = n \<and> (\<exists>w2. end_thread_local_trace pf now' clk w1 = Some (w_current_id w, w2) \<and>
    w_current_id w2 = w_current_id w \<and> traces (w_pool w2) = traces (w_pool w1) \<and> (r, es @ [n]) \<in> traces (w_pool w2) \<and> api_inv w2)"
proof -
  have "trace_of (w_pool w) r es" using t by (simp add: traces_def)
  note s = start_local_event [OF inv this par run ok]
  then obtain ag where ag: "w_agent w1 = Some ag" by auto
  obtain w2 where w2: "EndTrace pf now' clk ag n 0 w1 = Some (Inr (w_current_id w), w2)" "still w1 w2"
    using EndTrace_event [of w1 r "es @ [n]" n pf now' clk ag 0] s by (auto simp: api_inv_def)
  have "end_thread_local_trace pf now' clk w1 = Some (w_current_id w, w2\<lparr>w_current_id := w_current_id w\<rparr>)"
    using s ag w2(1) by (simp add: end_thread_local_trace_def pinpoint_end_trace_def guarded_def pinpoint_get_per_thread_id_def
        pinpoint_update_per_thread_id_def)
  moreover have "api_inv (w2\<lparr>w_current_id := w_current_id w\<rparr>)"
    using still_inv [OF w2(2)] s update_inv [of "w_current_id w" w2] by (simp add: pinpoint_update_per_thread_id_def)
  moreover have "(r, es @ [n]) \<in> traces (w_pool w1)" using s by (simp add: traces_def)
  ultimately show ?thesis using still_inv [OF w2(2)] s by simp
qed

theorem python_event_returns_witness:
  "\<exists>n w1 w2. start_thread_local_trace 40 (sample_world\<lparr>w_current_id := 127\<rparr>) = Some (n, w1) \<and> n = 126 \<and>
     end_thread_local_trace (undefined :: unit platform) 50 (\<lambda>_. 50) w1 = Some (127, w2) \<and> (128, [127, 126]) \<in> traces (w_pool w2)"
proof -
  let ?w = "sample_world\<lparr>w_current_id := 127\<rparr>"
  have i: "api_inv ?w" using update_inv [of 127 sample_world] sample_world_inv(1) by (simp add: pinpoint_update_per_thread_id_def)
  have "fst (StartTrace 1300 40 127 [] sample_pool) = Inr 126" unfolding sample_pool_def by code_simp
  then obtain w1 where r: "start_thread_local_trace 40 ?w = Some (126, w1)"
    by (cases "StartTrace 1300 40 127 [] sample_pool")
      (auto simp: start_thread_local_trace_def pinpoint_start_trace_def pinpoint_start_traceV1_def guarded_def onPool_def
        pinpoint_get_per_thread_id_def sample_world_def sample_agent_def)
  have "(128, [127]) \<in> traces (w_pool ?w)" using sample_trace by (simp add: traces_def sample_world_def)
  from python_event_returns [OF i this _ r, of "undefined :: unit platform" 50 "\<lambda>_. 50"] r show ?thesis by auto
qed

end
