(* ===== verification/Python_Plugin.thy ===== *)
theory Python_Plugin
  imports Python_Api
begin

text \<open>
  The Python side of the agent, \<^verbatim>\<open>plugins/PY/pinpointPy\<close>: the wrappers of the native module (\<^verbatim>\<open>pinpoint.py\<close>), the
  node a thread is at (\<^verbatim>\<open>TraceContext.py\<close>), the decorators that trace a function (\<^verbatim>\<open>Common.py\<close>,
  \<^verbatim>\<open>CommonPlugin.py\<close>), and what connects the traces of two processes: the headers of an outgoing request
  (\<^verbatim>\<open>Helper.py\<close>, \<^verbatim>\<open>libs/_requests\<close>) and the reading of those of an incoming one (\<^verbatim>\<open>Helper.py\<close>, \<^verbatim>\<open>WSGIPlugin.py\<close>).

  Text is the UTF-8 encoding of a Python string.  The random numbers and the clock readings of an operation, each of which it
  takes at most once, are a \<open>moment\<close>, and the text of an exception is an argument.
\<close>

section \<open>The interpreter\<close>

datatype py_exn = KeyError string | TypeError | ValueError | Raised nat

record 'd interp =
  i_world :: "'d world"
  i_app_id :: string
  i_app_name :: string
  i_local :: int

record moment =
  m_now :: u64
  m_clk :: "nat \<Rightarrow> u64"
  m_secs :: i64
  m_rand :: nat

type_synonym ('d, 'a) plug = "'d interp \<Rightarrow> ((py_exn + 'a) \<times> 'd interp) option"

definition returnY :: "'a \<Rightarrow> ('d, 'a) plug" where
  "returnY x s = Some (Inr x, s)"

definition raiseY :: "py_exn \<Rightarrow> ('d, 'a) plug" where
  "raiseY e s = Some (Inl e, s)"

definition bindY :: "('d, 'a) plug \<Rightarrow> ('a \<Rightarrow> ('d, 'b) plug) \<Rightarrow> ('d, 'b) plug" where
  "bindY m f s =
     (case m s of
        None \<Rightarrow> None
      | Some (Inl e, s') \<Rightarrow> Some (Inl e, s')
      | Some (Inr x, s') \<Rightarrow> f x s')"

definition thenY :: "('d, 'a) plug \<Rightarrow> ('d, 'b) plug \<Rightarrow> ('d, 'b) plug" where
  "thenY m n = bindY m (\<lambda>_. n)"

fun allY :: "('d, unit) plug list \<Rightarrow> ('d, unit) plug" where
  "allY [] = returnY ()"
| "allY (m # ms) = thenY m (allY ms)"

definition whenY :: "bool \<Rightarrow> ('d, unit) plug list \<Rightarrow> ('d, unit) plug" where
  "whenY b ms = (if b then allY ms else returnY ())"

text \<open>A call of the native module; \<^verbatim>\<open>NULL\<close> raises the error of the argument parser.\<close>

definition native :: "'d pyfun \<Rightarrow> ('d, pyobject) plug" where
  "native f s =
     (case f (i_world s) of
        None \<Rightarrow> None
      | Some (None, w) \<Rightarrow> Some (Inl TypeError, s\<lparr>i_world := w\<rparr>)
      | Some (Some x, w) \<Rightarrow> Some (Inr x, s\<lparr>i_world := w\<rparr>))"

text \<open>A string argument of the native module must not have a zero byte.\<close>

definition text_ok :: "string \<Rightarrow> bool" where
  "text_ok t \<longleftrightarrow> CHR 0x00 \<notin> set t"

definition native_text :: "string list \<Rightarrow> 'd pyfun \<Rightarrow> ('d, pyobject) plug" where
  "native_text ts f = (if list_all text_ok ts then native f else raiseY ValueError)"

definition ignore :: "('d, pyobject) plug \<Rightarrow> ('d, unit) plug" where
  "ignore m = bindY m (\<lambda>_. returnY ())"

primrec as_int :: "pyobject \<Rightarrow> int" where
  "as_int PyTrue = 1"
| "as_int PyFalse = 0"
| "as_int (PyInt i) = i"
| "as_int (PyStr t) = 0"

primrec str :: "pyobject \<Rightarrow> string" where
  "str PyTrue = ''True''"
| "str PyFalse = ''False''"
| "str (PyInt i) = print_int i"
| "str (PyStr t) = t"

primrec truth :: "pyobject \<Rightarrow> bool" where
  "truth PyTrue = True"
| "truth PyFalse = False"
| "truth (PyInt i) = (i \<noteq> 0)"
| "truth (PyStr t) = (t \<noteq> [])"

section \<open>The names of clues and headers\<close>

abbreviation PP_HTTP_PINPOINT_PSPANID :: string where "PP_HTTP_PINPOINT_PSPANID \<equiv> ''HTTP_PINPOINT_PSPANID''"
abbreviation PP_HTTP_PINPOINT_SPANID :: string where "PP_HTTP_PINPOINT_SPANID \<equiv> ''HTTP_PINPOINT_SPANID''"
abbreviation PP_HTTP_PINPOINT_TRACEID :: string where "PP_HTTP_PINPOINT_TRACEID \<equiv> ''HTTP_PINPOINT_TRACEID''"
abbreviation PP_HTTP_PINPOINT_PAPPNAME :: string where "PP_HTTP_PINPOINT_PAPPNAME \<equiv> ''HTTP_PINPOINT_PAPPNAME''"
abbreviation PP_HTTP_PINPOINT_PAPPTYPE :: string where "PP_HTTP_PINPOINT_PAPPTYPE \<equiv> ''HTTP_PINPOINT_PAPPTYPE''"
abbreviation PP_HTTP_PINPOINT_HOST :: string where "PP_HTTP_PINPOINT_HOST \<equiv> ''HTTP_PINPOINT_HOST''"
abbreviation PP_HTTP_PINPOINT_SAMPLED :: string where "PP_HTTP_PINPOINT_SAMPLED \<equiv> ''HTTP_PINPOINT_SAMPLED''"
abbreviation PP_HEADER_PINPOINT_PSPANID :: string where "PP_HEADER_PINPOINT_PSPANID \<equiv> ''Pinpoint-Pspanid''"
abbreviation PP_HEADER_PINPOINT_SPANID :: string where "PP_HEADER_PINPOINT_SPANID \<equiv> ''Pinpoint-Spanid''"
abbreviation PP_HEADER_PINPOINT_TRACEID :: string where "PP_HEADER_PINPOINT_TRACEID \<equiv> ''Pinpoint-Traceid''"
abbreviation PP_HEADER_PINPOINT_PAPPNAME :: string where "PP_HEADER_PINPOINT_PAPPNAME \<equiv> ''Pinpoint-Pappname''"
abbreviation PP_HEADER_PINPOINT_PAPPTYPE :: string where "PP_HEADER_PINPOINT_PAPPTYPE \<equiv> ''Pinpoint-Papptype''"
abbreviation PP_HEADER_PINPOINT_HOST :: string where "PP_HEADER_PINPOINT_HOST \<equiv> ''Pinpoint-Host''"
abbreviation PP_HEADER_PINPOINT_SAMPLED :: string where "PP_HEADER_PINPOINT_SAMPLED \<equiv> ''Pinpoint-Sampled''"
abbreviation PP_DESTINATION :: string where "PP_DESTINATION \<equiv> ''dst''"
abbreviation PP_INTERCEPTOR_NAME :: string where "PP_INTERCEPTOR_NAME \<equiv> ''name''"
abbreviation PP_APP_NAME :: string where "PP_APP_NAME \<equiv> ''appname''"
abbreviation PP_APP_ID :: string where "PP_APP_ID \<equiv> ''appid''"
abbreviation PP_REQ_URI :: string where "PP_REQ_URI \<equiv> ''uri''"
abbreviation PP_REQ_CLIENT :: string where "PP_REQ_CLIENT \<equiv> ''client''"
abbreviation PP_REQ_SERVER :: string where "PP_REQ_SERVER \<equiv> ''server''"
abbreviation PP_SERVER_TYPE :: string where "PP_SERVER_TYPE \<equiv> ''stp''"
abbreviation PP_PARENT_SPAN_ID :: string where "PP_PARENT_SPAN_ID \<equiv> ''psid''"
abbreviation PP_PARENT_NAME :: string where "PP_PARENT_NAME \<equiv> ''pname''"
abbreviation PP_PARENT_TYPE :: string where "PP_PARENT_TYPE \<equiv> ''ptype''"
abbreviation PP_PARENT_HOST :: string where "PP_PARENT_HOST \<equiv> ''Ah''"
abbreviation PP_NGINX_PROXY :: string where "PP_NGINX_PROXY \<equiv> ''NP''"
abbreviation PP_APACHE_PROXY :: string where "PP_APACHE_PROXY \<equiv> ''AP''"
abbreviation PP_TRANSACTION_ID :: string where "PP_TRANSACTION_ID \<equiv> ''tid''"
abbreviation PP_SPAN_ID :: string where "PP_SPAN_ID \<equiv> ''sid''"
abbreviation PP_NOT_SAMPLED :: string where "PP_NOT_SAMPLED \<equiv> ''s0''"
abbreviation PP_SAMPLED :: string where "PP_SAMPLED \<equiv> ''s1''"
abbreviation PP_NEXT_SPAN_ID :: string where "PP_NEXT_SPAN_ID \<equiv> ''nsid''"
abbreviation PP_ARGS :: string where "PP_ARGS \<equiv> ''-1''"
abbreviation PP_RETURN :: string where "PP_RETURN \<equiv> ''14''"
abbreviation PYTHON :: string where "PYTHON \<equiv> ''1700''"
abbreviation PP_METHOD_CALL :: string where "PP_METHOD_CALL \<equiv> ''1701''"
abbreviation PP_REMOTE_METHOD :: string where "PP_REMOTE_METHOD \<equiv> ''9900''"
abbreviation PP_HTTP_URL :: string where "PP_HTTP_URL \<equiv> ''40''"
abbreviation PP_HTTP_STATUS_CODE :: string where "PP_HTTP_STATUS_CODE \<equiv> ''46''"

section \<open>The wrappers of the native module\<close>

definition with_trace :: "moment \<Rightarrow> int \<Rightarrow> ('d, int) plug" where
  "with_trace m trace_id = bindY (native (py_pinpoint_start_trace (m_now m) (Some (Some trace_id)))) (\<lambda>x. returnY (as_int x))"

text \<open>The argument of \<^verbatim>\<open>end_trace\<close> is \<open>None\<close> when it is a Python object that is not an integer.\<close>

definition end_trace :: "'d platform \<Rightarrow> moment \<Rightarrow> int option \<Rightarrow> ('d, int) plug" where
  "end_trace pf m trace_id =
     bindY (native (py_pinpoint_end_trace pf (m_now m) (m_clk m) (map_option Some trace_id))) (\<lambda>x. returnY (as_int x))"

definition add_exception :: "moment \<Rightarrow> string \<Rightarrow> int \<Rightarrow> ('d, unit) plug" where
  "add_exception m message trace_id =
     ignore (native_text [message] (py_pinpoint_add_exception (m_now m) (Some (message, Some trace_id))))"

definition add_trace_header :: "string \<Rightarrow> string \<Rightarrow> int \<Rightarrow> int \<Rightarrow> ('d, unit) plug" where
  "add_trace_header key val trace_id location =
     ignore (native_text [key, val] (py_pinpoint_add_clue (Some (key, val, Some trace_id, Some location))))"

definition add_trace_header_v2 :: "string \<Rightarrow> string \<Rightarrow> int \<Rightarrow> int \<Rightarrow> ('d, unit) plug" where
  "add_trace_header_v2 key val trace_id location =
     ignore (native_text [key, val] (py_pinpoint_add_clues (Some (key, val, Some trace_id, Some location))))"

definition add_context :: "string \<Rightarrow> string \<Rightarrow> int \<Rightarrow> ('d, unit) plug" where
  "add_context key val trace_id =
     ignore (native_text [key, val] (py_pinpoint_context_key (Some (key, val, Some trace_id))))"

definition get_context :: "string \<Rightarrow> int \<Rightarrow> ('d, pyobject) plug" where
  "get_context key trace_id = native_text [key] (py_pinpoint_get_key (Some (key, Some trace_id)))"

definition gen_tid :: "moment \<Rightarrow> ('d, string) plug" where
  "gen_tid m s =
     bindY (native (py_pinpoint_start_time (m_now m))) (\<lambda>start.
     bindY (native py_generate_unique_id) (\<lambda>unique.
     returnY (i_app_id s @ ''^'' @ str start @ ''^'' @ str unique))) s"

text \<open>\<^verbatim>\<open>random.randint(0, 2147483647)\<close>.\<close>

definition gen_sid :: "moment \<Rightarrow> string" where
  "gen_sid m = str (PyInt (int (m_rand m mod 2147483648)))"

definition mark_as_error :: "string \<Rightarrow> string \<Rightarrow> int \<Rightarrow> int \<Rightarrow> ('d, unit) plug" where
  "mark_as_error message filename line trace_id =
     ignore (native_text [message, filename] (py_pinpoint_mark_an_error (Some (message, filename, line, Some trace_id))))"

definition drop_trace :: "int \<Rightarrow> ('d, unit) plug" where
  "drop_trace trace_id = ignore (native (py_pinpoint_drop_trace (Some (Some trace_id))))"

definition check_trace_limit_py :: "moment \<Rightarrow> ('d, bool) plug" where
  "check_trace_limit_py m = bindY (native (py_check_trace_limit (m_secs m) (Some (Some (- 1))))) (\<lambda>x. returnY (truth x))"

definition set_agent :: "moment \<Rightarrow> string \<Rightarrow> string \<Rightarrow> string \<Rightarrow> int \<Rightarrow> int \<Rightarrow> 'd interp \<Rightarrow> 'd interp" where
  "set_agent m app_id_str app_name_str collect_agent_host trace_limit time_out s =
     s\<lparr>i_app_id := app_id_str, i_app_name := app_name_str,
       i_world := snd (py_set_agent (m_now m) (Some (collect_agent_host, Some trace_limit, Some time_out)) (i_world s))\<rparr>"

section \<open>The node a thread is at\<close>

definition get_parent_id :: "('d, bool \<times> int) plug" where
  "get_parent_id s = returnY (if 0 < i_local s then (True, i_local s) else (False, - 1)) s"

definition set_parent_id :: "int \<Rightarrow> ('d, unit) plug" where
  "set_parent_id nid s = returnY () (s\<lparr>i_local := nid\<rparr>)"

section \<open>Traced functions\<close>

definition PinTrace_onBefore :: "moment \<Rightarrow> int \<Rightarrow> ('d, int) plug" where
  "PinTrace_onBefore m parentId =
     bindY (with_trace m parentId) (\<lambda>traceId. thenY (set_parent_id traceId) (returnY traceId))"

definition PinTrace_isSample :: "('d, bool \<times> int) plug" where
  "PinTrace_isSample = get_parent_id"

definition PinTrace_onEnd :: "'d platform \<Rightarrow> moment \<Rightarrow> int option \<Rightarrow> ('d, unit) plug" where
  "PinTrace_onEnd pf m traceId = bindY (end_trace pf m traceId) set_parent_id"

text \<open>
  \<^verbatim>\<open>__call__\<close>, for the class with the given methods.  The arguments of the function are a value of type
  \<open>'a\<close>, its result, which is \<^verbatim>\<open>None\<close> when it has failed, one of type \<open>'r\<close>.
\<close>

definition PinTrace_call ::
  "('a \<Rightarrow> ('d, bool \<times> int \<times> 'a) plug) \<Rightarrow> (int \<Rightarrow> 'a \<Rightarrow> ('d, int \<times> 'a) plug) \<Rightarrow> (int \<Rightarrow> py_exn \<Rightarrow> ('d, unit) plug) \<Rightarrow>
   (int \<Rightarrow> 'r option \<Rightarrow> ('d, unit) plug) \<Rightarrow> ('a \<Rightarrow> ('d, 'r) plug) \<Rightarrow> 'a \<Rightarrow> ('d, 'r) plug" where
  "PinTrace_call isSample onBefore onException onEnd func args =
     bindY (isSample args) (\<lambda>(sampled, parentId, nArgs).
     if \<not> sampled then func nArgs
     else
       bindY (onBefore parentId nArgs) (\<lambda>(traceId, nArgs) s.
       case func nArgs s of
         None \<Rightarrow> None
       | Some (Inr ret, s) \<Rightarrow> thenY (onEnd traceId (Some ret)) (returnY ret) s
       | Some (Inl e, s) \<Rightarrow>
           (case onException traceId e s of
              None \<Rightarrow> None
            | Some (x, s) \<Rightarrow> thenY (onEnd traceId None) (raiseY (case x of Inl e' \<Rightarrow> e' | Inr _ \<Rightarrow> e)) s)))"

definition PinpointCommonPlugin_onBefore :: "moment \<Rightarrow> string \<Rightarrow> int \<Rightarrow> 'a \<Rightarrow> ('d, int \<times> 'a) plug" where
  "PinpointCommonPlugin_onBefore m name parentId args =
     bindY (PinTrace_onBefore m parentId) (\<lambda>trace_id.
     thenY (allY
       [add_trace_header PP_INTERCEPTOR_NAME name trace_id 0,
        add_trace_header PP_SERVER_TYPE PP_METHOD_CALL trace_id 0])
       (returnY (trace_id, args)))"

definition PinpointCommonPlugin_onEnd :: "'d platform \<Rightarrow> moment \<Rightarrow> int \<Rightarrow> 'r option \<Rightarrow> ('d, unit) plug" where
  "PinpointCommonPlugin_onEnd pf m traceId ret = PinTrace_onEnd pf m (Some traceId)"

definition PinpointCommonPlugin_onException :: "(py_exn \<Rightarrow> string) \<Rightarrow> moment \<Rightarrow> int \<Rightarrow> py_exn \<Rightarrow> ('d, unit) plug" where
  "PinpointCommonPlugin_onException text m traceId e = thenY (add_exception m (text e) traceId) (raiseY e)"

definition PinpointCommonPlugin ::
  "'d platform \<Rightarrow> (py_exn \<Rightarrow> string) \<Rightarrow> moment \<times> moment \<times> moment \<Rightarrow> string \<Rightarrow> ('a \<Rightarrow> ('d, 'r) plug) \<Rightarrow> 'a \<Rightarrow> ('d, 'r) plug" where
  "PinpointCommonPlugin pf text ms name =
     (case ms of (m1, m2, m3) \<Rightarrow>
        PinTrace_call (\<lambda>args. bindY PinTrace_isSample (\<lambda>(sampled, parentId). returnY (sampled, parentId, args)))
          (PinpointCommonPlugin_onBefore m1 name) (PinpointCommonPlugin_onException text m2)
          (PinpointCommonPlugin_onEnd pf m3))"

section \<open>Entry points\<close>

record pin_header =
  Url :: string
  Host :: string
  RemoteAddr :: string
  ParentType :: string
  ParentName :: string
  ParentHost :: string
  ParentTid :: string
  ParentSid :: string
  Error :: string

text \<open>\<^verbatim>\<open>GetHeader\<close> is the function of the user that makes a header from the arguments.\<close>

definition PinTransaction_onBefore ::
  "moment \<Rightarrow> string \<Rightarrow> ('a \<Rightarrow> ('d, pin_header) plug) \<Rightarrow> int \<Rightarrow> 'a \<Rightarrow> ('d, int \<times> 'a) plug" where
  "PinTransaction_onBefore m name GetHeader parentId args =
     bindY (PinTrace_onBefore m parentId) (\<lambda>traceId.
     bindY (GetHeader args) (\<lambda>header s.
     thenY (allY
       [add_trace_header PP_SPAN_ID (gen_sid m) traceId 0, add_context PP_SPAN_ID (gen_sid m) traceId,
        add_trace_header PP_INTERCEPTOR_NAME name traceId 0,
        add_trace_header PP_APP_NAME (i_app_name s) traceId 0, add_context PP_APP_NAME (i_app_name s) traceId,
        add_trace_header PP_APP_ID (i_app_id s) traceId 0, add_context PP_APP_ID (i_app_id s) traceId,
        add_trace_header PP_REQ_URI (Url header) traceId 0, add_trace_header PP_REQ_SERVER (Host header) traceId 0,
        add_trace_header PP_REQ_CLIENT (RemoteAddr header) traceId 0,
        add_trace_header PP_SERVER_TYPE PYTHON traceId 0, add_context PP_SERVER_TYPE PYTHON traceId,
        add_context PP_HEADER_PINPOINT_SAMPLED ''s1'' traceId,
        whenY (ParentType header \<noteq> []) [add_trace_header PP_PARENT_TYPE (ParentType header) traceId 0],
        whenY (ParentName header \<noteq> []) [add_trace_header PP_PARENT_NAME (ParentName header) traceId 0],
        whenY (ParentHost header \<noteq> []) [add_trace_header PP_PARENT_HOST (ParentHost header) traceId 0]])
     (bindY (if ParentTid header \<noteq> [] then returnY (ParentTid header) else gen_tid m) (\<lambda>tid.
     thenY (allY
       [add_trace_header PP_TRANSACTION_ID tid traceId 0, add_context PP_TRANSACTION_ID tid traceId,
        whenY (Error header \<noteq> []) [mark_as_error (Error header) (Error header) 0 traceId]])
       (returnY (traceId, args)))) s))"

section \<open>Requests from one process to another\<close>

definition generatePinpointHeader ::
  "moment \<Rightarrow> string \<Rightarrow> (string \<rightharpoonup> pyobject) \<Rightarrow> int \<Rightarrow> ('d, string \<rightharpoonup> pyobject) plug" where
  "generatePinpointHeader m host headers traceId =
     bindY (get_context PP_SERVER_TYPE traceId) (\<lambda>ptype.
     bindY (get_context PP_APP_NAME traceId) (\<lambda>pname.
     bindY (get_context PP_TRANSACTION_ID traceId) (\<lambda>tid.
     bindY (get_context PP_SPAN_ID traceId) (\<lambda>sid.
     thenY (add_context PP_NEXT_SPAN_ID (gen_sid m) traceId)
       (returnY (headers
         (PP_HEADER_PINPOINT_SAMPLED \<mapsto> PyStr PP_SAMPLED, PP_HEADER_PINPOINT_PAPPTYPE \<mapsto> ptype,
          PP_HEADER_PINPOINT_PAPPNAME \<mapsto> pname, ''Pinpoint-Flags'' \<mapsto> PyStr ''0'', PP_HEADER_PINPOINT_HOST \<mapsto> PyStr host,
          PP_HEADER_PINPOINT_TRACEID \<mapsto> tid, PP_HEADER_PINPOINT_PSPANID \<mapsto> sid,
          PP_HEADER_PINPOINT_SPANID \<mapsto> PyStr (gen_sid m))))))))"

definition item :: "(string \<rightharpoonup> string) \<Rightarrow> string \<Rightarrow> ('d, string) plug" where
  "item environ key = (case environ key of None \<Rightarrow> raiseY (KeyError key) | Some v \<Rightarrow> returnY v)"

definition whenHas :: "(string \<rightharpoonup> string) \<Rightarrow> string \<Rightarrow> (string \<Rightarrow> ('d, unit) plug list) \<Rightarrow> ('d, unit) plug" where
  "whenHas environ key f = (case environ key of None \<Rightarrow> returnY () | Some v \<Rightarrow> allY (f v))"

definition first_of :: "(string \<rightharpoonup> string) \<Rightarrow> string \<Rightarrow> string \<Rightarrow> ('d, string) plug \<Rightarrow> ('d, string) plug" where
  "first_of environ key1 key2 other =
     (case environ key1 of
        Some v \<Rightarrow> returnY v
      | None \<Rightarrow> (case environ key2 of Some v \<Rightarrow> returnY v | None \<Rightarrow> other))"

definition parent_clue :: "(string \<rightharpoonup> string) \<Rightarrow> string \<Rightarrow> string \<Rightarrow> int \<Rightarrow> ('d, unit) plug" where
  "parent_clue environ name key trace_id =
     whenHas environ name (\<lambda>v. [add_context key v trace_id, add_trace_header key v trace_id 0])"

text \<open>The part on the caller, which \<^verbatim>\<open>Helper.py\<close> and \<^verbatim>\<open>RequestPlugins.py\<close> have in the same words.\<close>

definition parent_clues :: "(string \<rightharpoonup> string) \<Rightarrow> int \<Rightarrow> ('d, unit) plug" where
  "parent_clues environ trace_id =
     allY
       [parent_clue environ PP_HTTP_PINPOINT_PAPPNAME PP_PARENT_NAME trace_id,
        parent_clue environ PP_HTTP_PINPOINT_PAPPTYPE PP_PARENT_TYPE trace_id,
        parent_clue environ PP_HTTP_PINPOINT_HOST PP_PARENT_HOST trace_id,
        whenHas environ PP_HEADER_PINPOINT_PSPANID (\<lambda>v. [add_trace_header PP_PARENT_SPAN_ID v trace_id 0]),
        parent_clue environ PP_HEADER_PINPOINT_PAPPNAME PP_PARENT_NAME trace_id,
        parent_clue environ PP_HEADER_PINPOINT_PAPPTYPE PP_PARENT_TYPE trace_id,
        parent_clue environ PP_HEADER_PINPOINT_HOST PP_PARENT_HOST trace_id,
        whenHas environ PP_NGINX_PROXY (\<lambda>v. [add_trace_header PP_NGINX_PROXY v trace_id 0]),
        whenHas environ PP_APACHE_PROXY (\<lambda>v. [add_trace_header PP_APACHE_PROXY v trace_id 0])]"

text \<open>The decision whether the request is sampled, also in the same words.\<close>

definition decide_sampling :: "moment \<Rightarrow> (string \<rightharpoonup> string) \<Rightarrow> int \<Rightarrow> ('d, unit) plug" where
  "decide_sampling m environ trace_id =
     thenY (add_context PP_HEADER_PINPOINT_SAMPLED ''s1'' trace_id)
       (bindY (if environ PP_HTTP_PINPOINT_SAMPLED = Some PP_NOT_SAMPLED then returnY True else check_trace_limit_py m) (\<lambda>block.
        whenY block [drop_trace trace_id, add_context PP_HEADER_PINPOINT_SAMPLED ''s0'' trace_id]))"

text \<open>\<^verbatim>\<open>startPinpointByEnviron\<close> with the values of \<^verbatim>\<open>app_id()\<close> and \<^verbatim>\<open>app_name()\<close>.\<close>

definition start_by_environ :: "string \<Rightarrow> string \<Rightarrow> moment \<Rightarrow> (string \<rightharpoonup> string) \<Rightarrow> int \<Rightarrow> ('d, unit) plug" where
  "start_by_environ app_id app_name m environ trace_id =
     thenY (allY
       [add_trace_header PP_APP_NAME app_name trace_id 0, add_context PP_APP_NAME app_name trace_id,
        add_trace_header PP_APP_ID app_id trace_id 0, add_trace_header PP_INTERCEPTOR_NAME ''WSGI handle'' trace_id 0])
     (bindY (item environ ''PATH_INFO'') (\<lambda>path.
     bindY (item environ ''REMOTE_ADDR'') (\<lambda>remote_addr.
     bindY (item environ ''HTTP_HOST'') (\<lambda>host.
     thenY (allY
       [add_trace_header PP_REQ_URI path trace_id 0, add_trace_header PP_REQ_CLIENT remote_addr trace_id 0,
        add_trace_header PP_REQ_SERVER host trace_id 0, add_trace_header PP_SERVER_TYPE PYTHON trace_id 0,
        add_context PP_SERVER_TYPE PYTHON trace_id,
        whenHas environ PP_HTTP_PINPOINT_PSPANID (\<lambda>v. [add_trace_header PP_PARENT_SPAN_ID v trace_id 0])])
     (bindY (first_of environ PP_HTTP_PINPOINT_SPANID PP_HEADER_PINPOINT_SPANID (returnY (gen_sid m))) (\<lambda>sid.
     bindY (first_of environ PP_HTTP_PINPOINT_TRACEID PP_HEADER_PINPOINT_TRACEID (gen_tid m)) (\<lambda>tid.
     allY
       [parent_clues environ trace_id, decide_sampling m environ trace_id,
        add_trace_header PP_TRANSACTION_ID tid trace_id 0, add_context PP_TRANSACTION_ID tid trace_id,
        add_trace_header PP_SPAN_ID sid trace_id 0, add_context PP_SPAN_ID sid trace_id])))))))"

definition startPinpointByEnviron :: "moment \<Rightarrow> (string \<rightharpoonup> string) \<Rightarrow> int \<Rightarrow> ('d, unit) plug" where
  "startPinpointByEnviron m environ trace_id s = start_by_environ (i_app_id s) (i_app_name s) m environ trace_id s"

subsection \<open>A server\<close>

definition WSGIPlugin_onBefore :: "moment \<Rightarrow> int \<Rightarrow> (string \<rightharpoonup> string) \<Rightarrow> ('d, int \<times> (string \<rightharpoonup> string)) plug" where
  "WSGIPlugin_onBefore m parentId environ =
     bindY (PinTrace_onBefore m parentId) (\<lambda>trace_id.
     thenY (startPinpointByEnviron m environ trace_id) (returnY (trace_id, environ)))"

text \<open>
  \<^verbatim>\<open>onEnd\<close> hands on its arguments in the wrong order.  \<open>integer\<close> tells which integer the interpreter takes the answer of the
  application for.
\<close>

definition WSGIPlugin_onEnd :: "'d platform \<Rightarrow> moment \<Rightarrow> ('r option \<Rightarrow> int option) \<Rightarrow> int \<Rightarrow> 'r option \<Rightarrow> ('d, unit) plug" where
  "WSGIPlugin_onEnd pf m integer trace_id ret = PinTrace_onEnd pf m (integer ret)"

definition WSGIPlugin_onException :: "(py_exn \<Rightarrow> string) \<Rightarrow> int \<Rightarrow> py_exn \<Rightarrow> ('d, unit) plug" where
  "WSGIPlugin_onException text traceId e = mark_as_error (text e) [] 0 traceId"

definition WSGIPlugin ::
  "'d platform \<Rightarrow> (py_exn \<Rightarrow> string) \<Rightarrow> ('r option \<Rightarrow> int option) \<Rightarrow> moment \<times> moment \<Rightarrow>
   ((string \<rightharpoonup> string) \<Rightarrow> ('d, 'r) plug) \<Rightarrow> (string \<rightharpoonup> string) \<Rightarrow> ('d, 'r) plug" where
  "WSGIPlugin pf text integer ms =
     (case ms of (m1, m2) \<Rightarrow>
        PinTrace_call (\<lambda>environ. returnY (True, 0, environ)) (WSGIPlugin_onBefore m1) (WSGIPlugin_onException text)
          (WSGIPlugin_onEnd pf m2 integer))"

subsection \<open>A client\<close>

text \<open>The arguments of \<^verbatim>\<open>requests.request\<close>; \<open>netloc\<close> is the part of the URL that \<^verbatim>\<open>urlparse\<close> finds.\<close>

record request_args =
  url :: string
  netloc :: string
  headers :: "(string \<rightharpoonup> pyobject) option"

definition NextSpanPlugin_isSample :: "moment \<Rightarrow> request_args \<Rightarrow> ('d, bool \<times> int \<times> request_args) plug" where
  "NextSpanPlugin_isSample m args =
     bindY PinTrace_isSample (\<lambda>(sampled, parentId).
     let hs = (case headers args of None \<Rightarrow> Map.empty | Some hs \<Rightarrow> hs) in
     if hs PP_HEADER_PINPOINT_SAMPLED \<noteq> None then returnY (False, parentId, args)
     else
       bindY
         (if sampled then
            bindY (get_context PP_HEADER_PINPOINT_SAMPLED parentId) (\<lambda>x.
            if x = PyStr ''s1'' then generatePinpointHeader m (netloc args) hs parentId else returnY hs)
          else returnY (hs(PP_HEADER_PINPOINT_SAMPLED \<mapsto> PyStr PP_NOT_SAMPLED)))
         (\<lambda>hs. returnY (sampled, parentId, args\<lparr>headers := Some hs\<rparr>)))"

definition NextSpanPlugin_onBefore :: "moment \<Rightarrow> string \<Rightarrow> int \<Rightarrow> request_args \<Rightarrow> ('d, int \<times> request_args) plug" where
  "NextSpanPlugin_onBefore m name parentId args =
     bindY (PinTrace_onBefore m parentId) (\<lambda>traceId.
     thenY (allY
       [add_trace_header PP_INTERCEPTOR_NAME name traceId 0, add_trace_header PP_SERVER_TYPE PP_REMOTE_METHOD traceId 0,
        add_trace_header_v2 PP_ARGS (url args) traceId 0, add_trace_header_v2 PP_HTTP_URL (url args) traceId 0,
        add_trace_header PP_DESTINATION (netloc args) traceId 0])
       (returnY (traceId, args)))"

text \<open>An answer that counts as true, by its status and its text.\<close>

definition NextSpanPlugin_onEnd :: "'d platform \<Rightarrow> moment \<Rightarrow> int \<Rightarrow> (int \<times> string) option \<Rightarrow> ('d, unit) plug" where
  "NextSpanPlugin_onEnd pf m traceId ret =
     bindY (get_context PP_NEXT_SPAN_ID traceId) (\<lambda>nextSpan.
     allY
       [whenY (truth nextSpan) [add_trace_header PP_NEXT_SPAN_ID (str nextSpan) traceId 0],
        (case ret of
           None \<Rightarrow> returnY ()
         | Some (status_code, shown) \<Rightarrow> allY
             [add_trace_header_v2 PP_HTTP_STATUS_CODE (print_int status_code) traceId 0,
              add_trace_header_v2 PP_RETURN shown traceId 0]),
        PinTrace_onEnd pf m (Some traceId)])"

definition NextSpanPlugin_onException :: "(py_exn \<Rightarrow> string) \<Rightarrow> moment \<Rightarrow> int \<Rightarrow> py_exn \<Rightarrow> ('d, unit) plug" where
  "NextSpanPlugin_onException text m traceId e = add_exception m (text e) traceId"

end
