(* ===== verification/Python_Traces.thy ===== *)
theory Python_Traces
  imports Python_Plugin
begin

text \<open>
  What the Python plugins make of a trace: the clues and the context a request leaves on the root, the connection between the traces of
  two processes, and what a decorated function does to the trace and to the program.

  \<open>does P m Q\<close> says that \<open>m\<close>, started where \<open>P\<close> holds, returns without an exception and that \<open>Q\<close> holds then;
  the rules for the operations are in the collection \<open>plug_rules\<close>.
\<close>

section \<open>Edits of a root\<close>

lemma edit_node:
  assumes "pool_shape p" and "alive p r"
    and "\<And>q. pool_shape q \<Longrightarrow> in_range (r - 1) q \<Longrightarrow> nd q r = addReference (nd p r) \<Longrightarrow>
      \<exists>q'. body (r - 1) q = (x, q') \<and> pool_shape q' \<and> in_range (r - 1) q' \<and> nd q' r = n"
  shows "\<exists>p'. withNode r body p = (x, p') \<and> nd p' r = decReference n \<and> pool_shape p' \<and> in_range (r - 1) p'"
proof -
  let ?q = "upd_node (r - 1) addReference p"
  have "pool_shape ?q" "in_range (r - 1) ?q" "nd ?q r = addReference (nd p r)"
    using assms(1) alive_in_range [OF assms(2)] by simp_all
  from assms(3) [OF this] show ?thesis by (auto simp: withNode_alive [OF assms(2)])
qed

lemma edit_root:
  assumes inv: "pool_inv p" and t: "trace_of p r es" and nid: "nid \<in> set (r # es)"
    and body: "\<And>q. pool_shape q \<Longrightarrow> in_range (r - 1) q \<Longrightarrow> nd q r = addReference (nd p r) \<Longrightarrow>
      \<exists>q'. body (r - 1) q = (x, q') \<and> pool_shape q' \<and> in_range (r - 1) q' \<and> nd q' r = n"
  shows "\<exists>p'. withWrapper nid E_LOC_ROOT body p = (x, p') \<and> nd p' r = decReference n"
proof -
  have al: "alive p nid" "tn_root_id (nd p nid) = r" "alive p r" using t nid by (auto simp: trace_of_def)
  let ?p = "upd_node (nid - 1) decReference (upd_node (nid - 1) addReference p)"
  have s: "pool_shape p" "in_range (nid - 1) p" using inv alive_in_range [OF al(1)] by (auto simp: pool_inv_def)
  have "nd ?p r = nd p r" using s alive_pos [OF al(3)]
    by (auto simp: node_at_upd decReference_def addReference_def)
  then have "\<exists>p'. withNode r body ?p = (x, p') \<and> nd p' r = decReference n \<and> pool_shape p' \<and> in_range (r - 1) p'"
    using s al(3) body by (intro edit_node) simp_all
  moreover have "withNode nid (\<lambda>i. getP (\<lambda>p. tn_root_id (node_at p i))) p = (Inr r, ?p)"
    using al s by (simp add: withNode_alive [OF al(1)] getP_def addReference_def)
  ultimately show ?thesis by (auto simp: withWrapper_def bindP_def)
qed

lemma view_dec [simp]: "recorded k (decReference n) = recorded k n" "tn_context (decReference n) = tn_context n"
  "GetStatus (decReference n) = GetStatus n" "recorded k (addReference n) = recorded k n"
  "tn_context (addReference n) = tn_context n" "GetStatus (addReference n) = GetStatus n"
  by (simp_all add: recorded_def decReference_def addReference_def GetStatus_def)

lemma view_setContext [simp]: "recorded k (setContext key val n) = recorded k n" "GetStatus (setContext key val n) = GetStatus n"
  "tn_context (setContext key val n) = (tn_context n)(key \<mapsto> StringContext val)"
  by (simp_all add: recorded_def GetStatus_def setContext_def)

lemma view_SetStatus [simp]: "recorded k (SetStatus status n) = recorded k n" "tn_context (SetStatus status n) = tn_context n"
  "tn_extra n \<noteq> None \<Longrightarrow> GetStatus (SetStatus status n) = status" "tn_extra (addReference n) = tn_extra n"
  by (auto simp: recorded_def GetStatus_def SetStatus_def addReference_def)

lemma root_clue:
  assumes inv: "pool_inv p" and t: "trace_of p r es" and key: "hd key \<noteq> CHR '':''"
  shows "\<exists>p'. AnnotateTrace_V1 r key val E_LOC_CURRENT p = (Inr (), p') \<and> frame p p' \<and>
    (\<lambda>k. recorded k (nd p' r)) = (\<lambda>k. recorded k (nd p r))(key := StringValue val) \<and>
    tn_context (nd p' r) = tn_context (nd p r) \<and> GetStatus (nd p' r) = GetStatus (nd p r)"
proof -
  have al: "alive p r" and s: "pool_shape p" "node_ok (nd p r)" and f: "frame p (snd (AnnotateTrace_V1 r key val E_LOC_CURRENT p))"
    using t inv alive_in_range [of r p] recording_frames(1) by (auto simp: trace_of_def pool_inv_def)
  define n where "n = snd (AddAnnotation key (StringValue val) (addReference (nd p r)))"
  have ok: "node_ok (addReference (nd p r))" using s(2) by simp
  have e: "AddAnnotation key (StringValue val) (addReference (nd p r)) = (Inr (), n)"
    using AddAnnotation_step(1) [OF ok, of "StringValue val" key] by (simp add: n_def)
  have "\<exists>p'. withNode r (\<lambda>i. onNode i (AddAnnotation key (StringValue val))) p = (Inr (), p') \<and> nd p' r = decReference n \<and>
      pool_shape p' \<and> in_range (r - 1) p'"
    using e by (intro edit_node [OF s(1) al]) (simp add: onNode_def)
  then obtain p' where "AnnotateTrace_V1 r key val E_LOC_CURRENT p = (Inr (), p')" "nd p' r = decReference n"
    using key by (auto simp: AnnotateTrace_V1_def NotInternalKey_def bindP_def withWrapper_def)
  moreover have "tn_context n = tn_context (nd p r)" "GetStatus n = GetStatus (nd p r)"
    by (simp_all add: n_def AddAnnotation_eq GetStatus_def addReference_def)
  moreover have "recorded k n = ((\<lambda>k. recorded k (nd p r))(key := StringValue val)) k" for k
    using recorded_AddAnnotation [OF ok, of k key] by (simp add: n_def)
  ultimately show ?thesis using f by (simp add: fun_eq_iff)
qed

lemma root_context:
  assumes inv: "pool_inv p" and t: "trace_of p r es" and nid: "nid \<in> set (r # es)"
  shows "\<exists>p'. AddTraceContext nid key val p = (Inr (), p') \<and> frame p p' \<and>
    (\<forall>k. recorded k (nd p' r) = recorded k (nd p r)) \<and>
    tn_context (nd p' r) = (tn_context (nd p r))(key \<mapsto> StringContext val) \<and> GetStatus (nd p' r) = GetStatus (nd p r)"
proof -
  have "\<exists>p'. AddTraceContext nid key val p = (Inr (), p') \<and> nd p' r = decReference (setContext key val (addReference (nd p r)))"
    unfolding AddTraceContext_def by (rule edit_root [OF inv t nid]) (simp add: modifyP_def)
  moreover have "frame p (snd (AddTraceContext nid key val p))" using inv by (intro recording_frames) (simp add: pool_inv_def)
  ultimately show ?thesis by auto
qed

lemma root_status:
  assumes inv: "pool_inv p" and t: "trace_of p r es"
  shows "\<exists>p' older. ChangeTraceStatus r status p = (Inr older, p') \<and> frame p p' \<and>
    (\<forall>k. recorded k (nd p' r) = recorded k (nd p r)) \<and> tn_context (nd p' r) = tn_context (nd p r) \<and> GetStatus (nd p' r) = status"
proof -
  have al: "alive p r" "tn_root_id (nd p r) = r" and s: "pool_shape p" and x: "tn_extra (nd p r) \<noteq> None"
    using t inv by (auto simp: trace_of_def root_ok_def pool_inv_def)
  define q where "q = upd_node (r - 1) addReference p"
  have q: "pool_shape q" "in_range (r - 1) q" "nd q r = addReference (nd p r)" "alive q r"
    using s al alive_in_range [OF al(1)] by (simp_all add: q_def)
  let ?body = "\<lambda>root. bindP (getP (\<lambda>p. GetStatus (node_at p root))) (\<lambda>older.
      bindP (modifyP (upd_node root (SetStatus status))) (\<lambda>_. returnP older))"
  let ?n = "SetStatus status (addReference (addReference (nd p r)))"
  have "\<exists>p'. withNode r ?body q = (Inr (GetStatus (nd p r)), p') \<and> nd p' r = decReference ?n \<and> pool_shape p' \<and> in_range (r - 1) p'"
    using q by (intro edit_node) (simp_all add: bindP_def getP_def modifyP_def returnP_def)
  then obtain q' where q': "withNode r ?body q = (Inr (GetStatus (nd p r)), q')" "nd q' r = decReference ?n"
      "pool_shape q'" "in_range (r - 1) q'" by auto
  have "ChangeTraceStatus r status p = (Inr (GetStatus (nd p r)), upd_node (r - 1) decReference q')"
    using q q'(1) al by (simp add: ChangeTraceStatus_def withNode_alive [OF al(1)] bindP_def [of "getP _" "\<lambda>rid. withNode rid _"] getP_def
        q_def [symmetric] addReference_def)
  moreover have "frame p (snd (ChangeTraceStatus r status p))" by (rule recording_frames(6) [OF s])
  ultimately show ?thesis using q'(2-4) x by simp
qed

section \<open>Rules for the operations of a plugin\<close>

definition does :: "('d interp \<Rightarrow> bool) \<Rightarrow> ('d, 'a) plug \<Rightarrow> ('a \<Rightarrow> 'd interp \<Rightarrow> bool) \<Rightarrow> bool" where
  "does P m Q \<longleftrightarrow> (\<forall>s. P s \<longrightarrow> (\<exists>x s'. m s = Some (Inr x, s') \<and> Q x s'))"

named_theorems plug_rules

declare allY.simps [simp del]

lemma does_return [plug_rules]: "does (P x) (returnY x) P"
  by (simp add: does_def returnY_def)

lemma does_bind [plug_rules]: "does P m R \<Longrightarrow> (\<And>x. does (R x) (f x) Q) \<Longrightarrow> does P (bindY m f) Q"
  unfolding does_def bindY_def by fastforce

lemma does_then [plug_rules]: "does P m (\<lambda>_. R) \<Longrightarrow> does R n Q \<Longrightarrow> does P (thenY m n) Q"
  unfolding thenY_def by (rule does_bind)

lemma does_none [plug_rules]: "does P (allY []) (\<lambda>_. P)"
  using does_return [of "\<lambda>_. P" "()"] by (simp add: allY.simps)

lemma does_all [plug_rules]: "does P m (\<lambda>_. R) \<Longrightarrow> does R (allY ms) Q \<Longrightarrow> does P (allY (m # ms)) Q"
  by (simp add: does_then allY.simps)

lemma does_ex: "(\<And>a. does (P a) m Q) \<Longrightarrow> does (\<lambda>s. \<exists>a. P a s) m Q"
  unfolding does_def by blast

lemma does_post: "does P m R \<Longrightarrow> (\<And>x s. R x s \<Longrightarrow> Q x s) \<Longrightarrow> does P m Q"
  unfolding does_def by blast

lemma doesD: "does P m Q \<Longrightarrow> P s \<Longrightarrow> \<exists>x s'. m s = Some (Inr x, s') \<and> Q x s'"
  by (simp add: does_def)

text \<open>
  What the operations on a root leave alone, and the state of the root of the trace \<open>(r, es)\<close>: its clues, its context and its
  status.
\<close>

definition rest :: "'d interp \<Rightarrow> string \<times> string \<times> int \<times> string list \<times> node_id \<times> (node_id \<times> node_id list) set" where
  "rest s = (i_app_id s, i_app_name s, i_local s, w_spans (i_world s), w_current_id (i_world s), traces (w_pool (i_world s)))"

definition at_root where
  "at_root r es b clues ctx st s \<longleftrightarrow> api_inv (i_world s) \<and> w_agent (i_world s) \<noteq> None \<and>
     (r, es) \<in> traces (w_pool (i_world s)) \<and> rest s = b \<and> (\<lambda>k. recorded k (nd (w_pool (i_world s)) r)) = clues \<and>
     tn_context (nd (w_pool (i_world s)) r) = ctx \<and> GetStatus (nd (w_pool (i_world s)) r) = st"

lemma at_rootD:
  assumes "at_root r es b clues ctx st s"
  shows "pool_inv (w_pool (i_world s))" and "trace_of (w_pool (i_world s)) r es" and "0 < r" and "x \<in> set (r # es) \<Longrightarrow> 0 < x"
  using assms alive_pos [of _ "w_pool (i_world s)"] by (auto simp: at_root_def api_inv_def traces_def trace_of_def)

lemma at_root_pool:
  assumes "at_root r es b clues ctx st s" and "frame (w_pool (i_world s)) p" and "(\<lambda>k. recorded k (nd p r)) = clues'"
    and "tn_context (nd p r) = ctx'" and "GetStatus (nd p r) = st'"
  shows "at_root r es b clues' ctx' st' (s\<lparr>i_world := (i_world s)\<lparr>w_pool := p\<rparr>\<rparr>)"
  using assms still_inv [OF still_pool [OF assms(2)]] by (auto simp: at_root_def rest_def)

lemma text_ok_simps [simp]: "text_ok []" "text_ok (c # t) \<longleftrightarrow> c \<noteq> CHR 0x00 \<and> text_ok t" "text_ok (t @ u) \<longleftrightarrow> text_ok t \<and> text_ok u"
  by (auto simp: text_ok_def)

lemma text_ok_int [simp]: "text_ok (print_int i)"
proof -
  have "CHR 0x00 \<notin> set (decimal n)" for n using decimal_isdigit [of "CHR 0x00" n] by (auto simp: isdigit_def)
  then show ?thesis by (simp add: print_int_def text_ok_def)
qed

lemma does_header [plug_rules]:
  assumes "text_ok key" and "text_ok val" and "hd key \<noteq> CHR '':''"
  shows "does (at_root r es b clues ctx st) (add_trace_header key val r 0) (\<lambda>_. at_root r es b (clues(key := StringValue val)) ctx st)"
  unfolding does_def
proof (intro allI impI)
  fix s
  assume a: "at_root r es b clues ctx st s"
  then obtain ag where ag: "w_agent (i_world s) = Some ag" by (auto simp: at_root_def)
  obtain p where p: "AnnotateTrace_V1 r key val 0 (w_pool (i_world s)) = (Inr (), p)" "frame (w_pool (i_world s)) p"
      "(\<lambda>k. recorded k (nd p r)) = (\<lambda>k. recorded k (nd (w_pool (i_world s)) r))(key := StringValue val)"
      "tn_context (nd p r) = tn_context (nd (w_pool (i_world s)) r)" "GetStatus (nd p r) = GetStatus (nd (w_pool (i_world s)) r)"
    using root_clue [OF at_rootD(1,2) [OF a] assms(3), of val] by blast
  have "at_root r es b (clues(key := StringValue val)) ctx st (s\<lparr>i_world := (i_world s)\<lparr>w_pool := p\<rparr>\<rparr>)"
    using a p by (intro at_root_pool) (auto simp: at_root_def)
  then show "\<exists>x s'. add_trace_header key val r 0 s = Some (Inr x, s') \<and> at_root r es b (clues(key := StringValue val)) ctx st s'"
    using assms(1,2) at_rootD(3) [OF a] ag p(1)
    by (simp add: add_trace_header_def ignore_def bindY_def native_text_def native_def py_pinpoint_add_clue_def node_meant_def or_else_def
        answer_def pinpoint_add_clue_def guarded_def onPool_def returnY_def)
qed

lemma does_context [plug_rules]:
  assumes "text_ok key" and "text_ok val" and "nid \<in> set (r # es)"
  shows "does (at_root r es b clues ctx st) (add_context key val nid) (\<lambda>_. at_root r es b clues (ctx(key \<mapsto> StringContext val)) st)"
  unfolding does_def
proof (intro allI impI)
  fix s
  assume a: "at_root r es b clues ctx st s"
  then obtain ag where ag: "w_agent (i_world s) = Some ag" by (auto simp: at_root_def)
  obtain p where p: "AddTraceContext nid key val (w_pool (i_world s)) = (Inr (), p)" "frame (w_pool (i_world s)) p"
      "\<forall>k. recorded k (nd p r) = recorded k (nd (w_pool (i_world s)) r)"
      "tn_context (nd p r) = (tn_context (nd (w_pool (i_world s)) r))(key \<mapsto> StringContext val)"
      "GetStatus (nd p r) = GetStatus (nd (w_pool (i_world s)) r)"
    using root_context [OF at_rootD(1,2) [OF a] assms(3), of key val] by blast
  have "at_root r es b clues (ctx(key \<mapsto> StringContext val)) st (s\<lparr>i_world := (i_world s)\<lparr>w_pool := p\<rparr>\<rparr>)"
    using a p by (intro at_root_pool) (auto simp: at_root_def)
  then show "\<exists>x s'. add_context key val nid s = Some (Inr x, s') \<and> at_root r es b clues (ctx(key \<mapsto> StringContext val)) st s'"
    using assms(1,2) at_rootD(4) [OF a assms(3)] ag p(1)
    by (simp add: add_context_def ignore_def bindY_def native_text_def py_pinpoint_context_key_def node_meant_def
        pinpoint_set_context_key_def native_def answer_def guarded_def onPool_def returnY_def)
qed

lemma does_get [plug_rules]:
  assumes "text_ok key" and "nid \<in> set (r # es)" and "ctx key = Some (StringContext val)" and "text_ok val" and "val \<noteq> []" and "length val < 1024"
  shows "does (at_root r es b clues ctx st) (get_context key nid) (\<lambda>x s. x = PyStr val \<and> at_root r es b clues ctx st s)"
  unfolding does_def
proof (intro allI impI)
  fix s
  assume a: "at_root r es b clues ctx st s"
  then obtain ag where ag: "w_agent (i_world s) = Some ag" by (auto simp: at_root_def)
  have "getContext key (addReference (nd (w_pool (i_world s)) r)) = Inr val"
    using a assms(3) by (simp add: getContext_def at_root_def asStringValue_def)
  then have "\<exists>p'. GetTraceContext nid key True 1024 (w_pool (i_world s)) = (Inr (int (length val), Some val), p') \<and>
      nd p' r = decReference (addReference (nd (w_pool (i_world s)) r))"
    using assms(4,6) c_str_id [of val] unfolding GetTraceContext_def text_ok_def
    by (intro edit_root [OF at_rootD(1,2) [OF a] assms(2)]) (simp add: bindP_def returnP_def)
  then obtain p where p: "GetTraceContext nid key True 1024 (w_pool (i_world s)) = (Inr (int (length val), Some val), p)"
      "nd p r = decReference (addReference (nd (w_pool (i_world s)) r))" by blast
  moreover have "frame (w_pool (i_world s)) (snd (GetTraceContext nid key True 1024 (w_pool (i_world s))))"
    using at_rootD(1) [OF a] by (intro asking_frames(4)) (simp add: pool_inv_def)
  ultimately have "at_root r es b clues ctx st (s\<lparr>i_world := (i_world s)\<lparr>w_pool := p\<rparr>\<rparr>)"
    using a by (intro at_root_pool) (auto simp: at_root_def)
  then show "\<exists>x s'. get_context key nid s = Some (Inr x, s') \<and> x = PyStr val \<and> at_root r es b clues ctx st s'"
    using assms(1,5) at_rootD(4) [OF a assms(2)] ag p(1)
    by (simp add: get_context_def native_text_def py_pinpoint_get_key_def node_meant_def pinpoint_get_context_key_def native_def answer_def guarded_def onPool_def or_else_def)
qed

lemma does_drop [plug_rules]: "does (at_root r es b clues ctx st) (drop_trace r) (\<lambda>_. at_root r es b clues ctx E_TRACE_BLOCK)"
  unfolding does_def
proof (intro allI impI)
  fix s
  assume a: "at_root r es b clues ctx st s"
  then obtain ag where ag: "w_agent (i_world s) = Some ag" by (auto simp: at_root_def)
  obtain p older where p: "ChangeTraceStatus r E_TRACE_BLOCK (w_pool (i_world s)) = (Inr older, p)" "frame (w_pool (i_world s)) p"
      "\<forall>k. recorded k (nd p r) = recorded k (nd (w_pool (i_world s)) r)"
      "tn_context (nd p r) = tn_context (nd (w_pool (i_world s)) r)" "GetStatus (nd p r) = E_TRACE_BLOCK"
    using root_status [OF at_rootD(1,2) [OF a], of E_TRACE_BLOCK] by blast
  have "at_root r es b clues ctx E_TRACE_BLOCK (s\<lparr>i_world := (i_world s)\<lparr>w_pool := p\<rparr>\<rparr>)"
    using a p by (intro at_root_pool) (auto simp: at_root_def)
  then show "\<exists>x s'. drop_trace r s = Some (Inr x, s') \<and> at_root r es b clues ctx E_TRACE_BLOCK s'"
    using at_rootD(3) [OF a] ag p(1)
    by (simp add: drop_trace_def ignore_def bindY_def py_pinpoint_drop_trace_def node_meant_def mark_current_trace_status_def
        change_trace_status_def native_def answer_def guarded_def onPool_def returnY_def)
qed

text \<open>Asking the agent for a number or for leave does not touch the traces.\<close>

lemma at_root_agent:
  assumes "at_root r es b clues ctx st s" and "w = (i_world s)\<lparr>w_agent := Some ag\<rparr>" and "api_inv w"
  shows "at_root r es b clues ctx st (s\<lparr>i_world := w\<rparr>)"
  using assms by (simp add: at_root_def rest_def)

lemma does_limit [plug_rules]: "does (at_root r es b clues ctx st) (check_trace_limit_py m) (\<lambda>_. at_root r es b clues ctx st)"
  unfolding does_def
proof (intro allI impI)
  fix s
  assume a: "at_root r es b clues ctx st s"
  then obtain ag where ag: "w_agent (i_world s) = Some ag" and inv: "api_inv (i_world s)" by (auto simp: at_root_def)
  obtain y st' where c: "CheckTraceLimit (m_secs m) (- 1) (statePtr ag) = (y, st')" by fastforce
  let ?w = "(i_world s)\<lparr>w_agent := Some (ag\<lparr>statePtr := st'\<rparr>)\<rparr>"
  have "check_trace_limit (m_secs m) (- 1) (i_world s) = Some (if y then 1 else 0, ?w)"
    using ag c by (simp add: check_trace_limit_def guarded_def onState_def)
  moreover have "api_inv ?w"
    using api_keeps [OF inv, of undefined "CheckLimit (m_secs m) (- 1)"] calculation by (simp add: effect_def)
  ultimately show "\<exists>x s'. check_trace_limit_py m s = Some (Inr x, s') \<and> at_root r es b clues ctx st s'"
    using at_root_agent [OF a refl] by (simp add: check_trace_limit_py_def bindY_def native_def py_check_trace_limit_def or_else_def answer_def returnY_def)
qed

lemma does_gen_tid [plug_rules]:
  assumes "text_ok (fst b)"
  shows "does (at_root r es b clues ctx st) (gen_tid m) (\<lambda>tid s. text_ok tid \<and> at_root r es b clues ctx st s)"
  unfolding does_def
proof (intro allI impI)
  fix s
  assume a: "at_root r es b clues ctx st s"
  then obtain ag where ag: "w_agent (i_world s) = Some ag" and inv: "api_inv (i_world s)" by (auto simp: at_root_def)
  obtain y st' where c: "GetUniqueId (statePtr ag) = (y, st')" by fastforce
  let ?w = "(i_world s)\<lparr>w_agent := Some (ag\<lparr>statePtr := st'\<rparr>)\<rparr>"
  have "generate_unique_id (i_world s) = Some (y, ?w)"
    using ag c by (simp add: generate_unique_id_def guarded_def onState_def)
  moreover have "api_inv ?w"
    using api_keeps [OF inv, of undefined UniqueId] calculation by (simp add: effect_def)
  moreover have "text_ok (i_app_id s)" using a assms by (auto simp: at_root_def rest_def)
  ultimately show "\<exists>x s'. gen_tid m s = Some (Inr x, s') \<and> text_ok x \<and> at_root r es b clues ctx st s'"
    using at_root_agent [OF a refl]
    by (simp add: gen_tid_def bindY_def native_def py_pinpoint_start_time_def py_generate_unique_id_def answer_def returnY_def)
qed

section \<open>Reading the headers of a request\<close>

lemma does_pure: "(A \<Longrightarrow> does P m Q) \<Longrightarrow> does (\<lambda>s. A \<and> P s) m Q"
  unfolding does_def by blast

definition put :: "(string \<rightharpoonup> string) \<Rightarrow> string \<Rightarrow> (string \<Rightarrow> 'a) \<Rightarrow> string \<Rightarrow> (string \<Rightarrow> 'a) \<Rightarrow> string \<Rightarrow> 'a" where
  "put environ key f name g = (case environ key of None \<Rightarrow> g | Some v \<Rightarrow> g(name := f v))"

definition plain_environ :: "(string \<rightharpoonup> string) \<Rightarrow> bool" where
  "plain_environ environ \<longleftrightarrow> (\<forall>v \<in> ran environ. text_ok v)"

lemma plain_environD: "plain_environ environ \<Longrightarrow> environ key = Some v \<Longrightarrow> text_ok v"
  by (auto simp: plain_environ_def ran_def)

lemma does_has [plug_rules]:
  assumes "plain_environ environ" and "text_ok name" and "hd name \<noteq> CHR '':''"
  shows "does (at_root r es b clues ctx st) (whenHas environ key (\<lambda>v. [add_trace_header name v r 0]))
    (\<lambda>_. at_root r es b (put environ key StringValue name clues) ctx st)"
proof (cases "environ key")
  case None
  then show ?thesis using does_return [of "\<lambda>_. at_root r es b clues ctx st" "()"] by (simp add: whenHas_def put_def)
next
  case (Some v)
  have "does (at_root r es b clues ctx st) (allY [add_trace_header name v r 0])
      (\<lambda>_. at_root r es b (clues(name := StringValue v)) ctx st)"
    using assms plain_environD [OF assms(1) Some] by - (rule plug_rules | simp)+
  then show ?thesis using Some by (simp add: whenHas_def put_def)
qed

lemma does_parent_clue [plug_rules]:
  assumes "plain_environ environ" and "text_ok name" and "hd name \<noteq> CHR '':''"
  shows "does (at_root r es b clues ctx st) (parent_clue environ key name r)
    (\<lambda>_. at_root r es b (put environ key StringValue name clues) (put environ key (\<lambda>v. Some (StringContext v)) name ctx) st)"
proof (cases "environ key")
  case None
  then show ?thesis using does_return [of "\<lambda>_. at_root r es b clues ctx st" "()"] by (simp add: whenHas_def put_def parent_clue_def)
next
  case (Some v)
  have "does (at_root r es b clues ctx st) (allY [add_context name v r, add_trace_header name v r 0])
      (\<lambda>_. at_root r es b (clues(name := StringValue v)) (ctx(name \<mapsto> StringContext v)) st)"
    using assms plain_environD [OF assms(1) Some] by - (rule plug_rules | simp)+
  then show ?thesis using Some by (simp add: whenHas_def put_def parent_clue_def)
qed

lemma does_text: "text_ok x \<Longrightarrow> does P (returnY x) (\<lambda>x s. text_ok x \<and> P s)"
  by (simp add: does_def returnY_def)

lemma does_done: "(\<And>s. P s \<Longrightarrow> Q () s) \<Longrightarrow> does P (allY []) Q"
  using does_post [OF does_none, of P Q] by simp

lemma does_item [plug_rules]: "environ key = Some v \<Longrightarrow> does P (item environ key) (\<lambda>x s. x = v \<and> P s)"
  by (simp add: item_def does_def returnY_def)

lemma does_first [plug_rules]:
  assumes "plain_environ environ" and "does (at_root r es b clues ctx st) other (\<lambda>x s. text_ok x \<and> at_root r es b clues ctx st s)"
  shows "does (at_root r es b clues ctx st) (first_of environ key1 key2 other)
    (\<lambda>x s. (text_ok x \<and> (\<forall>v. environ key1 = Some v \<longrightarrow> x = v)) \<and> at_root r es b clues ctx st s)"
  using assms plain_environD [OF assms(1)]
  by (auto simp: first_of_def does_def returnY_def split: option.splits)

lemma does_decide [plug_rules]:
  "does (at_root r es b clues ctx st) (decide_sampling m environ r)
    (\<lambda>_ s. \<exists>st' c. (environ PP_HTTP_PINPOINT_SAMPLED = Some PP_NOT_SAMPLED \<longrightarrow> st' = E_TRACE_BLOCK) \<and>
      at_root r es b clues (ctx(PP_HEADER_PINPOINT_SAMPLED \<mapsto> StringContext c)) st' s)"
proof -
  let ?k = PP_HEADER_PINPOINT_SAMPLED
  let ?drop = "\<lambda>block. whenY block [drop_trace r, add_context ?k ''s0'' r]"
  have d: "does (at_root r es b clues (ctx(?k \<mapsto> StringContext ''s1'')) st) (?drop block)
      (\<lambda>_ s. \<exists>st' c. (block \<longrightarrow> st' = E_TRACE_BLOCK) \<and> at_root r es b clues (ctx(?k \<mapsto> StringContext c)) st' s)" for block
  proof (cases block)
    case True
    have "does (at_root r es b clues (ctx(?k \<mapsto> StringContext ''s1'')) st) (allY [drop_trace r, add_context ?k ''s0'' r])
        (\<lambda>_. at_root r es b clues ((ctx(?k \<mapsto> StringContext ''s1''))(?k \<mapsto> StringContext ''s0'')) E_TRACE_BLOCK)"
      by - (rule plug_rules | simp)+
    then show ?thesis using True by (auto simp: whenY_def intro: does_post)
  qed (auto simp: whenY_def does_def returnY_def)
  have "does (at_root r es b clues (ctx(?k \<mapsto> StringContext ''s1'')) st)
      (if environ PP_HTTP_PINPOINT_SAMPLED = Some PP_NOT_SAMPLED then returnY True else check_trace_limit_py m)
      (\<lambda>block s. (environ PP_HTTP_PINPOINT_SAMPLED = Some PP_NOT_SAMPLED \<longrightarrow> block) \<and>
        at_root r es b clues (ctx(?k \<mapsto> StringContext ''s1'')) st s)"
    using does_limit [of r es b clues "ctx(?k \<mapsto> StringContext ''s1'')" st m] by (auto simp: does_def returnY_def)
  moreover have "does (at_root r es b clues ctx st) (add_context ?k ''s1'' r) (\<lambda>_. at_root r es b clues (ctx(?k \<mapsto> StringContext ''s1'')) st)"
    by (rule does_context) simp_all
  moreover have "does (\<lambda>s. (environ PP_HTTP_PINPOINT_SAMPLED = Some PP_NOT_SAMPLED \<longrightarrow> block) \<and>
      at_root r es b clues (ctx(?k \<mapsto> StringContext ''s1'')) st s) (?drop block)
      (\<lambda>_ s. \<exists>st' c. (environ PP_HTTP_PINPOINT_SAMPLED = Some PP_NOT_SAMPLED \<longrightarrow> st' = E_TRACE_BLOCK) \<and>
        at_root r es b clues (ctx(?k \<mapsto> StringContext c)) st' s)" for block
    by (rule does_pure, rule does_post [OF d]) auto
  ultimately show ?thesis unfolding decide_sampling_def by (blast intro: does_then does_bind)
qed

text \<open>The clues of the root after the headers of a request have been read.\<close>

definition request_clues where
  "request_clues environ app_id app_name path remote_addr host sid tid clues =
     (let has = (\<lambda>key name. put environ key StringValue name) in
      (has PP_APACHE_PROXY PP_APACHE_PROXY (has PP_NGINX_PROXY PP_NGINX_PROXY
        (has PP_HEADER_PINPOINT_HOST PP_PARENT_HOST (has PP_HEADER_PINPOINT_PAPPTYPE PP_PARENT_TYPE
        (has PP_HEADER_PINPOINT_PAPPNAME PP_PARENT_NAME (has PP_HEADER_PINPOINT_PSPANID PP_PARENT_SPAN_ID
        (has PP_HTTP_PINPOINT_HOST PP_PARENT_HOST (has PP_HTTP_PINPOINT_PAPPTYPE PP_PARENT_TYPE
        (has PP_HTTP_PINPOINT_PAPPNAME PP_PARENT_NAME (has PP_HTTP_PINPOINT_PSPANID PP_PARENT_SPAN_ID
          (clues(PP_APP_NAME := StringValue app_name, PP_APP_ID := StringValue app_id, PP_INTERCEPTOR_NAME := StringValue ''WSGI handle'',
            PP_REQ_URI := StringValue path, PP_REQ_CLIENT := StringValue remote_addr, PP_REQ_SERVER := StringValue host,
            PP_SERVER_TYPE := StringValue PYTHON))))))))))))
      (PP_TRANSACTION_ID := StringValue tid, PP_SPAN_ID := StringValue sid))"

lemma does_start:
  assumes plain: "plain_environ environ" and key: "environ ''PATH_INFO'' = Some path" "environ ''REMOTE_ADDR'' = Some remote_addr"
      "environ ''HTTP_HOST'' = Some host"
    and b: "text_ok (fst b)" "text_ok (fst (snd b))"
  shows "does (at_root r es b clues ctx st) (startPinpointByEnviron m environ r)
    (\<lambda>_ s. \<exists>sid tid ctx' st'. (\<forall>v. environ PP_HTTP_PINPOINT_SPANID = Some v \<longrightarrow> sid = v) \<and>
      (\<forall>v. environ PP_HTTP_PINPOINT_TRACEID = Some v \<longrightarrow> tid = v) \<and>
      (environ PP_HTTP_PINPOINT_SAMPLED = Some PP_NOT_SAMPLED \<longrightarrow> st' = E_TRACE_BLOCK) \<and>
      at_root r es b (request_clues environ (fst b) (fst (snd b)) path remote_addr host sid tid clues)
        (ctx'(PP_TRANSACTION_ID \<mapsto> StringContext tid, PP_SPAN_ID \<mapsto> StringContext sid)) st' s)"
  (is "does ?P _ ?Q")
proof -
  have texts: "text_ok path" "text_ok remote_addr" "text_ok host" using key plain_environD [OF plain] by blast+
  have gen: "text_ok (gen_sid m)" by (simp add: gen_sid_def)
  have names: "i_app_id s = fst b \<and> i_app_name s = fst (snd b)" if "?P s" for s using that by (auto simp: at_root_def rest_def)
  have "does ?P (start_by_environ (fst b) (fst (snd b)) m environ r) ?Q"
    unfolding start_by_environ_def parent_clues_def
    by (rule does_pure does_ex | rule does_text plug_rules | rule key | simp add: texts b plain gen |
        rule does_done, simp only: request_clues_def Let_def, blast)+
  then show ?thesis using names by (simp add: does_def startPinpointByEnviron_def)
qed

section \<open>One trace through two processes\<close>

definition in_context :: "'d interp \<Rightarrow> node_id \<Rightarrow> string \<Rightarrow> string \<Rightarrow> bool" where
  "in_context s r key val \<longleftrightarrow> tn_context (nd (w_pool (i_world s)) r) key = Some (StringContext val)"

definition sendable :: "string \<Rightarrow> bool" where
  "sendable val \<longleftrightarrow> text_ok val \<and> val \<noteq> [] \<and> length val < 1024"

definition clue :: "'d interp \<Rightarrow> node_id \<Rightarrow> string \<Rightarrow> 'd jvalue" where
  "clue s r key = recorded key (nd (w_pool (i_world s)) r)"

lemma at_root_refl:
  assumes "api_inv (i_world s)" and "w_agent (i_world s) \<noteq> None" and "(r, es) \<in> traces (w_pool (i_world s))"
  shows "at_root r es (rest s) (\<lambda>k. recorded k (nd (w_pool (i_world s)) r)) (tn_context (nd (w_pool (i_world s)) r))
    (GetStatus (nd (w_pool (i_world s)) r)) s"
  using assms by (simp add: at_root_def)

text \<open>
  The environment in which a server finds the headers: according to the gateway interface a header is found under its
  name in capitals, with underscores, behind \<^verbatim>\<open>HTTP_\<close>, and not under its own name.
\<close>

definition carried :: "(string \<rightharpoonup> pyobject) \<Rightarrow> (string \<rightharpoonup> string) \<Rightarrow> bool" where
  "carried hs environ \<longleftrightarrow> plain_environ environ \<and> {''PATH_INFO'', ''REMOTE_ADDR'', ''HTTP_HOST''} \<subseteq> dom environ \<and>
     list_all (\<lambda>(name, variable). environ variable = map_option str (hs name) \<and> environ name = None)
       [(PP_HEADER_PINPOINT_TRACEID, PP_HTTP_PINPOINT_TRACEID), (PP_HEADER_PINPOINT_SPANID, PP_HTTP_PINPOINT_SPANID),
        (PP_HEADER_PINPOINT_PSPANID, PP_HTTP_PINPOINT_PSPANID), (PP_HEADER_PINPOINT_PAPPNAME, PP_HTTP_PINPOINT_PAPPNAME),
        (PP_HEADER_PINPOINT_PAPPTYPE, PP_HTTP_PINPOINT_PAPPTYPE), (PP_HEADER_PINPOINT_HOST, PP_HTTP_PINPOINT_HOST),
        (PP_HEADER_PINPOINT_SAMPLED, PP_HTTP_PINPOINT_SAMPLED)]"

lemma does_generate:
  assumes "nid \<in> set (r # es)"
    and "ctx PP_SERVER_TYPE = Some (StringContext ptype)" "ctx PP_APP_NAME = Some (StringContext pname)"
      "ctx PP_TRANSACTION_ID = Some (StringContext tid)" "ctx PP_SPAN_ID = Some (StringContext sid)"
    and "sendable ptype" "sendable pname" "sendable tid" "sendable sid"
  shows "does (at_root r es b clues ctx st) (generatePinpointHeader m host hs nid)
    (\<lambda>hs' s. hs' = hs (PP_HEADER_PINPOINT_SAMPLED \<mapsto> PyStr PP_SAMPLED, PP_HEADER_PINPOINT_PAPPTYPE \<mapsto> PyStr ptype,
          PP_HEADER_PINPOINT_PAPPNAME \<mapsto> PyStr pname, ''Pinpoint-Flags'' \<mapsto> PyStr ''0'', PP_HEADER_PINPOINT_HOST \<mapsto> PyStr host,
          PP_HEADER_PINPOINT_TRACEID \<mapsto> PyStr tid, PP_HEADER_PINPOINT_PSPANID \<mapsto> PyStr sid,
          PP_HEADER_PINPOINT_SPANID \<mapsto> PyStr (gen_sid m)) \<and>
      at_root r es b clues (ctx(PP_NEXT_SPAN_ID \<mapsto> StringContext (gen_sid m))) st s)"
proof -
  have ok: "text_ok ptype" "ptype \<noteq> []" "length ptype < 1024" "text_ok pname" "pname \<noteq> []" "length pname < 1024"
      "text_ok tid" "tid \<noteq> []" "length tid < 1024" "text_ok sid" "sid \<noteq> []" "length sid < 1024"
    using assms by (auto simp: sendable_def)
  have gen: "text_ok (gen_sid m)" by (simp add: gen_sid_def)
  have nid: "nid = r \<or> nid \<in> set es" using assms(1) by simp
  show ?thesis unfolding generatePinpointHeader_def
    by (rule does_pure | rule does_bind does_then | rule does_get, simp, simp add: nid, rule assms, rule ok, rule ok, rule ok |
        rule does_context, simp, rule gen, simp add: nid | simp add: does_def returnY_def)+
qed

text \<open>The trace at \<open>q\<close> goes on with a transaction: its own span is \<open>nsid\<close>, the span above it is \<open>sid\<close>.\<close>

definition continues :: "'d interp \<Rightarrow> node_id \<Rightarrow> string \<Rightarrow> string \<Rightarrow> string \<Rightarrow> string \<Rightarrow> string \<Rightarrow> string \<Rightarrow> bool" where
  "continues s q tid sid nsid pname ptype host \<longleftrightarrow>
     clue s q PP_TRANSACTION_ID = StringValue tid \<and> clue s q PP_PARENT_SPAN_ID = StringValue sid \<and>
     clue s q PP_SPAN_ID = StringValue nsid \<and> clue s q PP_PARENT_NAME = StringValue pname \<and>
     clue s q PP_PARENT_TYPE = StringValue ptype \<and> clue s q PP_PARENT_HOST = StringValue host \<and>
     in_context s q PP_TRANSACTION_ID tid \<and> in_context s q PP_SPAN_ID nsid"

lemma server_continues:
  assumes c: "carried hs environ" and hs: "hs PP_HEADER_PINPOINT_TRACEID = Some (PyStr tid)" "hs PP_HEADER_PINPOINT_PSPANID = Some (PyStr sid)"
      "hs PP_HEADER_PINPOINT_SPANID = Some (PyStr nsid)" "hs PP_HEADER_PINPOINT_PAPPNAME = Some (PyStr pname)"
      "hs PP_HEADER_PINPOINT_PAPPTYPE = Some (PyStr ptype)" "hs PP_HEADER_PINPOINT_HOST = Some (PyStr host)"
    and server: "api_inv (i_world s)" "w_agent (i_world s) \<noteq> None" "(q, fs) \<in> traces (w_pool (i_world s))"
      "text_ok (i_app_id s)" "text_ok (i_app_name s)"
  shows "\<exists>s'. startPinpointByEnviron m environ q s = Some (Inr (), s') \<and> continues s' q tid sid nsid pname ptype host"
proof -
  have e: "plain_environ environ" "environ PP_HTTP_PINPOINT_TRACEID = Some tid" "environ PP_HTTP_PINPOINT_SPANID = Some nsid"
      "environ PP_HTTP_PINPOINT_PSPANID = Some sid" "environ PP_HTTP_PINPOINT_PAPPNAME = Some pname"
      "environ PP_HTTP_PINPOINT_PAPPTYPE = Some ptype" "environ PP_HTTP_PINPOINT_HOST = Some host"
      "environ PP_HEADER_PINPOINT_PSPANID = None" "environ PP_HEADER_PINPOINT_PAPPNAME = None"
      "environ PP_HEADER_PINPOINT_PAPPTYPE = None" "environ PP_HEADER_PINPOINT_HOST = None"
    using c hs by (simp_all add: carried_def)
  obtain path remote_addr h where k: "environ ''PATH_INFO'' = Some path" "environ ''REMOTE_ADDR'' = Some remote_addr"
      "environ ''HTTP_HOST'' = Some h" using c by (auto simp: carried_def)
  have b: "text_ok (fst (rest s))" "text_ok (fst (snd (rest s)))" using server by (simp_all add: rest_def)
  let ?clues = "request_clues environ (i_app_id s) (i_app_name s) path remote_addr h nsid tid (\<lambda>k. recorded k (nd (w_pool (i_world s)) q))"
  from doesD [OF does_start [OF e(1) k b] at_root_refl [OF server(1-3)], of m]
  obtain s' ctx st where s: "startPinpointByEnviron m environ q s = Some (Inr (), s')"
      "at_root q fs (rest s) ?clues (ctx(PP_TRANSACTION_ID \<mapsto> StringContext tid, PP_SPAN_ID \<mapsto> StringContext nsid)) st s'"
    using e by (auto simp: rest_def)
  then have "clue s' q = ?clues" by (simp add: clue_def fun_eq_iff at_root_def)
  then show ?thesis using s e by (simp add: continues_def request_clues_def put_def at_root_def in_context_def split: option.split)
qed

text \<open>
  C14: A trace goes on in the process that is called.  When a traced request sends the headers of
  \<^verbatim>\<open>generatePinpointHeader\<close> and a server finds them in its environment, the root of the trace of the server carries
  the id of the transaction of the caller, has the span of the caller as its parent, its application name, type and the host that
  was called, and has the very span id that the caller has noted as the next one.
\<close>

theorem distributed_trace:
  assumes caller: "api_inv (i_world sa)" "w_agent (i_world sa) \<noteq> None" "(r, es) \<in> traces (w_pool (i_world sa))" "nid \<in> set (r # es)"
    and known: "in_context sa r PP_SERVER_TYPE ptype" "in_context sa r PP_APP_NAME pname" "in_context sa r PP_TRANSACTION_ID tid"
      "in_context sa r PP_SPAN_ID sid" "sendable ptype" "sendable pname" "sendable tid" "sendable sid"
    and server: "api_inv (i_world sb)" "w_agent (i_world sb) \<noteq> None" "(q, fs) \<in> traces (w_pool (i_world sb))"
      "text_ok (i_app_id sb)" "text_ok (i_app_name sb)"
  shows "\<exists>hs sa'. generatePinpointHeader m host hs0 nid sa = Some (Inr hs, sa') \<and> in_context sa' r PP_NEXT_SPAN_ID (gen_sid m) \<and>
    (\<forall>environ. carried hs environ \<longrightarrow>
      (\<exists>sb'. startPinpointByEnviron m' environ q sb = Some (Inr (), sb') \<and> continues sb' q tid sid (gen_sid m) pname ptype host))"
proof -
  obtain hs sa' where hs: "generatePinpointHeader m host hs0 nid sa = Some (Inr hs, sa')" "in_context sa' r PP_NEXT_SPAN_ID (gen_sid m)"
      "hs PP_HEADER_PINPOINT_TRACEID = Some (PyStr tid)" "hs PP_HEADER_PINPOINT_PSPANID = Some (PyStr sid)"
      "hs PP_HEADER_PINPOINT_SPANID = Some (PyStr (gen_sid m))" "hs PP_HEADER_PINPOINT_PAPPNAME = Some (PyStr pname)"
      "hs PP_HEADER_PINPOINT_PAPPTYPE = Some (PyStr ptype)" "hs PP_HEADER_PINPOINT_HOST = Some (PyStr host)"
    using doesD [OF does_generate [OF caller(4) known(1-4) [unfolded in_context_def] known(5-8)] at_root_refl [OF caller(1-3)]]
    by (fastforce simp: at_root_def in_context_def)
  then show ?thesis using server_continues [OF _ hs(3-8) server, of _ m'] by blast
qed

section \<open>Requests that are not sampled\<close>

lemma end_blocked:
  assumes "at_root r es b clues ctx E_TRACE_BLOCK s"
  shows "\<exists>s'. PinTrace_onEnd pf m (Some r) s = Some (Inr (), s') \<and> i_local s' = 0 \<and> w_spans (i_world s') = w_spans (i_world s) \<and>
    traces (w_pool (i_world s')) = traces (w_pool (i_world s)) - {(r, es)} \<and> api_inv (i_world s')"
proof -
  let ?w = "i_world s"
  have inv: "api_inv ?w" and st: "GetStatus (nd (w_pool ?w) r) = E_TRACE_BLOCK" using assms by (auto simp: at_root_def)
  obtain ag where ag: "w_agent ?w = Some ag" using assms by (auto simp: at_root_def)
  obtain w1 where e: "EndTrace pf (m_now m) (m_clk m) ag r 0 ?w = Some (Inr E_ROOT_NODE, updPool (FreeNodeTree r) w1)"
      "w_spans w1 = w_spans ?w"
    using EndTrace_root [OF at_rootD(1,2) [OF assms] ag, of pf "m_now m" "m_clk m" 0] st by auto
  moreover have "api_inv (updPool (FreeNodeTree r) w1)" "traces (w_pool (updPool (FreeNodeTree r) w1)) = traces (w_pool ?w) - {(r, es)}"
    using EndTrace_root_inv [OF inv at_rootD(2) [OF assms] ag, of pf "m_now m" "m_clk m" 0] e(1) by auto
  ultimately show ?thesis using ag at_rootD(3) [OF assms]
    by (simp add: PinTrace_onEnd_def end_trace_def bindY_def native_def py_pinpoint_end_trace_def or_else_def answer_def pinpoint_end_trace_def
        guarded_def returnY_def set_parent_id_def updPool_def)
qed


section \<open>Servers behind the gateway interface\<close>

lemma before_run:
  assumes inv: "api_inv (i_world s)" and ag: "w_agent (i_world s) = Some ag" and par: "par \<noteq> - 1"
    and run: "StartTrace (agent_type ag) (m_now m) par [] (w_pool (i_world s)) = (res, p)"
  defines "x \<equiv> case res of Inl _ \<Rightarrow> - 1 | Inr y \<Rightarrow> y"
  shows "PinTrace_onBefore m par s = Some (Inr x, s\<lparr>i_world := (i_world s)\<lparr>w_pool := p\<rparr>, i_local := x\<rparr>)"
    and "api_inv ((i_world s)\<lparr>w_pool := p\<rparr>)"
proof -
  have e: "pinpoint_start_traceV1 (m_now m) par [] (i_world s) = Some (x, (i_world s)\<lparr>w_pool := p\<rparr>)"
    using ag run by (simp add: pinpoint_start_traceV1_def guarded_def onPool_def x_def split: sum.splits)
  then show "PinTrace_onBefore m par s = Some (Inr x, s\<lparr>i_world := (i_world s)\<lparr>w_pool := p\<rparr>, i_local := x\<rparr>)"
    using par by (simp add: PinTrace_onBefore_def with_trace_def bindY_def thenY_def native_def py_pinpoint_start_trace_def or_else_def
        answer_def pinpoint_start_trace_def returnY_def set_parent_id_def)
  show "api_inv ((i_world s)\<lparr>w_pool := p\<rparr>)"
    using api_keeps [OF inv, of undefined "Start (m_now m) par []"] e by (simp add: effect_def)
qed

lemma start_root:
  assumes inv: "api_inv (i_world s)" and ag: "w_agent (i_world s) \<noteq> None"
  shows "\<exists>x s'. PinTrace_onBefore m 0 s = Some (Inr x, s') \<and> i_local s' = x \<and> i_app_id s' = i_app_id s \<and> i_app_name s' = i_app_name s \<and>
    api_inv (i_world s') \<and> w_agent (i_world s') \<noteq> None \<and>
    (x = - 1 \<and> exhausted (w_pool (i_world s)) \<and> i_world s' = i_world s \<or>
     (x, []) \<notin> traces (w_pool (i_world s)) \<and> traces (w_pool (i_world s')) = insert (x, []) (traces (w_pool (i_world s))))"
proof -
  obtain ag' where a: "w_agent (i_world s) = Some ag'" using ag by auto
  obtain res p where n: "StartTrace (agent_type ag') (m_now m) 0 [] (w_pool (i_world s)) = (res, p)" by fastforce
  note run = before_run [OF inv a _ n]
  have p: "pool_inv (w_pool (i_world s))" using inv by (simp add: api_inv_def)
  have "new_root (agent_type ag') (m_now m) (w_pool (i_world s)) = (res, p)" using n by (simp add: StartTrace_def)
  from new_root_spec [OF p this] consider "res = Inl Out_of_range" "p = w_pool (i_world s)" "exhausted (w_pool (i_world s))"
    | x where "res = Inr x" "joined (w_pool (i_world s)) x p" "trace_of p x []" "\<forall>r es. trace_of (w_pool (i_world s)) r es \<longrightarrow> trace_of p r es"
    by blast
  then show ?thesis
  proof cases
    case 1
    then show ?thesis using run inv ag by simp
  next
    case (2 x)
    then show ?thesis using run a traces_root [OF p 2(2-4)] by (auto simp: joined_def traces_def trace_of_def grow_def)
  qed
qed

text \<open>
  C31: The WSGI plugin answers no request.  Its \<^verbatim>\<open>onEnd\<close> gives the answer of the application, which is not an
  integer, to \<^verbatim>\<open>end_trace\<close>, so that every request raises a \<^verbatim>\<open>TypeError\<close> in place of the answer, whatever the application returns; and
  the trace that was started for it is never ended: its node is lost to the pool.
\<close>

theorem wsgi_plugin_fails:
  assumes "api_inv (i_world s)" "w_agent (i_world s) \<noteq> None" "\<not> exhausted (w_pool (i_world s))"
    and "text_ok (i_app_id s)" "text_ok (i_app_name s)"
    and "plain_environ environ" "{''PATH_INFO'', ''REMOTE_ADDR'', ''HTTP_HOST''} \<subseteq> dom environ"
    and application: "\<And>s. \<exists>ret s'. application environ s = Some (Inr ret, s') \<and> traces (w_pool (i_world s')) = traces (w_pool (i_world s))"
    and integer: "\<And>ret. integer ret = None"
  shows "\<exists>s' x. WSGIPlugin pf say integer (m, m') application environ s = Some (Inl TypeError, s') \<and>
    (x, []) \<notin> traces (w_pool (i_world s)) \<and> traces (w_pool (i_world s')) = insert (x, []) (traces (w_pool (i_world s)))"
proof -
  obtain x s1 where 1: "PinTrace_onBefore m 0 s = Some (Inr x, s1)" "api_inv (i_world s1)" "w_agent (i_world s1) \<noteq> None"
      "(x, []) \<notin> traces (w_pool (i_world s))" "traces (w_pool (i_world s1)) = insert (x, []) (traces (w_pool (i_world s)))"
      "i_app_id s1 = i_app_id s" "i_app_name s1 = i_app_name s"
    using start_root [OF assms(1,2), of m] assms(3) by auto
  obtain path remote_addr h where k: "environ ''PATH_INFO'' = Some path" "environ ''REMOTE_ADDR'' = Some remote_addr"
      "environ ''HTTP_HOST'' = Some h" using assms(7) by auto
  have b: "text_ok (fst (rest s1))" "text_ok (fst (snd (rest s1)))" using assms(4,5) 1 by (simp_all add: rest_def)
  have "(x, []) \<in> traces (w_pool (i_world s1))" using 1(5) by simp
  from doesD [OF does_start [OF assms(6) k b] at_root_refl [OF 1(2,3) this], of m] obtain s2
    where 2: "startPinpointByEnviron m environ x s1 = Some (Inr (), s2)" "traces (w_pool (i_world s2)) = traces (w_pool (i_world s1))"
    by (auto simp: at_root_def rest_def)
  obtain ret s3 where 3: "application environ s2 = Some (Inr ret, s3)" "traces (w_pool (i_world s3)) = traces (w_pool (i_world s2))"
    using application by blast
  have "WSGIPlugin pf say integer (m, m') application environ s = Some (Inl TypeError, s3)"
    using 1(1) 2(1) 3(1) integer
    by (simp add: WSGIPlugin_def PinTrace_call_def WSGIPlugin_onBefore_def WSGIPlugin_onEnd_def PinTrace_onEnd_def end_trace_def
        py_pinpoint_end_trace_def native_def bindY_def thenY_def returnY_def)
  then show ?thesis using 1(4,5) 2(2) 3(2) by auto
qed

section \<open>Concrete runs\<close>

definition sample_moment :: moment where
  "sample_moment = \<lparr>m_now = 40, m_clk = (\<lambda>_. 40), m_secs = 0, m_rand = 7\<rparr>"

definition sample_interp :: "unit interp" where
  "sample_interp = \<lparr>i_world = sample_world, i_app_id = ''id'', i_app_name = ''app'', i_local = 127\<rparr>"

definition sample_environ :: "string \<rightharpoonup> string" where
  "sample_environ = [''PATH_INFO'' \<mapsto> ''/'', ''REMOTE_ADDR'' \<mapsto> ''10.0.0.1'', ''HTTP_HOST'' \<mapsto> ''b'', PP_HTTP_PINPOINT_TRACEID \<mapsto> ''id^1^2'',
     PP_HTTP_PINPOINT_SPANID \<mapsto> ''7'', PP_HTTP_PINPOINT_PSPANID \<mapsto> ''3'', PP_HTTP_PINPOINT_PAPPNAME \<mapsto> ''app'',
     PP_HTTP_PINPOINT_PAPPTYPE \<mapsto> ''1700'', PP_HTTP_PINPOINT_HOST \<mapsto> ''b'', PP_HTTP_PINPOINT_SAMPLED \<mapsto> ''s1'']"

lemma sample_interp_inv: "api_inv (i_world sample_interp)" "w_agent (i_world sample_interp) \<noteq> None"
  "(128, [127]) \<in> traces (w_pool (i_world sample_interp))" "text_ok (i_app_id sample_interp)" "text_ok (i_app_name sample_interp)"
  "w_current_id (i_world sample_interp) = 0" "i_local sample_interp = 127" "w_pool (i_world sample_interp) = sample_pool"
  using sample_world_inv sample_trace by (simp_all add: sample_interp_def traces_def sample_world_def start_world_def)

lemma sample_environ_plain: "plain_environ sample_environ" "{''PATH_INFO'', ''REMOTE_ADDR'', ''HTTP_HOST''} \<subseteq> dom sample_environ"
  by (simp_all add: plain_environ_def sample_environ_def)

theorem wsgi_plugin_fails_witness:
  "\<exists>s' x. WSGIPlugin (undefined :: unit platform) (\<lambda>_. []) (\<lambda>_. None) (sample_moment, sample_moment) (\<lambda>_. returnY ''hello'') sample_environ
     sample_interp = Some (Inl TypeError, s') \<and> (x, []) \<in> traces (w_pool (i_world s'))"
proof -
  have "\<not> exhausted sample_pool" unfolding sample_pool_def exhausted_def by code_simp
  then show ?thesis
    using wsgi_plugin_fails [of sample_interp sample_environ "\<lambda>_. returnY ''hello''" "\<lambda>_. None" "undefined :: unit platform" "\<lambda>_. []"
        sample_moment sample_moment] sample_interp_inv sample_environ_plain by (auto simp: returnY_def)
qed


text \<open>A caller that knows its transaction.\<close>

definition sample_steps :: "(unit, unit) plug" where
  "sample_steps = allY [add_context PP_SERVER_TYPE ''1700'' 128, add_context PP_APP_NAME ''app'' 128,
     add_context PP_TRANSACTION_ID ''id^1^2'' 128, add_context PP_SPAN_ID ''3'' 128]"

definition sample_caller :: "unit interp" where
  "sample_caller = snd (the (sample_steps sample_interp))"

lemma sample_caller_inv: "\<exists>ctx clues st. at_root 128 [127] (rest sample_interp) clues (ctx(PP_SERVER_TYPE \<mapsto> StringContext ''1700'',
    PP_APP_NAME \<mapsto> StringContext ''app'', PP_TRANSACTION_ID \<mapsto> StringContext ''id^1^2'', PP_SPAN_ID \<mapsto> StringContext ''3'')) st sample_caller"
proof -
  have "does (at_root 128 [127] b clues ctx st) sample_steps (\<lambda>_. at_root 128 [127] b clues (ctx(PP_SERVER_TYPE \<mapsto> StringContext ''1700'',
      PP_APP_NAME \<mapsto> StringContext ''app'', PP_TRANSACTION_ID \<mapsto> StringContext ''id^1^2'', PP_SPAN_ID \<mapsto> StringContext ''3'')) st)" for b clues ctx st
    unfolding sample_steps_def by (rule plug_rules | simp)+
  from doesD [OF this at_root_refl [OF sample_interp_inv(1-3)]] show ?thesis by (metis sample_caller_def option.sel snd_conv)
qed

theorem distributed_trace_witness:
  "\<exists>hs sa' sb'. generatePinpointHeader sample_moment ''b'' Map.empty 127 sample_caller = Some (Inr hs, sa') \<and> carried hs sample_environ \<and>
     startPinpointByEnviron sample_moment sample_environ 128 sample_interp = Some (Inr (), sb') \<and>
     clue sb' 128 PP_TRANSACTION_ID = StringValue ''id^1^2'' \<and> clue sb' 128 PP_PARENT_SPAN_ID = StringValue ''3''"
proof -
  obtain ctx clues st where a: "at_root 128 [127] (rest sample_interp) clues (ctx(PP_SERVER_TYPE \<mapsto> StringContext ''1700'',
    PP_APP_NAME \<mapsto> StringContext ''app'', PP_TRANSACTION_ID \<mapsto> StringContext ''id^1^2'', PP_SPAN_ID \<mapsto> StringContext ''3'')) st sample_caller"
    using sample_caller_inv by blast
  then have c: "api_inv (i_world sample_caller)" "w_agent (i_world sample_caller) \<noteq> None"
      "(128, [127]) \<in> traces (w_pool (i_world sample_caller))" "in_context sample_caller 128 PP_SERVER_TYPE ''1700''"
      "in_context sample_caller 128 PP_APP_NAME ''app''" "in_context sample_caller 128 PP_TRANSACTION_ID ''id^1^2''"
      "in_context sample_caller 128 PP_SPAN_ID ''3''"
    by (simp_all add: at_root_def in_context_def)
  have d: "sendable ''1700''" "sendable ''app''" "sendable ''id^1^2''" "sendable ''3''" by (simp_all add: sendable_def)
  have "char_of (55 :: nat) = CHR ''7''" by code_simp
  then have sid: "gen_sid sample_moment = ''7''" by (simp add: gen_sid_def sample_moment_def print_int_def decimal.simps digit_char_def)
  note g = distributed_trace [OF c(1-3) _ c(4-7) d sample_interp_inv(1-5), of 127 sample_moment "''b''" Map.empty sample_moment]
  obtain hs sa' where hs: "generatePinpointHeader sample_moment ''b'' Map.empty 127 sample_caller = Some (Inr hs, sa')"
      "carried hs sample_environ"
    using doesD [OF does_generate [of 127 128 "[127]"] a, of "''1700''" "''app''" "''id^1^2''" "''3''" sample_moment "''b''" Map.empty] d sid
    by (auto simp: carried_def sample_environ_plain [unfolded sample_environ_def] sample_environ_def)
  then show ?thesis using g by (fastforce simp: continues_def)
qed

end
