(* ===== verification/Python_Calls.thy ===== *)
theory Python_Calls
  imports Python_Traces
begin

text \<open>
  Programs whose functions are decorated with \<^verbatim>\<open>PinpointCommonPlugin\<close>: tracing does not change what they do, and the thread comes
  back to the node it was at.
\<close>

section \<open>Decorated programs\<close>

text \<open>
  A call of a decorated function: its name, the moments at which the plugin reads the clock, the calls it makes, and the
  exception it raises in the end, if any.
\<close>

datatype call = Call string "moment \<times> moment \<times> moment" "call list" "nat option"

definition finish :: "nat option \<Rightarrow> ('d, unit) plug" where
  "finish e = (case e of None \<Rightarrow> returnY () | Some e \<Rightarrow> raiseY (Raised e))"

primrec run_call :: "'d platform \<Rightarrow> (py_exn \<Rightarrow> string) \<Rightarrow> call \<Rightarrow> ('d, unit) plug"
  and run_calls :: "'d platform \<Rightarrow> (py_exn \<Rightarrow> string) \<Rightarrow> call list \<Rightarrow> ('d, unit) plug" where
  "run_call pf say (Call name ms calls e) = PinpointCommonPlugin pf say ms name (\<lambda>_. thenY (run_calls pf say calls) (finish e)) ()"
| "run_calls pf say [] = returnY ()"
| "run_calls pf say (c # calls) = thenY (run_call pf say c) (run_calls pf say calls)"

text \<open>What the program does without the plugin.\<close>

definition and_then :: "py_exn + unit \<Rightarrow> py_exn + unit \<Rightarrow> py_exn + unit" where
  "and_then x y = (case x of Inl e \<Rightarrow> Inl e | Inr _ \<Rightarrow> y)"

primrec undecorated :: "call \<Rightarrow> py_exn + unit" and undecorateds :: "call list \<Rightarrow> py_exn + unit" where
  "undecorated (Call name ms calls e) = and_then (undecorateds calls) (case e of None \<Rightarrow> Inr () | Some e \<Rightarrow> Inl (Raised e))"
| "undecorateds [] = Inr ()"
| "undecorateds (c # calls) = and_then (undecorated c) (undecorateds calls)"

primrec names_ok :: "call \<Rightarrow> bool" and all_names_ok :: "call list \<Rightarrow> bool" where
  "names_ok (Call name ms calls e) \<longleftrightarrow> text_ok name \<and> all_names_ok calls"
| "all_names_ok [] \<longleftrightarrow> True"
| "all_names_ok (c # calls) \<longleftrightarrow> names_ok c \<and> all_names_ok calls"

section \<open>What a run keeps\<close>

text \<open>
  The thread is in the trace \<open>(r, es)\<close>, or has lost it because no node could be had, and does not use the current node of the
  native module.
\<close>

definition in_call :: "node_id \<Rightarrow> node_id list \<Rightarrow> 'd interp \<Rightarrow> bool" where
  "in_call r es s \<longleftrightarrow> api_inv (i_world s) \<and> w_agent (i_world s) \<noteq> None \<and> trace_of (w_pool (i_world s)) r es \<and>
     w_current_id (i_world s) \<le> 0 \<and> (i_local s \<in> set (r # es) \<or> i_local s = - 1)"

definition kept :: "node_id \<Rightarrow> 'd interp \<Rightarrow> 'd interp \<Rightarrow> bool" where
  "kept r s s' \<longleftrightarrow> w_spans (i_world s') = w_spans (i_world s) \<and>
     (\<forall>y. alive (w_pool (i_world s)) y \<longrightarrow> alive (w_pool (i_world s')) y \<and>
       tn_parent_id (nd (w_pool (i_world s')) y) = tn_parent_id (nd (w_pool (i_world s)) y)) \<and>
     (\<forall>r' es'. r' \<noteq> r \<longrightarrow> trace_of (w_pool (i_world s)) r' es' \<longrightarrow> trace_of (w_pool (i_world s')) r' es')"

lemma kept_trans: "kept r s s1 \<Longrightarrow> kept r s1 s2 \<Longrightarrow> kept r s s2"
  by (simp add: kept_def)

definition ran :: "node_id \<Rightarrow> node_id list \<Rightarrow> ('d, 'a) plug \<Rightarrow> py_exn + 'a \<Rightarrow> 'd interp \<Rightarrow> bool" where
  "ran r es m res s \<longleftrightarrow> (\<exists>s' new. m s = Some (res, s') \<and> in_call r (es @ new) s' \<and> kept r s s' \<and> (i_local s' = i_local s \<or> i_local s' = - 1))"

lemma ranI:
  assumes "m s = Some (res, s')" and "in_call r (es @ new) s'" and "kept r s s'" and "i_local s' = i_local s \<or> i_local s' = - 1"
  shows "ran r es m res s"
  using assms by (auto simp: ran_def)

lemma ran_here: "in_call r es s \<Longrightarrow> m s = Some (res, s) \<Longrightarrow> ran r es m res s"
  by (rule ranI [of _ _ _ s _ _ "[]"]) (auto simp: kept_def)

lemma ran_then:
  assumes m: "ran r es m x s" and n: "\<And>s es. in_call r es s \<Longrightarrow> ran r es n y s"
  shows "ran r es (thenY m n) (and_then x y) s"
proof -
  obtain s1 n1 where 1: "m s = Some (x, s1)" "in_call r (es @ n1) s1" "kept r s s1" "i_local s1 = i_local s \<or> i_local s1 = - 1"
    using m by (auto simp: ran_def)
  show ?thesis
  proof (cases x)
    case (Inl e)
    then show ?thesis using 1 by (intro ranI [of _ _ _ s1 _ _ n1]) (auto simp: thenY_def bindY_def and_then_def)
  next
    case (Inr u)
    obtain s2 n2 where 2: "n s1 = Some (y, s2)" "in_call r ((es @ n1) @ n2) s2" "kept r s1 s2" "i_local s2 = i_local s1 \<or> i_local s2 = - 1"
      using n [OF 1(2)] by (auto simp: ran_def)
    then show ?thesis using 1 Inr kept_trans [OF 1(3) 2(3)]
      by (intro ranI [of _ _ _ s2 _ _ "n1 @ n2"]) (auto simp: thenY_def bindY_def and_then_def)
  qed
qed

section \<open>The steps of the decorator\<close>

definition with_pool :: "'d pool \<Rightarrow> 'd interp \<Rightarrow> 'd interp" where
  "with_pool p s = s\<lparr>i_world := (i_world s)\<lparr>w_pool := p\<rparr>\<rparr>"

lemma with_pool_keeps:
  assumes "in_call r es s" and "frame (w_pool (i_world s)) p"
  shows "in_call r es (with_pool p s) \<and> kept r s (with_pool p s) \<and> i_local (with_pool p s) = i_local s \<and>
    (\<forall>x. alive (w_pool (i_world s)) x \<longrightarrow> tn_parent_id (nd p x) = tn_parent_id (nd (w_pool (i_world s)) x))"
proof -
  have "alive p x \<and> tn_parent_id (nd p x) = tn_parent_id (nd (w_pool (i_world s)) x)" if "alive (w_pool (i_world s)) x" for x
    using frame_alive [OF assms(2)] frame_node(1) [OF assms(2) alive_in_range [OF that]] that by (simp add: place_def)
  then show ?thesis
    using assms still_inv [OF still_pool [OF assms(2)]] frame_trace [OF assms(2)] by (auto simp: with_pool_def in_call_def kept_def)
qed

lemma native_frame:
  assumes "\<And>w. f w = answer g (guarded d (\<lambda>ag. onPool (m w)) w)" and "\<And>w p. pool_shape p \<Longrightarrow> frame p (snd (m w p))"
    and "pool_shape (w_pool (i_world s))"
  shows "\<exists>p. ignore (native f) s = Some (Inr (), with_pool p s) \<and> frame (w_pool (i_world s)) p"
proof (cases "w_agent (i_world s)")
  case None
  then show ?thesis using assms(1,3)
    by (intro exI [of _ "w_pool (i_world s)"])
      (simp add: ignore_def bindY_def native_def answer_def guarded_def with_pool_def returnY_def frame_refl)
next
  case (Some ag)
  then show ?thesis using assms
    by (intro exI [of _ "snd (m (i_world s) (w_pool (i_world s)))"])
      (auto simp: ignore_def bindY_def native_def answer_def guarded_def onPool_def with_pool_def returnY_def split: prod.splits sum.splits)
qed

lemma header_frame:
  assumes "text_ok key" and "text_ok val" and "pool_shape (w_pool (i_world s))"
  shows "\<exists>p. add_trace_header key val x loc s = Some (Inr (), with_pool p s) \<and> frame (w_pool (i_world s)) p"
proof -
  let ?m = "\<lambda>w. AnnotateTrace_V1 (node_meant (Some x) w) key val (or_else 0 (Some loc))"
  have "\<exists>p. ignore (native (py_pinpoint_add_clue (Some (key, val, Some x, Some loc)))) s = Some (Inr (), with_pool p s) \<and> frame (w_pool (i_world s)) p"
    by (rule native_frame [where m = ?m, OF _ recording_frames(1) assms(3)]) (simp_all add: py_pinpoint_add_clue_def pinpoint_add_clue_def)
  then show ?thesis using assms(1,2) by (simp add: add_trace_header_def native_text_def)
qed

lemma exception_frame:
  assumes "text_ok msg" and "pool_shape (w_pool (i_world s))"
  shows "\<exists>p. add_exception m msg x s = Some (Inr (), with_pool p s) \<and> frame (w_pool (i_world s)) p"
proof -
  let ?m = "\<lambda>w. AnnotateExceptionTrace (m_now m) (node_meant (Some x) w) msg"
  have "\<exists>p. ignore (native (py_pinpoint_add_exception (m_now m) (Some (msg, Some x)))) s = Some (Inr (), with_pool p s) \<and>
      frame (w_pool (i_world s)) p"
    by (rule native_frame [where m = ?m, OF _ recording_frames(7) assms(2)]) (simp_all add: py_pinpoint_add_exception_def pinpoint_add_exception_def)
  then show ?thesis using assms(1) by (simp add: add_exception_def native_text_def)
qed

lemma in_call_shape: "in_call r es s \<Longrightarrow> pool_shape (w_pool (i_world s))"
  by (simp add: in_call_def api_inv_def pool_inv_def)

lemma start_node:
  assumes c: "in_call r es s" and par: "i_local s \<in> set (r # es)"
  shows "\<exists>x s'. PinTrace_onBefore m (i_local s) s = Some (Inr x, s') \<and> kept r s s' \<and> i_local s' = x \<and>
    (x = - 1 \<and> in_call r es s' \<or>
     in_call r (es @ [x]) s' \<and> tn_parent_id (nd (w_pool (i_world s')) x) = i_local s)"
proof -
  let ?p = "w_pool (i_world s)"
  have inv: "api_inv (i_world s)" "pool_inv ?p" and t: "trace_of ?p r es" using c by (auto simp: in_call_def api_inv_def)
  obtain ag where ag: "w_agent (i_world s) = Some ag" using c by (auto simp: in_call_def)
  have "alive ?p (i_local s)" using t par by (auto simp: trace_of_def)
  then have n1: "i_local s \<noteq> - 1" using not_alive_invalid by metis
  obtain res p where n: "StartTrace (agent_type ag) (m_now m) (i_local s) [] ?p = (res, p)" by fastforce
  note run = before_run [OF inv(1) ag n1 n]
  from start_event_spec [OF inv(2) t par n] show ?thesis
  proof (elim disjE exE conjE)
    assume "res = Inl Out_of_range" "p = ?p"
    then show ?thesis using run c by (simp add: in_call_def kept_def)
  next
    fix x
    assume x: "joined ?p x p" "trace_of p r (es @ [x])" "\<forall>r' es'. r' \<noteq> r \<longrightarrow> trace_of ?p r' es' \<longrightarrow> trace_of p r' es'"
      "tn_parent_id (nd p x) = i_local s" "res = map_sum (\<lambda>e. e) (\<lambda>_. x) (fst (setNodeUserOption [] (new_TraceNode :: 'a trace_node)))"
    then show ?thesis using run c by (simp add: in_call_def kept_def joined_def)
  qed
qed

lemma before_call:
  assumes c: "in_call r es s" and par: "i_local s \<in> set (r # es)" and name: "text_ok name"
  shows "\<exists>x s'. PinpointCommonPlugin_onBefore m name (i_local s) args s = Some (Inr (x, args), s') \<and> kept r s s' \<and> i_local s' = x \<and>
    (x = - 1 \<and> in_call r es s' \<or> in_call r (es @ [x]) s' \<and> tn_parent_id (nd (w_pool (i_world s')) x) = i_local s)"
proof -
  obtain x s1 where 1: "PinTrace_onBefore m (i_local s) s = Some (Inr x, s1)" "kept r s s1" "i_local s1 = x"
      "x = - 1 \<and> in_call r es s1 \<or> in_call r (es @ [x]) s1 \<and> tn_parent_id (nd (w_pool (i_world s1)) x) = i_local s"
    using start_node [OF c par, of m] by blast
  then have sh: "pool_shape (w_pool (i_world s1))" using in_call_shape by blast
  obtain p where p: "add_trace_header PP_INTERCEPTOR_NAME name x 0 s1 = Some (Inr (), with_pool p s1)" "frame (w_pool (i_world s1)) p"
    using header_frame [OF _ name sh, of PP_INTERCEPTOR_NAME x 0] by auto
  obtain q where q: "add_trace_header PP_SERVER_TYPE PP_METHOD_CALL x 0 (with_pool p s1) = Some (Inr (), with_pool q s1)" "frame p q"
    using header_frame [of PP_SERVER_TYPE PP_METHOD_CALL "with_pool p s1" x 0] frame_shape [OF p(2)] by (auto simp: with_pool_def)
  note f = frame_trans [OF p(2) q(2)]
  have "PinpointCommonPlugin_onBefore m name (i_local s) args s = Some (Inr (x, args), with_pool q s1)"
    using 1(1) p(1) q(1) by (simp add: PinpointCommonPlugin_onBefore_def bindY_def thenY_def allY.simps returnY_def)
  moreover have "alive (w_pool (i_world s1)) x" if "in_call r (es @ [x]) s1" using that by (simp add: in_call_def trace_of_def)
  ultimately show ?thesis
    using 1 with_pool_keeps [OF _ f] kept_trans [OF 1(2)] by (auto simp: with_pool_def)
qed

lemma after_call:
  assumes c: "in_call r es s" and x: "x = - 1 \<or> x \<in> set es"
  shows "\<exists>s'. PinTrace_onEnd pf m (Some x) s = Some (Inr (), s') \<and> in_call r es s' \<and> kept r s s' \<and>
    i_local s' = (if x = - 1 then - 1 else tn_parent_id (nd (w_pool (i_world s)) x))"
proof (cases "x = - 1")
  case True
  have "\<not> alive (w_pool (i_world s)) (w_current_id (i_world s))" using c alive_pos by (fastforce simp: in_call_def)
  then have "pinpoint_end_trace pf (m_now m) (m_clk m) (w_current_id (i_world s)) (i_world s) = Some (- 1, i_world s)"
    by (simp add: pinpoint_end_trace_def guarded_def EndTrace_dead split: option.splits)
  then have "PinTrace_onEnd pf m (Some x) s = Some (Inr (), s\<lparr>i_world := (i_world s)\<lparr>w_current_id := - 1\<rparr>, i_local := - 1\<rparr>)"
    using True by (simp add: PinTrace_onEnd_def end_trace_def bindY_def native_def py_pinpoint_end_trace_def or_else_def answer_def returnY_def
        end_thread_local_trace_def pinpoint_get_per_thread_id_def pinpoint_update_per_thread_id_def set_parent_id_def)
  moreover have "api_inv ((i_world s)\<lparr>w_current_id := - 1\<rparr>)"
    using c update_inv [of "- 1" "i_world s"] by (simp add: in_call_def pinpoint_update_per_thread_id_def)
  ultimately show ?thesis using c True by (simp add: in_call_def kept_def)
next
  case False
  let ?p = "w_pool (i_world s)"
  have xs: "x \<in> set es" and t: "trace_of ?p r es" and inv: "api_inv (i_world s)" using x False c by (auto simp: in_call_def)
  obtain ag where ag: "w_agent (i_world s) = Some ag" using c by (auto simp: in_call_def)
  obtain w where w: "EndTrace pf (m_now m) (m_clk m) ag x 0 (i_world s) = Some (Inr (tn_parent_id (nd ?p x)), w)" "still (i_world s) w"
      "w_spans w = w_spans (i_world s)" "w_current_id w = w_current_id (i_world s)"
    using EndTrace_event [OF _ t xs, of pf "m_now m" "m_clk m" ag 0] inv by (auto simp: api_inv_def)
  obtain j where j: "j < length es" "x = es ! j" using xs by (auto simp: in_set_conv_nth)
  then have "tn_parent_id (nd ?p x) \<in> set (r # take j es)" using t by (auto simp: trace_of_def event_ok_def)
  then have par: "tn_parent_id (nd ?p x) \<in> set (r # es)" using set_take_subset [of j es] by auto
  have f: "frame ?p (w_pool w)" using w(2) by (simp add: still_def)
  have "alive (w_pool w) y \<and> tn_parent_id (nd (w_pool w) y) = tn_parent_id (nd ?p y)" if "alive ?p y" for y
    using frame_alive [OF f] frame_node(1) [OF f alive_in_range [OF that]] that by (simp add: place_def)
  moreover have "PinTrace_onEnd pf m (Some x) s = Some (Inr (), s\<lparr>i_world := w, i_local := tn_parent_id (nd ?p x)\<rparr>)"
    using False w(1) ag by (simp add: PinTrace_onEnd_def end_trace_def bindY_def native_def py_pinpoint_end_trace_def or_else_def answer_def returnY_def
        pinpoint_end_trace_def guarded_def set_parent_id_def)
  ultimately show ?thesis
    using False c par still_inv [OF w(2) inv] frame_trace [OF f] w(3,4) by (auto simp: in_call_def kept_def)
qed

section \<open>The decorator\<close>

text \<open>The end of a decorated call, after the body has left the trace with the events \<open>es\<close>.\<close>

lemma end_call:
  fixes res :: "py_exn + unit"
  assumes c: "in_call r es s" and x: "x = - 1 \<or> x \<in> set es" and say: "\<And>e. text_ok (say e)"
  shows "\<exists>s'. (case res of
      Inr ret \<Rightarrow> thenY (PinpointCommonPlugin_onEnd pf m3 x (Some ret)) (returnY ret) s
    | Inl e \<Rightarrow> (case PinpointCommonPlugin_onException say m2 x e s of
        None \<Rightarrow> None
      | Some (y, s) \<Rightarrow> thenY (PinpointCommonPlugin_onEnd pf m3 x (None :: unit option)) (raiseY (case y of Inl e' \<Rightarrow> e' | Inr _ \<Rightarrow> e)) s)) =
      Some (res, s') \<and> in_call r es s' \<and> kept r s s' \<and>
    i_local s' = (if x = - 1 then - 1 else tn_parent_id (nd (w_pool (i_world s)) x))"
proof (cases res)
  case (Inr u)
  then show ?thesis using after_call [OF c x, of pf m3]
    by (auto simp: PinpointCommonPlugin_onEnd_def thenY_def bindY_def returnY_def)
next
  case (Inl e)
  obtain p where p: "add_exception m2 (say e) x s = Some (Inr (), with_pool p s)" "frame (w_pool (i_world s)) p"
    using exception_frame [OF say in_call_shape [OF c], of m2 e x] by blast
  note k = with_pool_keeps [OF c p(2)]
  obtain s' where s': "PinTrace_onEnd pf m3 (Some x) (with_pool p s) = Some (Inr (), s')" "in_call r es s'" "kept r (with_pool p s) s'"
      "i_local s' = (if x = - 1 then - 1 else tn_parent_id (nd p x))"
    using after_call [of r es "with_pool p s" x pf m3] k x by (auto simp: with_pool_def)
  have "alive (w_pool (i_world s)) x" if "x \<in> set es" using c that by (simp add: in_call_def trace_of_def)
  then have "i_local s' = (if x = - 1 then - 1 else tn_parent_id (nd (w_pool (i_world s)) x))" using s'(4) k x by auto
  then show ?thesis using s' k kept_trans [of r s "with_pool p s" s'] p(1) Inl
    by (simp add: PinpointCommonPlugin_onException_def PinpointCommonPlugin_onEnd_def thenY_def bindY_def raiseY_def)
qed

lemma decorated:
  fixes body :: "('d, unit) plug"
  assumes body: "\<And>s es. in_call r es s \<Longrightarrow> ran r es body res s"
    and c: "in_call r es s" and name: "text_ok name" and say: "\<And>e. text_ok (say e)"
  shows "ran r es (PinpointCommonPlugin pf say ms name (\<lambda>_. body) ()) res s"
proof -
  obtain m1 m2 m3 where ms: "ms = (m1, m2, m3)" by (cases ms)
  note unfold = PinpointCommonPlugin_def ms PinTrace_call_def PinTrace_isSample_def get_parent_id_def bindY_def [of _ _ s] returnY_def
  show ?thesis
  proof (cases "0 < i_local s")
    case False
    then have "PinpointCommonPlugin pf say ms name (\<lambda>_. body) () s = body s" by (simp add: unfold)
    then show ?thesis using body [OF c] by (simp add: ran_def)
  next
    case True
    then have par: "i_local s \<in> set (r # es)" using c by (auto simp: in_call_def)
    obtain x s1 where 1: "PinpointCommonPlugin_onBefore m1 name (i_local s) () s = Some (Inr (x, ()), s1)" "kept r s s1" "i_local s1 = x"
        "x = - 1 \<and> in_call r es s1 \<or> in_call r (es @ [x]) s1 \<and> tn_parent_id (nd (w_pool (i_world s1)) x) = i_local s"
      using before_call [OF c par name, of m1 "()"] by blast
    define es1 where "es1 = (if x = - 1 then es else es @ [x])"
    have x1: "x \<noteq> - 1" if "in_call r (es @ [x]) s1"
      using that not_alive_invalid [of "w_pool (i_world s1)"] by (auto simp: in_call_def trace_of_def)
    have c1: "in_call r es1 s1" using 1(4) x1 by (auto simp: es1_def)
    obtain s2 new where 2: "body s1 = Some (res, s2)" "in_call r (es1 @ new) s2" "kept r s1 s2"
      using body [OF c1] by (auto simp: ran_def)
    have "x = - 1 \<or> x \<in> set (es1 @ new)" by (simp add: es1_def)
    from end_call [where res = res and pf = pf and say = say and ?m3.0 = m3 and ?m2.0 = m2, OF 2(2) this say] obtain s3 where 3: "in_call r (es1 @ new) s3" "kept r s2 s3"
        "i_local s3 = (if x = - 1 then - 1 else tn_parent_id (nd (w_pool (i_world s2)) x))"
        "PinpointCommonPlugin pf say ms name (\<lambda>_. body) () s = Some (res, s3)"
      using True 1(1) 2(1) by (auto simp: unfold split: sum.splits)
    have "tn_parent_id (nd (w_pool (i_world s2)) x) = i_local s" if "x \<noteq> - 1"
      using that 1(4) 2(3) by (auto simp: kept_def in_call_def trace_of_def)
    then show ?thesis
      using 3 kept_trans [OF 1(2) kept_trans [OF 2(3) 3(2)]]
      by (intro ranI [of _ _ _ s3 _ _ "drop (length es) (es1 @ new)"]) (auto simp: es1_def)
  qed
qed

lemma finish_ran: "in_call r es s \<Longrightarrow> ran r es (finish e) (case e of None \<Rightarrow> Inr () | Some e \<Rightarrow> Inl (Raised e)) s"
  by (rule ran_here) (auto simp: finish_def returnY_def raiseY_def split: option.splits)

lemma calls_ran:
  assumes "\<And>c s es. c \<in> set calls \<Longrightarrow> names_ok c \<Longrightarrow> in_call r es s \<Longrightarrow> ran r es (run_call pf say c) (undecorated c) s"
    and "all_names_ok calls" and "in_call r es s"
  shows "ran r es (run_calls pf say calls) (undecorateds calls) s"
  using assms
proof (induction calls arbitrary: s es)
  case Nil
  then show ?case by (auto intro: ran_here simp: returnY_def)
next
  case (Cons c calls)
  have "ran r es (thenY (run_call pf say c) (run_calls pf say calls)) (and_then (undecorated c) (undecorateds calls)) s"
    using Cons by (intro ran_then) auto
  then show ?case by simp
qed

lemma call_ran:
  assumes "\<And>e. text_ok (say e)" and "names_ok c" and "in_call r es s"
  shows "ran r es (run_call pf say c) (undecorated c) s"
  using assms(2,3)
proof (induction c arbitrary: s es)
  case (Call name ms calls e)
  have "ran r es (thenY (run_calls pf say calls) (finish e))
      (and_then (undecorateds calls) (case e of None \<Rightarrow> Inr () | Some e \<Rightarrow> Inl (Raised e))) s" if "in_call r es s" for s :: "'a interp" and es
    using that Call.IH Call.prems(1) by (intro ran_then calls_ran finish_ran) auto
  then show ?case using decorated [OF _ Call.prems(2), of "thenY (run_calls pf say calls) (finish e)"] Call.prems(1) assms(1) by simp
qed



end
