(* ===== verification/Spec2Isabelle.thy ===== *)
theory Spec2Isabelle
  imports Agent_Safety Json_Roundtrip Collector_Accept Client_Safety Greeting Sender_Safety Stats_Exact
    Json_Ops Fast_Writer Python_Calls
begin

text \<open>
  The pinpoint C agent and its collector agent.

  \<^bold>\<open>The program.\<close>  An application that is to be traced links a C++ library
  (\<^verbatim>\<open>src/common\<close>) through a C interface (\<^verbatim>\<open>src/common/include/pinpoint/common.h\<close>).  The library records a
  request as a tree of nodes taken from a pool, turns the finished tree into a JSON object (a span),
  puts the text of the span into a send buffer and writes the buffer to a socket whenever it is
  polled.  At the other end of the socket runs the collector agent, a server written in Go
  (\<^verbatim>\<open>src/collector-agent\<close>): it greets a client with its version and a time, cuts what the client sends
  into packets, decodes each packet into a span, finds or creates the agent of the span's application,
  and that agent counts the span, analyses its errors and sends it to the backend in a message in
  which names have been replaced by registered numbers.

  \<^bold>\<open>The theories\<close>, from the bottom up.

  \<^item> \<open>PP_Prelude\<close>: machine integers, results of C++ calls (a value or an exception, \<open>None\<close> when a call does
    not end), the C library routines the sources use, decimal numerals, list lemmas.
  \<^item> \<open>Proc_State\<close> (\<^verbatim>\<open>Cache/State.h\<close>, \<^verbatim>\<open>State.cpp\<close>): sampling, unique ids, start time.  In every second
    exactly as many requests pass as the limit allows; ids are distinct until 64 bits wrap around; the
    locale \<open>start_latch\<close> is the contract of the start time.
  \<^item> \<open>Version\<close> (\<^verbatim>\<open>compare_version\<close> of \<^verbatim>\<open>common.cpp\<close>): the comparison is the numerical one of the parts, and
    a total preorder on arbitrary strings.
  \<^item> \<open>Json_Value\<close>, \<open>Json_Writer\<close>, \<open>Json_Reader\<close> (\<^verbatim>\<open>jsoncpp/lib_json\<close>, \<^verbatim>\<open>Cache/NodeTreeWriter.h\<close>): values,
    the stream writer with the settings of the agent, and \<^verbatim>\<open>OurReader\<close>; the locale \<open>member_map\<close> is the
    contract of the map behind an object.  \<open>Reader_Total\<close> shows that reading ends on every document and
    delivers a well-formed value, \<open>Json_Strings\<close> and \<open>Json_Roundtrip\<close> that every value the agent can print is
    read back, for which numbers, and where the reader accepts more than JSON.
  \<^item> \<open>Json_Ops\<close>, \<open>Fast_Writer\<close> (the rest of \<^verbatim>\<open>json_value.cpp\<close> and \<^verbatim>\<open>FastWriter\<close> of \<^verbatim>\<open>json_writer.cpp\<close>): the order of
    values is a strict weak order that agrees with equality, a conversion throws exactly when
    \<^verbatim>\<open>isConvertibleTo\<close> denies it, inserting into and removing from arrays are inverse, and the older writer prints the same text.
  \<^item> \<open>Trace_Node\<close>, \<open>Node_Pool\<close> (\<^verbatim>\<open>NodePool/TraceNode.*\<close>, \<^verbatim>\<open>PoolManager.*\<close>, \<^verbatim>\<open>Context/ContextType.h\<close>): nodes and
    the pool.  \<open>Pool_Invariant\<close>: flags, free list and cells agree and the nodes in use fall into traces;
    every operation keeps that.  \<open>Trace_Encoding\<close>: the loop that encodes a trace ends, and the span holds
    the events in order.
  \<^item> \<open>Agent_Trace\<close>, \<open>Span_Agent\<close>, \<open>Agent_Api\<close> (class \<^verbatim>\<open>Agent\<close> and the C interface in \<^verbatim>\<open>common.cpp\<close>,
    \<^verbatim>\<open>ConnectionPool/SpanConnectionPool.h\<close>): starting, annotating and ending traces, the connections, the
    greeting, and every function of the interface with its catch-all.  \<open>Agent_Inv\<close>, \<open>Agent_Safety\<close>: every
    sequence of calls with any arguments keeps the invariant of the process, ending a trace removes exactly its
    nodes, the span that is sent is the trace, and where a trace is leaked.
  \<^item> \<open>Python_Api\<close> (\<^verbatim>\<open>src/PY/_pinpoint_py.cpp\<close>): the functions of the Python module and the current node of a
    thread.  Every program keeps the invariant, starting and ending an event return to the same node, and a start that
    fails stops the tracing of its thread.
  \<^item> \<open>Python_Plugin\<close> (\<^verbatim>\<open>plugins/PY/pinpointPy\<close>: \<^verbatim>\<open>pinpoint.py\<close>, \<^verbatim>\<open>TraceContext.py\<close>, \<^verbatim>\<open>Common.py\<close>, \<^verbatim>\<open>CommonPlugin.py\<close>,
    \<^verbatim>\<open>Helper.py\<close>, \<^verbatim>\<open>WSGIPlugin.py\<close>, \<^verbatim>\<open>libs/_requests\<close>): the decorators of the Python agent and the headers that connect two processes.
    \<open>Python_Traces\<close>: the headers of a caller make the trace of the server a part of its transaction, requests that are not
    sampled send nothing, and the gateway plugin never answers.  \<open>Python_Calls\<close>: a program of traced functions does what it does without tracing.
  \<^item> \<open>Chunks\<close> (\<^verbatim>\<open>Cache/Chunk.*\<close>): the send buffer as a queue of bytes within its memory limit; the locale
    \<open>sink\<close> is what it needs of the function that writes.  \<open>Trans_Layer\<close> (\<^verbatim>\<open>ConnectionPool/TransLayer.*\<close>,
    \<^verbatim>\<open>sockets.h\<close>): dialling, polling, sending, receiving, framing.  \<open>Layer_Streams\<close>: the socket is such a
    sink, bytes leave in order and are not lost while the connection lives, messages arrive whole in any
    segmentation, waiting is bounded.
  \<^item> \<open>Collector_Server\<close>, \<open>Collector_Accept\<close> (\<^verbatim>\<open>server/Server.go\<close>): a client connection; the accept loop and the
    shutdown as interleaved atomic actions, with the limit on connections as an invariant.
    \<open>Collector_Stream\<close>: packets are served in order in any segmentation.  \<open>Client_Safety\<close>: the same for clients
    that send anything; the locale \<open>packet_router\<close> is the contract with the router.
  \<^item> \<open>Collector_Span\<close>, \<open>Collector_Stats\<close>, \<open>Collector_Sender\<close>, \<open>Collector_Router\<close> (\<^verbatim>\<open>agent/AgentRouter.go\<close>,
    \<^verbatim>\<open>common/Utils.go\<close>, \<^verbatim>\<open>agent/RequestCounter.go\<close>, \<^verbatim>\<open>UrlTemplate.go\<close>, \<^verbatim>\<open>ErrorAnalysis.go\<close>, \<^verbatim>\<open>SpanSender.go\<close>,
    \<^verbatim>\<open>GrpcAgent.go\<close>): spans, statistics, filters, router.  \<open>Stats_Exact\<close>: the report per URL template is the
    summary of its spans.  \<open>Sender_Safety\<close>: numbers are of the type of their name, stand for one name, and are
    registered before they are used.  \<open>Router_Safety\<close>: under every interleaving of clients, agents, clean-up
    and shutdown there is one agent in service per application.
  \<^item> \<open>Greeting\<close> and this theory: the two programs together, over one wire.

  \<^bold>\<open>How code becomes definitions.\<close>  A definition has the name of the function it translates; a class or
  struct is a record, an enumeration a datatype, \<^verbatim>\<open>uint32_t\<close> and the like are words of that width, a
  \<^verbatim>\<open>std::map\<close> is an ordered list of members or a map.  An exception is the left summand of a result, and
  the state at the throw is kept.  A clock reading, an allocation, an answer of the operating system or
  of the backend is an argument or is taken from a list over which the theorems quantify, so that they
  hold for every behaviour of the environment.  Libraries that are not part of the sources are arguments:
  floating-point conversion, \<^verbatim>\<open>json.Unmarshal\<close>, \<^verbatim>\<open>murmur3\<close>.

  \<^bold>\<open>Loops, bounds and fuel.\<close>  Loops over lists are structural recursions; loops over offsets have
  termination proofs.  Loops of the sources that could run for ever (draining, encoding, freeing, serving
  a client, ending a trace by force) are partial functions into an option, and theorems show that they
  return a result.  The only fuel is that of the reader, twice the length of the document and two more:
  every call but the first is made behind at least one more character, and \<open>Reader_Total\<close> proves that it never runs out.
  The limits in the theorems are those of the code: 2^30 bytes for a span (the arithmetic of the buffer),
  4088 bytes for the body of a message to the agent (its receive buffer less the header), 2147483640 bytes for the
  buffer of the server (32-bit offsets), half of that buffer for a packet that is served in any
  segmentation.

  \<^bold>\<open>Not modelled.\<close>  Comments attached to JSON values, and the parts of the JSON library that the agent does not
  use: the deprecated reader and styled writers, iterators, paths, and sparse arrays.  Logging, which only prints.  Threads within the C++ library: depending
  on how it is built, the pool belongs to a thread or is shared under a lock taken by every pool operation; the
  model is the run of one thread.  The gRPC
  streams of the collector agent (ping, commands, statistics), whose code consists of calls to generated stubs,
  and its configuration and main program.  The PHP extension, which consists of macros and
  structures of the Zend engine, which are not part of the sources, and of the Python extension the unpacking of
  arguments by CPython, the table and initialisation of the module and its debug switch.  Of the Python plugins those for single
  frameworks and libraries, which move values between the objects of third-party packages and the functions modelled here, the asynchronous variants of
  the decorators, and the patching of modules.
\<close>

section \<open>The two programs together\<close>

text \<open>
  C12: The handshake.  What the server writes on a new connection, its greeting with a version of
  printable characters, is understood by the agent, however the network cuts it.  An agent that has
  no start time yet takes over the time of the server, the one the server remembers as its last, and
  is ready; a server older than 0.7.0 is refused, so that the connection is given up and nothing changes.
\<close>

theorem handshake:
  assumes "plain Version" and "genHello Version clock s = Some (h, s')" and "length h \<le> 4088"
    and "writable c" and "c_sent c = []"
    and "[] \<notin> set ds" and "concat ds = c_sent (snd (respToClient 0 h c))" and "k_recvs (kern n) = segments ds"
    and "in_buf (layer n) = []" and "msgRouteMap (layer n) = [0 \<mapsto> HelloMsg]" and "\<not> IsReady (env n)"
  shows "\<exists>n'. if compare_version Version ''v0.7.0'' < 0
    then recvByteStream (agent_callbacks pf) n = (Inr (- 1), n') \<and> env n' = env n
    else recvByteStream (agent_callbacks pf) n = (Inr 0, n') \<and> IsReady (env n') \<and> GetStartTime (env n') = lastTime s' \<and>
      in_buf (layer n') = []"
proof -
  let ?old = "compare_version Version ''v0.7.0'' < 0"
  have stream: "concat ds = packets [(0, h)]"
    using respToClient_packet [OF assms(4), of h 0] assms(3,5,7) by auto
  have "incomplete []" by (simp add: incomplete_def)
  moreover have "deliver (agent_callbacks pf) [0 \<mapsto> HelloMsg] [(0, h)] (env n) =
      (if ?old then (Inr (- 1), env n) else (Inr 0, SetStartTime (lastTime s') (env n)))"
    using greeting_taken [OF assms(1,2,11), of pf] by (simp add: agent_callbacks_def)
  ultimately obtain buf k where "recv_loop (agent_callbacks pf) [0 \<mapsto> HelloMsg] [] (kern n) (env n) =
      (Inr (if ?old then - 1 else 0), buf, k, if ?old then env n else SetStartTime (lastTime s') (env n))" "\<not> ?old \<longrightarrow> buf = []"
    using recv_loop_stream [OF assms(8,6), of "[]" "[(0, h)]" "[]" "agent_callbacks pf" "[0 \<mapsto> HelloMsg]" "env n"] stream assms(3)
    by (cases ?old) auto
  then show ?thesis
    using assms(9-11) by (cases ?old) (auto simp: recvByteStream_def SetStartTime_def IsReady_def GetStartTime_def)
qed

text \<open>
  A connected agent with an empty buffer; the greeting of a server of version 0.8.0, and the agent it
  reaches in two pieces.
\<close>

definition connected :: "(int \<rightharpoonup> 'h) \<Rightarrow> 'h trans_layer" where
  "connected route =
     \<lparr>co_host = ''tcp:localhost:9999'', t_chunks = empty_chunks, t_state = 7, in_buf = [], statusChangedCallback = None,
      msgRouteMap = route, lastConnectTime = 0, c_fd = 3\<rparr>"

lemma connected_inv: "layer_inv (connected route)"
  using empty_chunks_inv by (simp add: layer_inv_def connected_def)

definition hello_text :: string where
  "hello_text = fst (the (genHello ''v0.8.0'' [5] (CreateServer 1)))"

definition listening :: "(msg_handler, process_state) net" where
  "listening =
     \<lparr>layer = connected [0 \<mapsto> HelloMsg],
      kern = quiet_kernel\<lparr>k_recvs := segments [take 3 (packet (0, hello_text)), drop 3 (packet (0, hello_text))]\<rparr>,
      env = ProcessState 1 10\<rparr>"

theorem handshake_witness:
  "\<exists>n'. recvByteStream (agent_callbacks (undefined :: unit platform)) listening = (Inr 0, n') \<and> GetStartTime (env n') = 5"
proof -
  let ?c = "\<lparr>c_writes = [], c_sent = [], c_open = True\<rparr>" and ?p = "packet (0, hello_text)"
  have len: "length hello_text \<le> 4088" by code_simp
  have w: "writable ?c" by (simp add: writable_def)
  have h: "genHello ''v0.8.0'' [5] (CreateServer 1) = Some (hello_text, (CreateServer 1)\<lparr>lastTime := 5\<rparr>)"
    by (simp add: hello_text_def genHello_def CreateServer_def)
  have p: "c_sent (snd (respToClient 0 hello_text ?c)) = ?p"
    using respToClient_packet [OF w, of hello_text 0] len by auto
  have ne: "[] \<notin> set [take 3 ?p, drop 3 ?p]" by (simp add: packet_def header_def htonl_def)
  have v: "plain ''v0.8.0''" "\<not> compare_version ''v0.8.0'' ''v0.7.0'' < 0"
    by (simp_all add: plain_char_def compare_version_def skip_v_def compare_parts_eq parts_step next_version_part_def
        strtoul_def sign_split_def isspace_def isdigit_def less_eq_char_def digit_of_def)
  show ?thesis
    using handshake [OF v(1) h len w _ ne, of listening "undefined :: unit platform"] p v(2)
    by (auto simp: listening_def connected_def IsReady_def ProcessState_def)
qed


text \<open>Two spans of which one sending takes care.\<close>

definition sending :: "(unit, nat) net" where
  "sending =
     \<lparr>layer = snd (put_spans zero_alloc [''{}'', ''[]''] (connected Map.empty)),
      kern = quiet_kernel\<lparr>k_selects := [Signals False False True], k_sends := map Accepts (replicate 20 0)\<rparr>, env = 0\<rparr>"

lemma sending_took: "put_spans zero_alloc [''{}'', ''[]''] (connected Map.empty) = ([''{}'', ''[]''], layer sending)"
proof -
  have "fst (put_spans zero_alloc [''{}'', ''[]''] (connected Map.empty :: unit trans_layer)) = [''{}'', ''[]'']" by code_simp
  then show ?thesis by (simp add: sending_def prod_eq_iff)
qed


end
